(* ===== verification/Mnet_Prelude.thy ===== *)
theory Mnet_Prelude
  imports Main "HOL-Library.Sublist" "HOL-Library.Word" "HOL-Library.Monad_Syntax"
begin

text \<open>
  Prelude of the mnet development: the collections of rewrite rules that the component
  theories fill and use, names for the bytes the HTTP code talks about, the memory
  primitives by which every access to a C buffer is checked, and the generic lemmas on
  lists and options that several components share.

  A C buffer is a list of bytes and an access to it is a value of \<open>option\<close>: \<open>None\<close> is
  undefined behaviour (an access outside the buffer), so that memory safety of a routine is
  the theorem that it returns \<open>Some\<close>.
\<close>

section \<open>Collections\<close>

named_theorems mem_simps \<open>checked memory accesses that are known to be in bounds\<close>
named_theorems len_simps \<open>lengths of the results of library routines\<close>
named_theorems api_defs \<open>definitions of API operations that are unfolded in their own proofs\<close>

section \<open>Bytes\<close>

type_synonym bytes = string

abbreviation NUL :: char where "NUL \<equiv> CHR 0x00"
abbreviation TAB :: char where "TAB \<equiv> CHR 0x09"
abbreviation LF :: char where "LF \<equiv> CHR 0x0A"
abbreviation CR :: char where "CR \<equiv> CHR 0x0D"
abbreviation SP :: char where "SP \<equiv> CHR 0x20"
abbreviation DQUOTE :: char where "DQUOTE \<equiv> CHR 0x22"
abbreviation BACKSLASH :: char where "BACKSLASH \<equiv> CHR 0x5C"
abbreviation CRLF :: string where "CRLF \<equiv> [CR, LF]"
abbreviation CRLF2 :: string where "CRLF2 \<equiv> [CR, LF, CR, LF]"
abbreviation LF2 :: string where "LF2 \<equiv> [LF, LF]"

text \<open>The value of a byte read as \<open>unsigned char\<close>.\<close>

abbreviation uchar :: "char \<Rightarrow> nat" where "uchar c \<equiv> of_char c"

lemma uchar_less: "uchar c < 256"
  by (rule nat_of_char_less_256)

lemma char_of_uchar [simp]: "char_of (uchar c) = c"
  by simp

lemma uchar_div16: "uchar c div 16 < 16"
  using uchar_less [of c] by (simp add: less_mult_imp_div_less)

lemma uchar_eq_iff: "uchar a = uchar b \<longleftrightarrow> a = b"
  by simp

section \<open>Checked memory\<close>

definition rd :: "bytes \<Rightarrow> nat \<Rightarrow> char option" where
  "rd m k = (if k < length m then Some (m ! k) else None)"

definition wr :: "bytes \<Rightarrow> nat \<Rightarrow> char \<Rightarrow> bytes option" where
  "wr m k c = (if k < length m then Some (m[k := c]) else None)"

fun wrs :: "bytes \<Rightarrow> nat \<Rightarrow> bytes \<Rightarrow> bytes option" where
  "wrs m k [] = Some m"
| "wrs m k (c # cs) = wr m k c \<bind> (\<lambda>m'. wrs m' (Suc k) cs)"

lemma rd_Some [mem_simps]: "k < length m \<Longrightarrow> rd m k = Some (m ! k)"
  by (simp add: rd_def)

lemma wr_Some [mem_simps]: "k < length m \<Longrightarrow> wr m k c = Some (m[k := c])"
  by (simp add: wr_def)

lemma rd_eq_Some: "rd m k = Some c \<longleftrightarrow> k < length m \<and> c = m ! k"
  by (auto simp: rd_def)

lemma wr_eq_Some: "wr m k c = Some m' \<longleftrightarrow> k < length m \<and> m' = m[k := c]"
  by (auto simp: wr_def)

text \<open>Writing a block in bounds replaces exactly that block.\<close>

lemma wrs_Some [mem_simps]:
  "k + length cs \<le> length m \<Longrightarrow> wrs m k cs = Some (take k m @ cs @ drop (k + length cs) m)"
proof (induction cs arbitrary: m k)
  case Nil
  then show ?case by simp
next
  case (Cons c cs)
  then have k: "k < length m" by simp
  with Cons show ?case
    by (simp add: wr_Some upd_conv_take_nth_drop drop_Suc_Cons take_Suc_conv_app_nth add.commute
        flip: Cons_nth_drop_Suc)
qed

lemma wrs_length: "wrs m k cs = Some m' \<Longrightarrow> length m' = length m"
  by (induction cs arbitrary: m k) (auto simp: bind_eq_Some_conv wr_eq_Some)

text \<open>A block of \<open>cap\<close> bytes that is filled from the front: \<open>memcpy\<close> behind what is there.\<close>

definition put_block :: "bytes \<Rightarrow> nat \<Rightarrow> bytes \<Rightarrow> bytes option" where
  "put_block raw cap xs = (if length raw + length xs \<le> cap then Some (raw @ xs) else None)"

lemma put_block_Some [mem_simps]: "length raw + length xs \<le> cap \<Longrightarrow> put_block raw cap xs = Some (raw @ xs)"
  by (simp add: put_block_def)

section \<open>Allocation\<close>

text \<open>
  The outcomes of the allocations to come, in program order; when the script is exhausted,
  further allocations succeed. A routine that allocates takes the script and returns what is
  left of it, so every allocation-failure branch of the source is a branch of the model.
\<close>

type_synonym alloc = "bool list"

fun malloc :: "alloc \<Rightarrow> bool \<times> alloc" where
  "malloc [] = (True, [])"
| "malloc (b # bs) = (b, bs)"

lemma malloc_ok [simp]: "malloc [] = (True, [])"
  by simp

lemma malloc_script:
  assumes "malloc al = (ok, al')"
  shows "set al' \<subseteq> set al" "\<not> ok \<Longrightarrow> False \<in> set al"
  using assms by (cases al; auto)+

section \<open>Lists and options\<close>

lemma takeWhile_all: "(\<And>x. x \<in> set xs \<Longrightarrow> P x) \<Longrightarrow> takeWhile P xs = xs"
  by (simp add: takeWhile_eq_all_conv)

lemma takeWhile_stop: "(\<And>x. x \<in> set xs \<Longrightarrow> P x) \<Longrightarrow> \<not> P y \<Longrightarrow> takeWhile P (xs @ y # ys) = xs"
  by (induction xs) auto

lemma dropWhile_stop: "(\<And>x. x \<in> set xs \<Longrightarrow> P x) \<Longrightarrow> \<not> P y \<Longrightarrow> dropWhile P (xs @ y # ys) = y # ys"
  by (induction xs) auto

lemma takeWhile_front: "\<forall>x\<in>set xs. P x \<Longrightarrow> ys = [] \<or> \<not> P (hd ys) \<Longrightarrow> takeWhile P (xs @ ys) = xs"
  by (induction xs) (cases ys, auto)

lemma dropWhile_front: "\<forall>x\<in>set xs. P x \<Longrightarrow> ys = [] \<or> \<not> P (hd ys) \<Longrightarrow> dropWhile P (xs @ ys) = ys"
  by (induction xs) (cases ys, auto)

lemma length_dropWhile_less: "dropWhile P xs = y # ys \<Longrightarrow> length ys < length xs"
  by (metis length_dropWhile_le length_Cons less_le_trans lessI)

lemma length_dropWhile_Suc: "dropWhile P xs = y # ys \<Longrightarrow> Suc (length ys) \<le> length xs"
  by (metis length_dropWhile_le length_Cons)

lemma set_takeWhile_subset: "set (takeWhile P xs) \<subseteq> set xs"
  by (auto dest: set_takeWhileD)

lemma prefix_drop_append: "prefix n (drop (length p) (p @ n @ q))"
  by simp

end
