(* ===== verification/C_Lib.thy ===== *)
theory C_Lib
  imports Mnet_Prelude
begin

text \<open>
  The part of the C standard library that mnet uses, as functions on byte lists: string
  search (\<open>strstr\<close>, \<open>strcasestr\<close>, \<open>strchr\<close>, \<open>strrchr\<close>), comparison (\<open>strcmp\<close>,
  \<open>strcasecmp\<close>, \<open>strncmp\<close>), tokens (\<open>strtok_r\<close>), the conversions of \<open>sscanf\<close>,
  \<open>atoi\<close> and \<open>strtol\<close>, and the output of \<open>snprintf\<close>. A C string is the list of its bytes
  without the terminator, and \<open>c_string\<close> reads the string that starts a buffer. The C locale
  is assumed (ASCII case, ASCII white space).
\<close>

section \<open>Strings in buffers\<close>

definition c_string :: "bytes \<Rightarrow> string" where
  "c_string m = takeWhile (\<lambda>c. c \<noteq> NUL) m"

lemma c_string_no_NUL [simp]: "NUL \<notin> set (c_string m)"
  by (auto simp: c_string_def dest: set_takeWhileD)

lemma c_string_id [simp]: "NUL \<notin> set s \<Longrightarrow> c_string s = s"
  unfolding c_string_def by (rule takeWhile_all) auto

lemma c_string_terminated [simp]: "NUL \<notin> set s \<Longrightarrow> c_string (s @ NUL # rest) = s"
  unfolding c_string_def by (rule takeWhile_stop) auto

lemma length_c_string: "length (c_string m) \<le> length m"
  by (simp add: c_string_def length_takeWhile_le)

lemma c_string_prefix: "prefix (c_string m) m"
  unfolding c_string_def by (metis prefix_def takeWhile_dropWhile_id)

lemma set_c_string: "set (c_string m) \<subseteq> set m"
  by (auto simp: c_string_def dest: set_takeWhileD)

text \<open>\<open>strlen\<close> of the string at offset \<open>k\<close>; reading past the buffer is undefined.\<close>

definition strlen_at :: "bytes \<Rightarrow> nat \<Rightarrow> nat option" where
  "strlen_at m k = (if NUL \<in> set (drop k m) then Some (length (c_string (drop k m))) else None)"

text \<open>The conversion of a \<open>size_t\<close> to the 32-bit \<open>int\<close> a routine returns.\<close>

definition int_of_size :: "nat \<Rightarrow> int" where
  "int_of_size n = sint (word_of_nat n :: 32 word)"

lemma int_of_size_small [simp]:
  assumes "n < 2 ^ 31"
  shows "int_of_size n = int n"
  using assms by (simp add: int_of_size_def signed_of_nat signed_take_bit_int_eq_self)

section \<open>Search\<close>

fun strstr :: "string \<Rightarrow> string \<Rightarrow> nat option" where
  "strstr [] n = (if n = [] then Some 0 else None)"
| "strstr (c # cs) n = (if prefix n (c # cs) then Some 0 else map_option Suc (strstr cs n))"

lemma strstr_prefix: "strstr h n = Some i \<Longrightarrow> prefix n (drop i h)"
  by (induction h n arbitrary: i rule: strstr.induct) (auto split: if_splits)

lemma strstr_bound: "strstr h n = Some i \<Longrightarrow> i + length n \<le> length h"
proof (induction h n arbitrary: i rule: strstr.induct)
  case (2 c cs n)
  then show ?case by (auto split: if_splits dest: prefix_length_le)
qed (auto split: if_splits)

lemma strstr_least: "strstr h n = Some i \<Longrightarrow> j < i \<Longrightarrow> \<not> prefix n (drop j h)"
proof (induction h n arbitrary: i j rule: strstr.induct)
  case (2 c cs n)
  then show ?case by (cases j) (auto split: if_splits)
qed (auto split: if_splits)

lemma strstr_None: "strstr h n = None \<Longrightarrow> \<not> prefix n (drop j h)"
proof (induction h n arbitrary: j rule: strstr.induct)
  case (2 c cs n)
  then show ?case by (cases j) (auto split: if_splits)
qed (auto split: if_splits)

lemma strstr_Some_iff:
  "strstr h n = Some i \<longleftrightarrow> i \<le> length h \<and> prefix n (drop i h) \<and> (\<forall>j<i. \<not> prefix n (drop j h))"
proof
  assume "strstr h n = Some i"
  then show "i \<le> length h \<and> prefix n (drop i h) \<and> (\<forall>j<i. \<not> prefix n (drop j h))"
    using strstr_bound strstr_prefix strstr_least by fastforce
next
  assume R: "i \<le> length h \<and> prefix n (drop i h) \<and> (\<forall>j<i. \<not> prefix n (drop j h))"
  show "strstr h n = Some i"
  proof (cases "strstr h n")
    case None
    with R show ?thesis using strstr_None by blast
  next
    case (Some k)
    then have "\<not> k < i" "\<not> i < k"
      using R strstr_prefix strstr_least by blast+
    with Some show ?thesis by simp
  qed
qed

lemma strstr_None_iff: "strstr h n = None \<longleftrightarrow> \<not> sublist n h"
proof
  assume "strstr h n = None"
  then show "\<not> sublist n h"
    by (metis append_eq_conv_conj prefix_def strstr_None sublist_def)
next
  assume "\<not> sublist n h"
  then show "strstr h n = None"
    by (metis not_None_eq strstr_prefix sublist_drop sublist_order.order.trans prefix_imp_sublist)
qed

lemma strstr_split:
  assumes "strstr h n = Some i"
  shows "h = take i h @ n @ drop (i + length n) h"
proof -
  have "prefix n (drop i h)" using assms by (rule strstr_prefix)
  then have "drop i h = n @ drop (length n) (drop i h)"
    by (metis append_eq_conv_conj prefix_def)
  then show ?thesis by (metis add.commute append_take_drop_id drop_drop)
qed

lemma strstr_hit:
  assumes "\<And>j. j < length p \<Longrightarrow> \<not> prefix n (drop j (p @ n @ q))"
  shows "strstr (p @ n @ q) n = Some (length p)"
  using assms by (simp add: strstr_Some_iff)

text \<open>ASCII lower case, as \<open>tolower\<close> in the C locale.\<close>

definition to_lower :: "char \<Rightarrow> char" where
  "to_lower c = (if 65 \<le> uchar c \<and> uchar c \<le> 90 then char_of (uchar c + 32) else c)"

definition strcasestr :: "string \<Rightarrow> string \<Rightarrow> nat option" where
  "strcasestr h n = strstr (map to_lower h) (map to_lower n)"

definition strcaseeq :: "string \<Rightarrow> string \<Rightarrow> bool" where
  "strcaseeq a b \<longleftrightarrow> map to_lower a = map to_lower b"

lemma strcaseeq_refl [simp]: "strcaseeq a a"
  by (simp add: strcaseeq_def)

lemma strcaseeq_sym: "strcaseeq a b \<longleftrightarrow> strcaseeq b a"
  by (auto simp: strcaseeq_def)

lemma strcaseeq_trans: "strcaseeq a b \<Longrightarrow> strcaseeq b c \<Longrightarrow> strcaseeq a c"
  by (simp add: strcaseeq_def)

lemma uchar_to_lower: "uchar (to_lower c) = (if 65 \<le> uchar c \<and> uchar c \<le> 90 then uchar c + 32 else uchar c)"
  by (simp add: to_lower_def)

lemma to_lower_idem [simp]: "to_lower (to_lower c) = to_lower c"
  by (auto simp: to_lower_def)

fun strchr :: "string \<Rightarrow> char \<Rightarrow> nat option" where
  "strchr [] c = None"
| "strchr (x # xs) c = (if x = c then Some 0 else map_option Suc (strchr xs c))"

lemma strchr_Some: "strchr s c = Some i \<Longrightarrow> i < length s \<and> s ! i = c \<and> c \<notin> set (take i s)"
  by (induction s arbitrary: i) (auto split: if_splits)

lemma strchr_None [simp]: "strchr s c = None \<longleftrightarrow> c \<notin> set s"
  by (induction s) auto

lemma strchr_append: "c \<notin> set p \<Longrightarrow> strchr (p @ c # q) c = Some (length p)"
  by (induction p) auto

text \<open>\<open>strrchr\<close>: what follows the last occurrence.\<close>

definition after_last :: "string \<Rightarrow> char \<Rightarrow> string option" where
  "after_last s c = (if c \<in> set s then Some (rev (takeWhile (\<lambda>x. x \<noteq> c) (rev s))) else None)"

section \<open>Tokens\<close>

text \<open>
  \<open>strtok_r\<close> over the set of delimiters \<open>d\<close>: skip delimiters, return the token up to the
  next delimiter and the text after it, which is what the save pointer keeps.
\<close>

definition strtok_r :: "string \<Rightarrow> string \<Rightarrow> (string \<times> string) option" where
  "strtok_r d s =
     (case dropWhile (\<lambda>c. c \<in> set d) s of
        [] \<Rightarrow> None
      | c # cs \<Rightarrow>
          Some (takeWhile (\<lambda>c. c \<notin> set d) (c # cs), drop 1 (dropWhile (\<lambda>c. c \<notin> set d) (c # cs))))"

lemma strtok_r_length: "strtok_r d s = Some (t, rest) \<Longrightarrow> length t + length rest \<le> length s \<and> length rest < length s"
proof -
  assume A: "strtok_r d s = Some (t, rest)"
  then obtain c cs where D: "dropWhile (\<lambda>c. c \<in> set d) s = c # cs"
    and t: "t = takeWhile (\<lambda>c. c \<notin> set d) (c # cs)"
    and r: "rest = drop 1 (dropWhile (\<lambda>c. c \<notin> set d) (c # cs))"
    by (auto simp: strtok_r_def split: list.splits)
  have nd: "c \<notin> set d" using D by (simp add: dropWhile_eq_Cons_conv)
  have "length (c # cs) = length t + length (dropWhile (\<lambda>c. c \<notin> set d) (c # cs))"
    unfolding t by (metis length_append takeWhile_dropWhile_id)
  moreover have "length (c # cs) \<le> length s"
    using D length_dropWhile_le [of "\<lambda>c. c \<in> set d" s] by simp
  moreover have "length t \<ge> 1" using nd by (simp add: t)
  ultimately show ?thesis using r by (simp del: dropWhile.simps takeWhile.simps) linarith
qed

lemma strtok_r_shrink: "strtok_r d s = Some (t, rest) \<Longrightarrow> length rest < length s"
  by (simp add: strtok_r_length)

lemma strtok_r_token: "strtok_r d s = Some (t, rest) \<Longrightarrow> t \<noteq> [] \<and> set t \<inter> set d = {} \<and> set t \<subseteq> set s"
proof -
  assume A: "strtok_r d s = Some (t, rest)"
  then obtain c cs where D: "dropWhile (\<lambda>c. c \<in> set d) s = c # cs"
    and t: "t = takeWhile (\<lambda>c. c \<notin> set d) (c # cs)"
    by (auto simp: strtok_r_def split: list.splits)
  have "c \<notin> set d" using D by (simp add: dropWhile_eq_Cons_conv)
  moreover have "set (c # cs) \<subseteq> set s"
    using D set_dropWhileD [of _ "\<lambda>c. c \<in> set d" s] by auto
  ultimately show ?thesis unfolding t by (auto dest: set_takeWhileD)
qed

lemma strtok_r_rest: "strtok_r d s = Some (t, rest) \<Longrightarrow> set rest \<subseteq> set s"
proof
  fix x
  assume A: "strtok_r d s = Some (t, rest)" and x: "x \<in> set rest"
  obtain c cs where D: "dropWhile (\<lambda>c. c \<in> set d) s = c # cs"
    and r: "rest = drop 1 (dropWhile (\<lambda>c. c \<notin> set d) (c # cs))"
    using A by (auto simp: strtok_r_def split: list.splits)
  have "x \<in> set (c # cs)" using x unfolding r by (blast dest: in_set_dropD set_dropWhileD)
  then show "x \<in> set s" unfolding D [symmetric] by (rule set_dropWhileD)
qed

text \<open>A token at the front of the text, ended by a delimiter or by the end of the text.\<close>

lemma strtok_r_front:
  "t \<noteq> [] \<Longrightarrow> set t \<inter> set d = {} \<Longrightarrow> c \<in> set d \<Longrightarrow> strtok_r d (t @ c # rest) = Some (t, rest)"
proof -
  assume t: "t \<noteq> []" and td: "set t \<inter> set d = {}" and c: "c \<in> set d"
  obtain x xs where x: "t = x # xs" using t by (cases t) auto
  have "dropWhile (\<lambda>c. c \<in> set d) (t @ c # rest) = t @ c # rest" using x td by auto
  moreover have "takeWhile (\<lambda>c. c \<notin> set d) (t @ c # rest) = t"
    by (rule takeWhile_stop) (use td c in auto)
  moreover have "dropWhile (\<lambda>c. c \<notin> set d) (t @ c # rest) = c # rest"
    by (rule dropWhile_stop) (use td c in auto)
  ultimately show ?thesis by (simp add: strtok_r_def x)
qed

lemma strtok_r_last:
  "t \<noteq> [] \<Longrightarrow> set t \<inter> set d = {} \<Longrightarrow> strtok_r d t = Some (t, [])"
proof -
  assume t: "t \<noteq> []" and td: "set t \<inter> set d = {}"
  obtain x xs where x: "t = x # xs" using t by (cases t) auto
  have "takeWhile (\<lambda>c. c \<notin> set d) xs = xs" by (rule takeWhile_all) (use td x in auto)
  moreover have "length (dropWhile (\<lambda>c. c \<notin> set d) xs) = 0"
    using td x by (simp only: length_0_conv dropWhile_eq_Nil_conv) auto
  ultimately show ?thesis using td by (simp del: length_0_conv add: strtok_r_def x)
qed

lemma strtok_r_skip: "c \<in> set d \<Longrightarrow> strtok_r d (c # s) = strtok_r d s"
  by (simp add: strtok_r_def)

lemma strtok_r_Nil [simp]: "strtok_r d [] = None"
  by (simp add: strtok_r_def)

section \<open>Conversions\<close>

definition isspace :: "char \<Rightarrow> bool" where
  "isspace c \<longleftrightarrow> c = SP \<or> (9 \<le> uchar c \<and> uchar c \<le> 13)"

definition isdigit :: "char \<Rightarrow> bool" where
  "isdigit c \<longleftrightarrow> 48 \<le> uchar c \<and> uchar c \<le> 57"

definition digit_val :: "char \<Rightarrow> nat" where
  "digit_val c = uchar c - 48"

text \<open>The \<open>%Ns\<close> conversion of \<open>sscanf\<close>: white space is skipped, at most \<open>n\<close> bytes are read.\<close>

definition scan_word :: "nat \<Rightarrow> string \<Rightarrow> (string \<times> string) option" where
  "scan_word n s =
     (let s' = dropWhile isspace s;
          w = take n (takeWhile (\<lambda>c. \<not> isspace c) s')
      in if w = [] then None else Some (w, drop (length w) s'))"

lemma scan_word_bound:
  "scan_word n s = Some (w, rest) \<Longrightarrow> w \<noteq> [] \<and> length w \<le> n \<and> (\<forall>c\<in>set w. \<not> isspace c) \<and> set w \<subseteq> set s"
  by (auto simp: scan_word_def Let_def split: if_splits
      dest!: in_set_takeD set_takeWhileD dest: set_dropWhileD)

lemma scan_word_front:
  assumes "w \<noteq> []" "\<forall>c\<in>set w. \<not> isspace c" "isspace c" "length w \<le> n"
  shows "scan_word n (w @ c # rest) = Some (w, c # rest)"
proof -
  obtain x xs where x: "w = x # xs" using assms(1) by (cases w) auto
  have "dropWhile isspace (w @ c # rest) = w @ c # rest" using x assms(2) by auto
  moreover have "takeWhile (\<lambda>c. \<not> isspace c) (w @ c # rest) = w"
    by (rule takeWhile_stop) (use assms in auto)
  moreover have "0 < n" using assms(4) x by simp
  ultimately show ?thesis using assms by (simp add: scan_word_def)
qed

lemma scan_word_skip: "isspace c \<Longrightarrow> scan_word n (c # s) = scan_word n s"
  by (simp add: scan_word_def)

section \<open>Output of snprintf\<close>

text \<open>A digit of a radix up to sixteen, and the digits of a number (\<open>%d\<close>, \<open>%zu\<close>, \<open>%x\<close>).\<close>

definition digit_char :: "nat \<Rightarrow> char" where
  "digit_char d = char_of (if d < 10 then 48 + d else 87 + d)"

fun radix :: "nat \<Rightarrow> nat \<Rightarrow> string" where
  "radix b n = (if n < b \<or> b < 2 then [digit_char n] else radix b (n div b) @ [digit_char (n mod b)])"

declare radix.simps [simp del]

definition show_nat :: "nat \<Rightarrow> string" where "show_nat n = radix 10 n"
definition show_hex :: "nat \<Rightarrow> string" where "show_hex n = radix 16 n"
definition show_int :: "int \<Rightarrow> string" where
  "show_int i = (if i < 0 then CHR ''-'' # show_nat (nat (- i)) else show_nat (nat i))"

text \<open>\<open>%04x\<close>.\<close>

definition show_hex4 :: "nat \<Rightarrow> string" where
  "show_hex4 n = replicate (4 - length (show_hex n)) CHR ''0'' @ show_hex n"

text \<open>What \<open>snprintf\<close> leaves in a buffer of \<open>sz\<close> bytes; its result is the length of \<open>full\<close>.\<close>

definition snprintf_out :: "nat \<Rightarrow> string \<Rightarrow> string" where
  "snprintf_out sz full = take (sz - 1) full"

lemma radix_nonempty: "radix b n \<noteq> []"
  by (subst radix.simps) simp

lemma length_radix_pos: "0 < length (radix b n)"
  using radix_nonempty by simp

lemma length_radix: "2 \<le> b \<Longrightarrow> 0 < k \<Longrightarrow> n < b ^ k \<Longrightarrow> length (radix b n) \<le> k"
proof (induction b n arbitrary: k rule: radix.induct)
  case (1 b n)
  show ?case
  proof (cases "n < b \<or> b < 2")
    case True
    with 1 show ?thesis by (simp add: radix.simps [of b n])
  next
    case False
    then obtain k' where k': "k = Suc k'" using 1(3) by (cases k) auto
    have "k' \<noteq> 0" using False 1(4) k' by (cases k') auto
    moreover have "n div b < b ^ k'"
      using 1(4) k' False by (simp add: less_mult_imp_div_less mult.commute)
    ultimately have "length (radix b (n div b)) \<le> k'" using 1 False by simp
    then show ?thesis using k' False by (simp add: radix.simps [of b n])
  qed
qed

lemma uchar_digit_char: "d < 16 \<Longrightarrow> uchar (digit_char d) = (if d < 10 then 48 + d else 87 + d)"
  by (simp add: digit_char_def)

lemma digit_char_not_NUL: "d < 16 \<Longrightarrow> digit_char d \<noteq> NUL" "d < 16 \<Longrightarrow> NUL \<noteq> digit_char d"
  using uchar_digit_char [of d] by (auto simp: uchar_eq_iff [symmetric] split: if_splits)

lemma isdigit_digit_char: "d < 10 \<Longrightarrow> isdigit (digit_char d)"
  by (simp add: isdigit_def uchar_digit_char)

lemma digit_val_digit_char: "d < 10 \<Longrightarrow> digit_val (digit_char d) = d"
  by (simp add: digit_val_def uchar_digit_char)

lemma set_radix_digits: "2 \<le> b \<Longrightarrow> c \<in> set (radix b n) \<Longrightarrow> \<exists>d<b. c = digit_char d"
proof (induction b n rule: radix.induct)
  case (1 b n)
  show ?case
  proof (cases "n < b \<or> b < 2")
    case True
    with 1 show ?thesis by (auto simp: radix.simps [of b n])
  next
    case False
    then have "n mod b < b" by simp
    moreover have "c = digit_char (n mod b) \<or> (\<exists>d<b. c = digit_char d)"
      using False 1 by (auto simp: radix.simps [of b n])
    ultimately show ?thesis by blast
  qed
qed

lemma show_nat_isdigit: "c \<in> set (show_nat n) \<Longrightarrow> isdigit c"
  unfolding show_nat_def using set_radix_digits [of 10] isdigit_digit_char by fastforce

lemma show_nat_nonempty [simp]: "show_nat n \<noteq> []"
  by (simp add: show_nat_def radix_nonempty)

text \<open>Reading a run of digits back.\<close>

definition dec_val :: "string \<Rightarrow> nat" where
  "dec_val ds = foldl (\<lambda>a c. a * 10 + digit_val c) 0 ds"

lemma dec_val_snoc: "dec_val (ds @ [c]) = dec_val ds * 10 + digit_val c"
  by (simp add: dec_val_def)

lemma dec_val_radix: "dec_val (radix 10 n) = n"
proof (induction n rule: less_induct)
  case (less n)
  show ?case
  proof (cases "n < 10")
    case True
    then show ?thesis by (simp add: radix.simps [of 10 n] dec_val_def digit_val_digit_char)
  next
    case False
    with less have "dec_val (radix 10 (n div 10)) = n div 10" by simp
    with False show ?thesis
      by (simp add: radix.simps [of 10 n] dec_val_snoc digit_val_digit_char)
  qed
qed

lemma dec_val_show_nat [simp]: "dec_val (show_nat n) = n"
  by (simp add: show_nat_def dec_val_radix)

text \<open>The values of the type \<open>int\<close>.\<close>

definition c_int :: "int \<Rightarrow> bool" where "c_int i \<longleftrightarrow> - (2 ^ 31) \<le> i \<and> i < 2 ^ 31"

text \<open>\<open>atoi\<close>: optional white space and sign, then the leading run of digits.\<close>

definition atoi :: "string \<Rightarrow> int" where
  "atoi s =
     (let s' = dropWhile isspace s
      in case s' of
           CHR ''-'' # t \<Rightarrow> - int (dec_val (takeWhile isdigit t))
         | CHR ''+'' # t \<Rightarrow> int (dec_val (takeWhile isdigit t))
         | _ \<Rightarrow> int (dec_val (takeWhile isdigit s')))"

end
