(* ===== verification/Mnet_Types.thy ===== *)
theory Mnet_Types
  imports C_Lib
begin

text \<open>
  The data of mnet, from \<^verbatim>\<open>include/mnet/\<close> and \<^verbatim>\<open>src/mnet_internal.h\<close>: limits, methods,
  requests, responses, routes and the application, and the state that the code shares with its
  environment. A pointer that may be NULL is an \<open>option\<close>; the array of captured path parameters
  keeps, per slot, whether it holds NULL, a live allocation or a freed one, so that double frees
  and leaks can be stated. An application handler is a function of the request and of the host
  state; its own memory is the type \<open>'w\<close>.
\<close>

section \<open>Limits\<close>

text \<open>\<open>size_t\<close> on the 64-bit targets; used where its wrap-around matters.\<close>

type_synonym size_t = "64 word"

abbreviation MNET_INITIAL_ROUTE_CAPACITY :: nat where "MNET_INITIAL_ROUTE_CAPACITY \<equiv> 8"
abbreviation MNET_REQUEST_BUFFER_SIZE :: nat where "MNET_REQUEST_BUFFER_SIZE \<equiv> 8192"
abbreviation MNET_MAX_HEADERS :: nat where "MNET_MAX_HEADERS \<equiv> 100"
abbreviation MNET_MAX_HEADER_LINE :: nat where "MNET_MAX_HEADER_LINE \<equiv> 4096"
abbreviation MNET_MAX_QUERY_NAME :: nat where "MNET_MAX_QUERY_NAME \<equiv> 1024"
abbreviation MNET_MAX_QUERY_VALUE :: nat where "MNET_MAX_QUERY_VALUE \<equiv> 1024"
abbreviation MNET_MAX_BODY_SIZE :: size_t where "MNET_MAX_BODY_SIZE \<equiv> 16777216"
abbreviation MNET_MAX_PARAMS :: nat where "MNET_MAX_PARAMS \<equiv> 16"
abbreviation MNET_MAX_QUERY :: nat where "MNET_MAX_QUERY \<equiv> 16"
abbreviation MNET_MAX_WORKERS :: int where "MNET_MAX_WORKERS \<equiv> 64"
abbreviation MNET_DEFAULT_WORKERS :: int where "MNET_DEFAULT_WORKERS \<equiv> 4"
abbreviation MNET_DEFAULT_TIMEOUT :: int where "MNET_DEFAULT_TIMEOUT \<equiv> 30"
abbreviation MNET_DEFAULT_KEEP_ALIVE_TIMEOUT :: int where "MNET_DEFAULT_KEEP_ALIVE_TIMEOUT \<equiv> 5"

section \<open>Methods, responses, requests\<close>

datatype mnet_http_method =
    MNET_HTTP_GET | MNET_HTTP_POST | MNET_HTTP_PUT | MNET_HTTP_PATCH | MNET_HTTP_DELETE
  | MNET_HTTP_HEAD | MNET_HTTP_OPTIONS

record mnet_response =
  r_status :: int
  r_content_type :: "string option"
  r_body :: "bytes option"
  r_body_length :: nat
  r_chunked :: bool

definition zero_response :: mnet_response where
  "zero_response =
     \<lparr>r_status = 0, r_content_type = None, r_body = None, r_body_length = 0, r_chunked = False\<rparr>"

text \<open>A slot of the array of captured parameters.\<close>

datatype slot = Null | Val bytes | Freed

record static_config =
  sc_url_prefix :: string
  sc_fs_path :: string

record request_extras =
  ex_param_names :: "string list option"
  ex_param_values :: "slot list option"
  ex_param_count :: nat
  ex_query_names :: "string list option"
  ex_query_values :: "string list option"
  ex_query_count :: nat
  ex_header_names :: "string list option"
  ex_header_values :: "string list option"
  ex_header_count :: nat
  ex_cookie_names :: "string list option"
  ex_cookie_values :: "string list option"
  ex_cookie_count :: nat

definition no_extras :: request_extras where
  "no_extras =
     \<lparr>ex_param_names = None, ex_param_values = None, ex_param_count = 0,
      ex_query_names = None, ex_query_values = None, ex_query_count = 0,
      ex_header_names = None, ex_header_values = None, ex_header_count = 0,
      ex_cookie_names = None, ex_cookie_values = None, ex_cookie_count = 0\<rparr>"

record mnet_request =
  rq_method :: string
  rq_path :: string
  rq_query_string :: "string option"
  rq_body :: "bytes option"
  rq_body_length :: nat
  rq_path_param_count :: nat
  rq_path_param_names :: "string list option"
  rq_path_param_values :: "slot list option"
  rq_query_count :: nat
  rq_query_names :: "string list option"
  rq_query_values :: "string list option"
  rq_header_count :: nat
  rq_header_names :: "string list option"
  rq_header_values :: "string list option"
  rq_cookie_count :: nat
  rq_cookie_names :: "string list option"
  rq_cookie_values :: "string list option"
  rq_extras :: "request_extras option"
  rq_user_data :: "static_config option"

section \<open>The host\<close>

text \<open>
  What a handler can reach besides its request: the application's own memory, the standard error
  stream (one entry per line written), the allocator, and the process-wide log handler.
\<close>

type_synonym 'w log_handler = "int \<Rightarrow> string \<Rightarrow> 'w \<Rightarrow> 'w"

record 'w host =
  h_world :: 'w
  h_stderr :: "string list"
  h_alloc :: alloc
  h_log_handler :: "'w log_handler option"

definition with_alloc :: "(alloc \<Rightarrow> 'r \<times> alloc) \<Rightarrow> 'w host \<Rightarrow> 'r \<times> 'w host" where
  "with_alloc f h = (case f (h_alloc h) of (r, al) \<Rightarrow> (r, h\<lparr>h_alloc := al\<rparr>))"

section \<open>Routes and the application\<close>

type_synonym 'w handler = "mnet_request \<Rightarrow> 'w host \<Rightarrow> mnet_response \<times> 'w host"
type_synonym 'w middleware = "mnet_request \<Rightarrow> 'w handler \<Rightarrow> 'w host \<Rightarrow> mnet_response \<times> 'w host"

record 'w mnet_route =
  rt_method :: mnet_http_method
  rt_path :: "string option"
  rt_handler :: "'w handler"
  rt_param_names :: "string list option"
  rt_user_data :: "static_config option"
  rt_path_allocated :: bool

text \<open>
  \<open>app_routes\<close> is the allocated array, \<open>None\<close> an entry not yet written; \<open>app_running\<close> and the
  flags \<open>app_debug\<close>, \<open>app_dev\<close>, \<open>app_https\<close> are read as conditions only.
\<close>

record 'w mnet_app =
  app_routes :: "'w mnet_route option list"
  app_route_count :: nat
  app_route_capacity :: nat
  app_running :: bool
  app_debug :: bool
  app_dev :: bool
  app_https :: bool
  app_port :: int
  app_not_found_handler :: "'w handler option"
  app_middleware :: "'w middleware option"
  app_timeout_seconds :: int
  app_max_connections :: int
  app_keep_alive_timeout :: int
  app_max_body_size :: size_t
  app_log_handler :: "'w log_handler option"
  app_workers :: int
  app_active_connections :: int

section \<open>Connections\<close>

text \<open>
  The peer of a connection is a script of what it will do: \<open>Data d xs\<close> makes \<open>xs\<close> arrive \<open>d\<close>
  milliseconds after the previous event, \<open>Eof d\<close> closes its end, \<open>Poll_err d\<close> and
  \<open>Recv_err d\<close> make \<open>poll\<close> or \<open>recv\<close> fail. A script that is exhausted stays silent.
  \<open>c_sent\<close> records the blocks handed to \<open>send\<close>, in order, and \<open>c_clock\<close> is the monotonic
  clock in milliseconds.
\<close>

datatype net_event = Data nat bytes | Eof nat | Poll_err nat | Recv_err nat

record conn =
  c_clock :: int
  c_inbox :: "net_event list"
  c_sent :: "bytes list"

definition mnet_send :: "bytes \<Rightarrow> conn \<Rightarrow> conn" where
  "mnet_send block c = c\<lparr>c_sent := c_sent c @ [block]\<rparr>"

lemma mnet_send_simps [simp]:
  "c_clock (mnet_send b c) = c_clock c"
  "c_inbox (mnet_send b c) = c_inbox c"
  "c_sent (mnet_send b c) = c_sent c @ [b]"
  by (simp_all add: mnet_send_def)

end
