(* ===== verification/Url_Codec.thy ===== *)
theory Url_Codec
  imports C_Lib
begin

text \<open>
  URL decoding and header validation of \<^verbatim>\<open>src/mnet_response.c\<close>.

  \<open>mnet_url_decode_ex\<close> and its wrappers work on memory: one byte array, the source and the
  destination as offsets into it, so that the in-place call of the query parser (source and
  destination the same string) is an instance like any other. \<open>None\<close> is an access outside the
  array. \<open>url_decode\<close> is the specification, a function of the source bytes alone.
\<close>

section \<open>Definitions\<close>

definition hex_value :: "char \<Rightarrow> int" where
  "hex_value c =
     (if 48 \<le> uchar c \<and> uchar c \<le> 57 then int (uchar c) - 48
      else if 97 \<le> uchar c \<and> uchar c \<le> 102 then int (uchar c) - 97 + 10
      else if 65 \<le> uchar c \<and> uchar c \<le> 70 then int (uchar c) - 65 + 10
      else -1)"

definition hex_pair :: "char \<Rightarrow> char \<Rightarrow> char" where
  "hex_pair a b = char_of (nat (hex_value a * 16 + hex_value b))"

text \<open>
  One turn of the decoding loop up to the choice of \<open>out\<close>: the outer \<open>None\<close> is an access
  outside the array, the inner one the \<open>return -1\<close> of a bad escape; otherwise the byte and the
  index of the last source byte it used.
\<close>

definition url_decode_byte :: "bytes \<Rightarrow> nat \<Rightarrow> nat \<Rightarrow> nat \<Rightarrow> (char \<times> nat) option option" where
  "url_decode_byte m s src_len i =
     do { c \<leftarrow> rd m (s + i);
          if c = CHR ''%'' then
            if i + 2 \<ge> src_len then Some None
            else do { a \<leftarrow> rd m (s + i + 1);
                      b \<leftarrow> rd m (s + i + 2);
                      if hex_value a < 0 \<or> hex_value b < 0 then Some None
                      else Some (Some (hex_pair a b, i + 2)) }
          else if c = CHR ''+'' then Some (Some (SP, i))
          else Some (Some (c, i)) }"

function url_decode_loop ::
  "bytes \<Rightarrow> nat \<Rightarrow> nat \<Rightarrow> nat \<Rightarrow> nat \<Rightarrow> nat \<Rightarrow> nat \<Rightarrow> (int \<times> bytes) option" where
  "url_decode_loop m s src_len d dst_size i pos =
     (if i < src_len then
        (case url_decode_byte m s src_len i of
           None \<Rightarrow> None
         | Some None \<Rightarrow> Some (-1, m)
         | Some (Some (out, j)) \<Rightarrow>
             if out = NUL then Some (-1, m)
             else if pos + 1 \<ge> dst_size then Some (-1, m)
             else if j < i then None
             else (case wr m (d + pos) out of
                     None \<Rightarrow> None
                   | Some m' \<Rightarrow> url_decode_loop m' s src_len d dst_size (j + 1) (pos + 1)))
      else
        (case wr m (d + pos) NUL of
           None \<Rightarrow> None
         | Some m' \<Rightarrow> Some (int_of_size pos, m')))"
  by pat_completeness auto
termination
  by (relation "measure (\<lambda>(m, s, src_len, d, dst_size, i, pos). src_len - i)") auto

declare url_decode_loop.simps [simp del]

definition mnet_url_decode_ex ::
  "bytes \<Rightarrow> nat option \<Rightarrow> nat \<Rightarrow> nat option \<Rightarrow> nat \<Rightarrow> (int \<times> bytes) option" where
  "mnet_url_decode_ex m src src_len dst dst_size =
     (case (src, dst) of
        (Some s, Some d) \<Rightarrow>
          if dst_size = 0 then Some (-1, m) else url_decode_loop m s src_len d dst_size 0 0
      | _ \<Rightarrow> Some (-1, m))"

definition mnet_url_decode_safe ::
  "bytes \<Rightarrow> nat option \<Rightarrow> nat option \<Rightarrow> nat \<Rightarrow> (int \<times> bytes) option" where
  "mnet_url_decode_safe m src dst dst_size =
     (case src of
        None \<Rightarrow> Some (-1, m)
      | Some s \<Rightarrow> do { n \<leftarrow> strlen_at m s; mnet_url_decode_ex m (Some s) n dst dst_size })"

definition mnet_url_decode ::
  "bytes \<Rightarrow> nat option \<Rightarrow> nat \<Rightarrow> nat option \<Rightarrow> (nat \<times> bytes) option" where
  "mnet_url_decode m out out_size s =
     (case (out, s) of
        (Some d, Some q) \<Rightarrow>
          if out_size = 0 then Some (0, m)
          else do { len \<leftarrow> strlen_at m q;
                    (n, m') \<leftarrow> mnet_url_decode_ex m (Some q) len (Some d) out_size;
                    if n < 0 then do { m'' \<leftarrow> wr m' d NUL; Some (0, m'') }
                    else Some (nat n, m') }
      | _ \<Rightarrow> Some (0, m))"

definition mnet_header_value_valid :: "string option \<Rightarrow> bool" where
  "mnet_header_value_valid value =
     (case value of
        None \<Rightarrow> True
      | Some v \<Rightarrow> list_all (\<lambda>c. \<not> (c = CR \<or> c = LF \<or> uchar c < 32 \<or> uchar c = 127)) v)"

definition token_char :: "char \<Rightarrow> bool" where
  "token_char c \<longleftrightarrow>
     (97 \<le> uchar c \<and> uchar c \<le> 122) \<or> (65 \<le> uchar c \<and> uchar c \<le> 90) \<or>
     (48 \<le> uchar c \<and> uchar c \<le> 57) \<or>
     c \<in> set ''!#$%&'' \<or> c = CHR 0x27 \<or> c \<in> set ''*+-.^_'' \<or> c = CHR 0x60 \<or> c \<in> set ''|~''"

definition mnet_header_name_valid :: "string option \<Rightarrow> bool" where
  "mnet_header_name_valid name =
     (case name of
        None \<Rightarrow> False
      | Some n \<Rightarrow> n \<noteq> [] \<and> list_all token_char n)"

section \<open>Specification\<close>

text \<open>
  The decoded text of a byte string, or \<open>None\<close> for a truncated or malformed escape or a byte
  that decodes to NUL.
\<close>

fun url_decode :: "string \<Rightarrow> string option" where
  "url_decode [] = Some []"
| "url_decode (c # cs) =
     (if c = CHR ''%'' then
        (case cs of
           a # b # rest \<Rightarrow>
             if hex_value a < 0 \<or> hex_value b < 0 \<or> hex_pair a b = NUL then None
             else map_option ((#) (hex_pair a b)) (url_decode rest)
         | _ \<Rightarrow> None)
      else if c = CHR ''+'' then map_option ((#) SP) (url_decode cs)
      else if c = NUL then None
      else map_option ((#) c) (url_decode cs))"

text \<open>
  An encoder: bytes for which \<open>plain\<close> holds stand for themselves, every other byte is written
  as an escape. The round trip below holds for every choice of \<open>plain\<close> that escapes the two
  bytes with a meaning of their own.
\<close>

definition hex_escape :: "char \<Rightarrow> string" where
  "hex_escape c = [CHR ''%'', digit_char (uchar c div 16), digit_char (uchar c mod 16)]"

definition url_encode :: "(char \<Rightarrow> bool) \<Rightarrow> string \<Rightarrow> string" where
  "url_encode plain s = concat (map (\<lambda>c. if plain c then [c] else hex_escape c) s)"

section \<open>Hexadecimal digits\<close>

lemma hex_value_range: "hex_value c < 16 \<and> -1 \<le> hex_value c"
  by (auto simp: hex_value_def)

lemma hex_value_digit_char: "d < 16 \<Longrightarrow> hex_value (digit_char d) = int d"
  by (auto simp: hex_value_def uchar_digit_char)

lemma hex_pair_escape: "hex_pair (digit_char (uchar c div 16)) (digit_char (uchar c mod 16)) = c"
proof -
  have "hex_value (digit_char (uchar c div 16)) * 16 + hex_value (digit_char (uchar c mod 16))
      = int (uchar c div 16 * 16 + uchar c mod 16)"
    using uchar_div16 [of c]
    by (simp only: hex_value_digit_char of_nat_add of_nat_mult of_nat_numeral mod_less_divisor
        zero_less_numeral)
  then show ?thesis
    unfolding hex_pair_def by (simp only: div_mult_mod_eq nat_int char_of_char)
qed

lemma url_decode_shrinks: "url_decode s = Some t \<Longrightarrow> length t \<le> length s"
proof (induction s arbitrary: t rule: url_decode.induct)
  case (2 c cs)
  then show ?case by (fastforce split: if_splits list.splits)
qed simp

lemma url_decode_no_NUL: "url_decode s = Some t \<Longrightarrow> NUL \<notin> set t"
proof (induction s arbitrary: t rule: url_decode.induct)
  case (2 c cs)
  then show ?case by (fastforce split: if_splits list.splits)
qed simp

lemma url_decode_plain:
  assumes "set s \<inter> {CHR ''%'', CHR ''+'', NUL} = {}"
  shows "url_decode s = Some s"
  using assms by (induction s) auto

lemma url_decode_escape:
  assumes "c \<noteq> NUL"
  shows "url_decode (hex_escape c @ s) = map_option ((#) c) (url_decode s)"
proof -
  have "uchar c div 16 < 16" by (rule uchar_div16)
  with assms show ?thesis by (simp add: hex_escape_def hex_pair_escape hex_value_digit_char)
qed

section \<open>The decoding loop against the specification\<close>

text \<open>The source bytes the loop has yet to read.\<close>

definition src_at :: "bytes \<Rightarrow> nat \<Rightarrow> nat \<Rightarrow> nat \<Rightarrow> string" where
  "src_at m s src_len i = take (src_len - i) (drop (s + i) m)"

lemma src_at_end [simp]: "src_len \<le> i \<Longrightarrow> src_at m s src_len i = []"
  by (simp add: src_at_def)

lemma src_at_Cons:
  assumes "i < src_len" and "s + src_len \<le> length m"
  shows "src_at m s src_len i = m ! (s + i) # src_at m s src_len (Suc i)"
proof -
  have "drop (s + i) m = m ! (s + i) # drop (Suc (s + i)) m"
    using assms by (intro Cons_nth_drop_Suc [symmetric]) simp
  moreover have "src_len - i = Suc (src_len - Suc i)" using assms by simp
  ultimately show ?thesis by (simp add: src_at_def)
qed

lemma src_at_update:
  "k < s + i \<or> s + src_len \<le> k \<Longrightarrow> src_at (m[k := c]) s src_len i = src_at m s src_len i"
  by (rule nth_equalityI) (auto simp: src_at_def)

lemma src_at_0: "s + src_len \<le> length m \<Longrightarrow> src_at m s src_len 0 = take src_len (drop s m)"
  by (simp add: src_at_def)

lemma url_decode_byte_spec:
  assumes i: "i < src_len" and m: "s + src_len \<le> length m"
  obtains
    (bad) "url_decode_byte m s src_len i = Some None" "url_decode (src_at m s src_len i) = None"
  | (byte) out j where "url_decode_byte m s src_len i = Some (Some (out, j))" "i \<le> j" "j < src_len"
      "url_decode (src_at m s src_len i) =
         (if out = NUL then None else map_option ((#) out) (url_decode (src_at m s src_len (Suc j))))"
proof (cases "m ! (s + i) = CHR ''%'' \<and> i + 2 < src_len")
  case True
  let ?a = "m ! (s + i + 1)" and ?b = "m ! (s + i + 2)"
  have src: "src_at m s src_len i = CHR ''%'' # ?a # ?b # src_at m s src_len (Suc (i + 2))"
    using True m by (simp add: src_at_Cons)
  have eq: "url_decode_byte m s src_len i =
      (if hex_value ?a < 0 \<or> hex_value ?b < 0 then Some None else Some (Some (hex_pair ?a ?b, i + 2)))"
    using True m by (simp add: url_decode_byte_def rd_def)
  show thesis
  proof (cases "hex_value ?a < 0 \<or> hex_value ?b < 0")
    case True
    with eq src bad show thesis by auto
  next
    case False
    with eq src True byte [of "hex_pair ?a ?b" "i + 2"] show thesis by auto
  qed
next
  case False
  then consider "m ! (s + i) = CHR ''%''" "src_len \<le> i + 2" | "m ! (s + i) \<noteq> CHR ''%''"
    by linarith
  then show thesis
  proof cases
    case 1
    have "length (src_at m s src_len (Suc i)) < 2"
      using 1 i m by (simp add: src_at_def)
    then have "url_decode (src_at m s src_len i) = None"
      using 1 i m by (auto simp: src_at_Cons split: list.splits)
    moreover have "url_decode_byte m s src_len i = Some None"
      using 1 i m by (simp add: url_decode_byte_def rd_def)
    ultimately show thesis by (rule bad [rotated])
  next
    case 2
    then show thesis
      using byte [of "if m ! (s + i) = CHR ''+'' then SP else m ! (s + i)" i] i m
      by (auto simp: url_decode_byte_def rd_def src_at_Cons)
  qed
qed

text \<open>What the loop leaves outside the destination is what it found there.\<close>

definition same_outside :: "nat \<Rightarrow> nat \<Rightarrow> bytes \<Rightarrow> bytes \<Rightarrow> bool" where
  "same_outside lo hi m m' \<longleftrightarrow>
     length m' = length m \<and> (\<forall>k<length m. k < lo \<or> hi \<le> k \<longrightarrow> m' ! k = m ! k)"

lemma same_outside_refl [simp]: "same_outside lo hi m m"
  by (simp add: same_outside_def)

lemma same_outside_update:
  "same_outside lo hi (m[k := c]) m' \<Longrightarrow> lo \<le> k \<Longrightarrow> k < hi \<Longrightarrow> same_outside lo hi m m'"
  by (auto simp: same_outside_def)

lemma same_outside_wider:
  "same_outside lo hi m m' \<Longrightarrow> lo' \<le> lo \<Longrightarrow> same_outside lo' hi m m'"
  by (auto simp: same_outside_def)

text \<open>The outcome the specification predicts for the loop from a given point on.\<close>

definition decodes_to ::
  "string option \<Rightarrow> bytes \<Rightarrow> nat \<Rightarrow> nat \<Rightarrow> nat \<Rightarrow> (int \<times> bytes) option \<Rightarrow> bool" where
  "decodes_to t m d dst_size pos r \<longleftrightarrow>
     (if \<exists>u. t = Some u \<and> pos + length u < dst_size
      then r = Some (int_of_size (pos + length (the t)),
             take (d + pos) m @ the t @ NUL # drop (Suc (d + pos + length (the t))) m)
      else \<exists>m'. r = Some (-1, m') \<and> same_outside (d + pos) (d + dst_size) m m')"

lemma decodes_to_fail: "decodes_to None m d dst_size pos (Some (-1, m))"
  by (auto simp: decodes_to_def)

lemma decodes_to_full: "dst_size \<le> pos + 1 \<Longrightarrow>
    decodes_to (map_option ((#) c) t) m d dst_size pos (Some (-1, m))"
  by (auto simp: decodes_to_def)

lemma decodes_to_step:
  assumes "decodes_to t (m[d + pos := c]) d dst_size (pos + 1) r"
    and "d + dst_size \<le> length m" "pos + 1 < dst_size"
  shows "decodes_to (map_option ((#) c) t) m d dst_size pos r"
proof (cases "\<exists>u. t = Some u \<and> pos + 1 + length u < dst_size")
  case True
  have "take (d + (pos + 1)) (m[d + pos := c]) = take (d + pos) m @ [c]"
    using assms(2,3) by (simp add: take_Suc_conv_app_nth)
  with True assms(1) show ?thesis by (auto simp: decodes_to_def)
next
  case False
  with assms(1) obtain m' where r: "r = Some (-1, m')"
    and o: "same_outside (d + (pos + 1)) (d + dst_size) (m[d + pos := c]) m'"
    unfolding decodes_to_def if_not_P [OF False] by blast
  have "same_outside (d + pos) (d + dst_size) m m'"
    by (rule same_outside_update [of _ _ _ "d + pos" c])
      (use assms(3) o in \<open>auto intro: same_outside_wider\<close>)
  with False r show ?thesis by (auto simp: decodes_to_def)
qed

lemma url_decode_loop_spec:
  assumes "s + src_len \<le> length m" "d + dst_size \<le> length m" "i \<le> src_len" "pos < dst_size"
    and "d + pos \<le> s + i \<or> s + src_len \<le> d"
  shows "decodes_to (url_decode (src_at m s src_len i)) m d dst_size pos
    (url_decode_loop m s src_len d dst_size i pos)"
  using assms
proof (induction m s src_len d dst_size i pos rule: url_decode_loop.induct)
  case (1 m s src_len d dst_size i pos)
  note U = url_decode_loop.simps [of m s src_len d dst_size i pos]
  show ?case
  proof (cases "i < src_len")
    case False
    with 1(4) have i: "i = src_len" by simp
    show ?thesis
      using 1(3,5) by (simp add: i U [unfolded i] wr_def decodes_to_def upd_conv_take_nth_drop)
  next
    case True
    from True 1(2) show ?thesis
    proof (cases rule: url_decode_byte_spec)
      case bad
      with True show ?thesis by (simp add: U decodes_to_fail)
    next
      case (byte out j)
      consider "out = NUL" | "out \<noteq> NUL" "dst_size \<le> pos + 1" | "out \<noteq> NUL" "pos + 1 < dst_size"
        by linarith
      then show ?thesis
      proof cases
        case 1
        with byte True show ?thesis by (simp add: U decodes_to_fail)
      next
        case 2
        with byte True show ?thesis by (simp add: U decodes_to_full)
      next
        case 3
        let ?m = "m[d + pos := out]"
        have w: "wr m (d + pos) out = Some ?m" using 3 1(3) by (simp add: wr_def)
        have src: "src_at ?m s src_len (j + 1) = src_at m s src_len (j + 1)"
          using 1(6) byte(2) by (intro src_at_update) auto
        have "decodes_to (url_decode (src_at ?m s src_len (j + 1))) ?m d dst_size (pos + 1)
            (url_decode_loop ?m s src_len d dst_size (j + 1) (pos + 1))"
          by (rule 1(1) [OF True byte(1) refl refl]) (use 3 byte(2,3) w 1(2-6) in auto)
        then have "decodes_to (map_option ((#) out) (url_decode (src_at m s src_len (j + 1))))
            m d dst_size pos (url_decode_loop ?m s src_len d dst_size (j + 1) (pos + 1))"
          unfolding src by (rule decodes_to_step) (use 3 1(3) in auto)
        with 3 True byte w show ?thesis by (simp add: U)
      qed
    qed
  qed
qed

section \<open>Correctness of the decoders\<close>

text \<open>The three ways the source and the destination can lie that the code relies on.\<close>

definition decode_regions_ok :: "bytes \<Rightarrow> nat \<Rightarrow> nat \<Rightarrow> nat \<Rightarrow> nat \<Rightarrow> bool" where
  "decode_regions_ok m s src_len d dst_size \<longleftrightarrow>
     s + src_len \<le> length m \<and> d + dst_size \<le> length m \<and> (d \<le> s \<or> s + src_len \<le> d)"

lemma mnet_url_decode_ex_decodes:
  assumes "decode_regions_ok m s src_len d dst_size" "0 < dst_size"
  shows "decodes_to (url_decode (take src_len (drop s m))) m d dst_size 0
    (mnet_url_decode_ex m (Some s) src_len (Some d) dst_size)"
  using assms url_decode_loop_spec [of s src_len m d dst_size 0 0]
  by (simp add: mnet_url_decode_ex_def decode_regions_ok_def src_at_0)

lemma strlen_at_terminated:
  "NUL \<notin> set q \<Longrightarrow> strlen_at (p @ q @ NUL # r) (length p) = Some (length q)"
  by (simp add: strlen_at_def)

text \<open>
  C27. \<open>mnet_url_decode_ex\<close> against its specification, for separate buffers and for decoding in
  place alike: it never leaves the memory it is given; when the source decodes to a text that
  fits with its terminator, it returns the length and leaves exactly that text, terminated, at
  the destination; in every other case it returns -1 and changes nothing outside the
  destination. It never truncates.
\<close>

theorem mnet_url_decode_ex_correct:
  assumes "decode_regions_ok m s src_len d dst_size" and "0 < dst_size" and "dst_size \<le> 2 ^ 31"
  shows "case url_decode (take src_len (drop s m)) of
      Some t \<Rightarrow>
        if length t < dst_size
        then mnet_url_decode_ex m (Some s) src_len (Some d) dst_size =
               Some (int (length t), take d m @ t @ NUL # drop (Suc (d + length t)) m)
        else \<exists>m'. mnet_url_decode_ex m (Some s) src_len (Some d) dst_size = Some (-1, m') \<and>
               same_outside d (d + dst_size) m m'
    | None \<Rightarrow> \<exists>m'. mnet_url_decode_ex m (Some s) src_len (Some d) dst_size = Some (-1, m') \<and>
               same_outside d (d + dst_size) m m'"
proof -
  have int: "length t < dst_size \<Longrightarrow> int_of_size (length t) = int (length t)" for t :: string
    using assms(3) by (intro int_of_size_small) simp
  show ?thesis
    using mnet_url_decode_ex_decodes [OF assms(1,2)] int
    by (auto simp: decodes_to_def split: option.splits)
qed

theorem mnet_url_decode_ex_correct_witness:
  "url_decode ''a%20b+c'' = Some ''a b c'' \<and>
   mnet_url_decode_ex ''a%20b+c........'' (Some 0) 7 (Some 7) 8 =
     Some (5, ''a%20b+ca b c'' @ NUL # ''..'')"
proof -
  have ok: "decode_regions_ok ''a%20b+c........'' 0 7 7 8"
    by (simp add: decode_regions_ok_def)
  have d: "url_decode ''a%20b+c'' = Some ''a b c''"
    by code_simp
  show ?thesis
    using mnet_url_decode_ex_correct [OF ok] d by simp
qed

text \<open>Decoding a terminated string in place, as the query parser does.\<close>

lemma mnet_url_decode_in_place_spec:
  assumes "NUL \<notin> set q" "length q < 2 ^ 31"
  shows "\<exists>n m'. mnet_url_decode (q @ [NUL]) (Some 0) (length q + 1) (Some 0) = Some (n, m') \<and>
    n = length (c_string m') \<and>
    c_string m' = (case url_decode q of Some t \<Rightarrow> t | None \<Rightarrow> [])"
proof -
  let ?m = "q @ [NUL]"
  have len: "strlen_at ?m 0 = Some (length q)"
    using strlen_at_terminated [of q "[]" "[]"] assms(1) by simp
  have ok: "decode_regions_ok ?m 0 (length q) 0 (length q + 1)"
    by (simp add: decode_regions_ok_def)
  have dec: "decodes_to (url_decode q) ?m 0 (length q + 1) 0
      (mnet_url_decode_ex ?m (Some 0) (length q) (Some 0) (length q + 1))"
    using mnet_url_decode_ex_decodes [OF ok] by simp
  show ?thesis
  proof (cases "url_decode q")
    case None
    with dec obtain m' where m': "mnet_url_decode_ex ?m (Some 0) (length q) (Some 0) (length q + 1) = Some (-1, m')"
      and len': "length m' = length q + 1"
      by (auto simp: decodes_to_def same_outside_def)
    then obtain x xs where "m' = x # xs" by (cases m') auto
    with None m' len show ?thesis
      by (simp add: mnet_url_decode_def wr_def c_string_def)
  next
    case (Some t)
    have t: "length t \<le> length q" "NUL \<notin> set t"
      using url_decode_shrinks [OF Some] url_decode_no_NUL [OF Some] by auto
    with dec Some assms(2) have
      "mnet_url_decode_ex ?m (Some 0) (length q) (Some 0) (length q + 1) =
         Some (int (length t), t @ NUL # drop (Suc (length t)) ?m)"
      by (simp add: decodes_to_def)
    with Some t len show ?thesis by (simp add: mnet_url_decode_def)
  qed
qed

lemma url_decode_encode:
  assumes "NUL \<notin> set s" "\<not> plain (CHR ''%'')" "\<not> plain (CHR ''+'')"
  shows "url_decode (url_encode plain s) = Some s"
  using assms
proof (induction s)
  case (Cons c s)
  then have IH: "url_decode (url_encode plain s) = Some s" and c: "c \<noteq> NUL" by auto
  show ?case
  proof (cases "plain c")
    case True
    with Cons.prems IH c show ?thesis by (auto simp: url_encode_def)
  next
    case False
    with IH url_decode_escape [OF c, of "url_encode plain s"] show ?thesis
      by (simp add: url_encode_def)
  qed
qed (simp add: url_encode_def)

lemma set_url_encode:
  "c \<in> set (url_encode plain s) \<Longrightarrow>
   plain c \<and> c \<in> set s \<or> c = CHR ''%'' \<or> (\<exists>d<16. c = digit_char d)"
  using uchar_div16 by (fastforce simp: url_encode_def hex_escape_def split: if_splits)

lemma url_encode_no_NUL: "NUL \<notin> set s \<Longrightarrow> NUL \<notin> set (url_encode plain s)"
  using set_url_encode [of NUL plain s] by (auto simp: digit_char_not_NUL)

lemma length_url_encode: "length (url_encode plain s) \<le> 3 * length s"
  by (induction s) (auto simp: url_encode_def hex_escape_def)

text \<open>
  Percent decoding inverts percent encoding: any text without NUL, written with every byte
  escaped or left as it is (as long as \<open>%\<close> and \<open>+\<close> are escaped), decodes to itself, in place,
  in its own buffer.
\<close>

theorem url_decode_roundtrip:
  assumes "NUL \<notin> set s" "\<not> plain (CHR ''%'')" "\<not> plain (CHR ''+'')" "length s < 2 ^ 29"
  shows "\<exists>m'. mnet_url_decode (url_encode plain s @ [NUL]) (Some 0) (length (url_encode plain s) + 1) (Some 0)
      = Some (length s, m') \<and> c_string m' = s"
proof -
  have "length (url_encode plain s) < 2 ^ 31" using assms(4) length_url_encode [of plain s] by simp
  from mnet_url_decode_in_place_spec [OF url_encode_no_NUL [OF assms(1)] this]
    url_decode_encode [OF assms(1-3)] show ?thesis by auto
qed

theorem url_decode_roundtrip_witness:
  "\<exists>m'. mnet_url_decode (url_encode (\<lambda>c. c = CHR ''a'') ''a&b=+'' @ [NUL]) (Some 0)
      (length (url_encode (\<lambda>c. c = CHR ''a'') ''a&b=+'') + 1) (Some 0) = Some (length ''a&b=+'', m') \<and>
    c_string m' = ''a&b=+''"
  using url_decode_roundtrip [of "''a&b=+''" "\<lambda>c. c = CHR ''a''"] by simp

section \<open>Header validation\<close>

lemma token_char_props: "token_char c \<Longrightarrow> 33 \<le> uchar c \<and> uchar c < 127 \<and> c \<noteq> CHR '':''"
  by (auto simp: token_char_def)

lemma not_token_char: "c \<in> {CR, LF, SP, TAB, CHR '':'', NUL} \<Longrightarrow> \<not> token_char c"
  using token_char_props [of c] by auto

lemma header_name_valid_chars:
  "mnet_header_name_valid (Some n) \<Longrightarrow>
   n \<noteq> [] \<and> set n \<inter> {CR, LF, SP, TAB, CHR '':'', NUL} = {}"
  using not_token_char by (simp only: mnet_header_name_valid_def list_all_iff option.case) blast

lemma value_char_props:
  "c \<in> {CR, LF, NUL} \<Longrightarrow> c = CR \<or> c = LF \<or> uchar c < 32 \<or> uchar c = 127"
  by auto

lemma header_value_valid_chars:
  "mnet_header_value_valid (Some v) \<Longrightarrow> set v \<inter> {CR, LF, NUL} = {}"
  using value_char_props by (simp only: mnet_header_value_valid_def list_all_iff option.case) blast

end
