(* ===== verification/Router.thy ===== *)
theory Router
  imports Mnet_Types Url_Codec
begin

text \<open>
  Route matching, from \<^verbatim>\<open>src/mnet_router.c\<close>. The positions \<open>ppos\<close> and \<open>rpos\<close> of the C code are
  the suffixes of the pattern and of the request path that start there. The array of captured
  values is a list of slots; \<open>None\<close> as the result of an operation is undefined behaviour: a slot
  outside the array, or a slot freed twice.
\<close>

section \<open>Definitions\<close>

definition hex_val :: "char \<Rightarrow> int" where
  "hex_val c =
     (if 48 \<le> uchar c \<and> uchar c \<le> 57 then int (uchar c) - 48
      else if 97 \<le> uchar c \<and> uchar c \<le> 102 then int (uchar c) - 97 + 10
      else if 65 \<le> uchar c \<and> uchar c \<le> 70 then int (uchar c) - 65 + 10
      else -1)"

text \<open>
  The decoding of a captured segment: escapes are decoded, \<open>+\<close> is not, a malformed escape is
  copied as it is, and the local buffer of 4096 bytes bounds the result; \<open>di\<close> is the number of
  bytes written so far.
\<close>

fun path_decode_from :: "nat \<Rightarrow> string \<Rightarrow> string" where
  "path_decode_from di [] = []"
| "path_decode_from di (c # cs) =
     (if \<not> di < 4096 - 1 then []
      else if c = CHR ''%'' then
        (case cs of
           a # b # rest \<Rightarrow>
             if hex_val a \<ge> 0 \<and> hex_val b \<ge> 0
             then char_of (nat (hex_val a * 16 + hex_val b)) # path_decode_from (Suc di) rest
             else c # path_decode_from (Suc di) cs
         | _ \<Rightarrow> c # path_decode_from (Suc di) cs)
      else c # path_decode_from (Suc di) cs)"

definition path_decode :: "string \<Rightarrow> string" where
  "path_decode seg = path_decode_from 0 seg"

definition put_slot :: "slot list \<Rightarrow> nat \<Rightarrow> slot \<Rightarrow> slot list option" where
  "put_slot out n v = (if n < length out then Some (out[n := v]) else None)"

definition free_slot :: "slot list \<Rightarrow> nat \<Rightarrow> slot list option" where
  "free_slot out i =
     (if i < length out then
        (case out ! i of Null \<Rightarrow> Some out | Val v \<Rightarrow> Some (out[i := Freed]) | Freed \<Rightarrow> None)
      else None)"

text \<open>\<open>for (int i = 0; i < count; i++) free(values[i])\<close>, from \<open>i\<close> on.\<close>

function params_free_from :: "slot list \<Rightarrow> nat \<Rightarrow> nat \<Rightarrow> slot list option" where
  "params_free_from out i count =
     (if i < count then free_slot out i \<bind> (\<lambda>out'. params_free_from out' (Suc i) count)
      else Some out)"
  by pat_completeness auto
termination
  by (relation "measure (\<lambda>(out, i, count). count - i)") auto

declare params_free_from.simps [simp del]

definition mnet_match_params_free :: "slot list \<Rightarrow> nat \<Rightarrow> slot list option" where
  "mnet_match_params_free out count = params_free_from out 0 count"

text \<open>Advance past one \<open>/\<close> if there is one.\<close>

definition skip_slash :: "string \<Rightarrow> string" where
  "skip_slash s = (case s of c # cs \<Rightarrow> if c = CHR ''/'' then cs else s | [] \<Rightarrow> [])"

definition seg_of :: "string \<Rightarrow> string" where "seg_of s = takeWhile (\<lambda>c. c \<noteq> CHR ''/'') s"
definition after_seg :: "string \<Rightarrow> string" where "after_seg s = dropWhile (\<lambda>c. c \<noteq> CHR ''/'') s"

type_synonym match_result = "((int \<times> slot list) \<times> alloc) option"

definition match_fail :: "slot list \<Rightarrow> nat \<Rightarrow> alloc \<Rightarrow> match_result" where
  "match_fail out n al = do { out' \<leftarrow> mnet_match_params_free out n; Some ((-1, out'), al) }"

text \<open>
  The capture of one value: nothing is stored beyond \<open>max_values\<close>; a failed allocation stores NULL
  and gives up after freeing what was captured (\<open>Inl\<close>).
\<close>

definition capture ::
  "bytes \<Rightarrow> nat \<Rightarrow> nat \<Rightarrow> slot list \<Rightarrow> alloc \<Rightarrow> (((int \<times> slot list) + slot list) \<times> alloc) option" where
  "capture v n max_values out al =
     (if n < max_values then
        (case malloc al of
           (True, al') \<Rightarrow> do { out' \<leftarrow> put_slot out n (Val v); Some (Inr out', al') }
         | (False, al') \<Rightarrow>
             do { out' \<leftarrow> put_slot out n Null;
                  out'' \<leftarrow> mnet_match_params_free out' (n + 1);
                  Some (Inl (-1, out''), al') })
      else Some (Inr out, al))"

function match_loop :: "string \<Rightarrow> string \<Rightarrow> nat \<Rightarrow> nat \<Rightarrow> slot list \<Rightarrow> alloc \<Rightarrow> match_result" where
  "match_loop pat req n max_values out al =
     (case (pat, req) of
        (pc # ps, rc # rs) \<Rightarrow>
          if pc = CHR ''*'' then
            (case capture req n max_values out al of
               None \<Rightarrow> None
             | Some (Inl r, al') \<Rightarrow> Some (r, al')
             | Some (Inr out', al') \<Rightarrow> match_loop ps [] (n + 1) max_values out' al')
          else if pc = CHR '':'' then
            (case capture (path_decode (seg_of req)) n max_values out al of
               None \<Rightarrow> None
             | Some (Inl r, al') \<Rightarrow> Some (r, al')
             | Some (Inr out', al') \<Rightarrow>
                 match_loop (skip_slash (after_seg ps)) (skip_slash (after_seg req))
                   (n + 1) max_values out' al')
          else if pc \<noteq> rc then match_fail out n al
          else match_loop ps rs n max_values out al
      | _ \<Rightarrow> if pat \<noteq> [] \<or> req \<noteq> [] then match_fail out n al else Some ((int n, out), al))"
  by pat_completeness auto

lemma length_skip_slash: "length (skip_slash s) \<le> length s"
  by (auto simp: skip_slash_def split: list.splits)

lemma length_after_seg: "length (after_seg s) \<le> length s"
  by (simp add: after_seg_def length_dropWhile_le)

lemma length_skip_after_seg: "length (skip_slash (after_seg s)) \<le> length s"
  using length_skip_slash length_after_seg le_trans by blast

termination match_loop
  by (relation "measure (\<lambda>(pat, req, n, max_values, out, al). length pat)")
    (auto simp: less_Suc_eq_le length_skip_after_seg)

declare match_loop.simps [simp del]

definition mnet_route_match ::
  "'w mnet_route \<Rightarrow> string option \<Rightarrow> slot list \<Rightarrow> nat \<Rightarrow> alloc \<Rightarrow> match_result" where
  "mnet_route_match route request_path out max_values al =
     (case (rt_path route, request_path) of
        (Some pat, Some req) \<Rightarrow>
          (case (pat, req) of
             (pc # _, rc # _) \<Rightarrow>
               if pc \<noteq> CHR ''/'' \<or> rc \<noteq> CHR ''/'' then Some ((-1, out), al)
               else match_loop pat req 0 max_values out al
           | _ \<Rightarrow> Some ((-1, out), al))
      | _ \<Rightarrow> Some ((-1, out), al))"

section \<open>Specification\<close>

text \<open>The values a pattern captures from a path, with no memory: the mathematical content of the loop.\<close>

function route_values :: "string \<Rightarrow> string \<Rightarrow> bytes list option" where
  "route_values pat req =
     (case (pat, req) of
        (pc # ps, rc # rs) \<Rightarrow>
          if pc = CHR ''*'' then map_option ((#) req) (route_values ps [])
          else if pc = CHR '':'' then
            map_option ((#) (path_decode (seg_of req)))
              (route_values (skip_slash (after_seg ps)) (skip_slash (after_seg req)))
          else if pc \<noteq> rc then None
          else route_values ps rs
      | _ \<Rightarrow> if pat \<noteq> [] \<or> req \<noteq> [] then None else Some [])"
  by pat_completeness auto
termination
  by (relation "measure (\<lambda>(pat, req). length pat)") (auto simp: less_Suc_eq_le length_skip_after_seg)

declare route_values.simps [simp del]

text \<open>The number of captures a pattern asks for, as the matcher skips names.\<close>

function pattern_params :: "string \<Rightarrow> nat" where
  "pattern_params pat =
     (case pat of
        [] \<Rightarrow> 0
      | pc # ps \<Rightarrow>
          if pc = CHR ''*'' then Suc (pattern_params ps)
          else if pc = CHR '':'' then Suc (pattern_params (skip_slash (after_seg ps)))
          else pattern_params ps)"
  by pat_completeness auto
termination
  by (relation "measure length") (auto simp: less_Suc_eq_le length_skip_after_seg)

declare pattern_params.simps [simp del]

section \<open>Freeing the captured values\<close>

definition freed :: "slot \<Rightarrow> slot" where
  "freed v = (case v of Null \<Rightarrow> Null | _ \<Rightarrow> Freed)"

lemma hex_val_eq: "hex_val = hex_value"
  by (rule ext) (simp add: hex_val_def hex_value_def)

lemma params_free_from_spec:
  assumes "i \<le> count" "count \<le> length out" "\<And>k. i \<le> k \<Longrightarrow> k < count \<Longrightarrow> out ! k \<noteq> Freed"
  shows "params_free_from out i count =
    Some (take i out @ map freed (drop i (take count out)) @ drop count out)"
  using assms
proof (induction out i count rule: params_free_from.induct)
  case (1 out i count)
  show ?case
  proof (cases "i < count")
    case False
    with 1 show ?thesis by (simp add: params_free_from.simps [of out count count])
  next
    case True
    let ?o = "out[i := freed (out ! i)]"
    have f: "free_slot out i = Some ?o"
      using True 1(3) 1(4) [of i] list_update_id [of out i]
      by (cases "out ! i") (simp_all add: free_slot_def freed_def)
    have "params_free_from ?o (Suc i) count =
        Some (take (Suc i) ?o @ map freed (drop (Suc i) (take count ?o)) @ drop count ?o)"
      using True 1(3,4) by (intro 1(1) [OF True f]) auto
    moreover have "take (Suc i) ?o = take i out @ [freed (out ! i)]" "drop count ?o = drop count out"
      "drop (Suc i) (take count ?o) = drop (Suc i) (take count out)"
      using True 1(3) by (simp_all add: take_Suc_conv_app_nth drop_take)
    moreover have "drop i (take count out) = out ! i # drop (Suc i) (take count out)"
      using True 1(3) Cons_nth_drop_Suc [of i "take count out"] by simp
    ultimately show ?thesis using True f by (simp add: params_free_from.simps [of out i count])
  qed
qed

lemma params_free_spec:
  assumes "count \<le> length out" "\<And>k. k < count \<Longrightarrow> out ! k \<noteq> Freed"
  shows "mnet_match_params_free out count = Some (map freed (take count out) @ drop count out)"
  using params_free_from_spec [of 0 count out] assms by (simp add: mnet_match_params_free_def)

section \<open>The matcher against its specification\<close>

text \<open>
  The outcome of matching from the \<open>n\<close>-th capture on: either no match, or a failed allocation,
  with every value captured so far freed and the rest of the array as it was; or a match, whose
  values fill the next slots in order.
\<close>

definition match_outcome :: "bytes list option \<Rightarrow> bool \<Rightarrow> nat \<Rightarrow> slot list \<Rightarrow> match_result \<Rightarrow> bool" where
  "match_outcome spec oom n out res \<longleftrightarrow>
     (\<exists>r out' al'. res = Some ((r, out'), al') \<and> length out' = length out \<and>
        ((r = -1 \<and> (spec = None \<or> oom) \<and>
            (\<forall>k<length out. out' ! k \<in> {Freed, Null} \<or> n \<le> k \<and> out' ! k = out ! k)) \<or>
         (\<exists>vs. spec = Some vs \<and> r = int (n + length vs) \<and>
            out' = take n out @ map Val vs @ drop (n + length vs) out)))"

definition captured :: "slot list \<Rightarrow> nat \<Rightarrow> bool" where
  "captured out n \<longleftrightarrow> n \<le> length out \<and> (\<forall>k<n. out ! k \<noteq> Freed)"

lemma captured_put: "captured out n \<Longrightarrow> n < length out \<Longrightarrow> v \<noteq> Freed \<Longrightarrow> captured (out[n := v]) (Suc n)"
  by (auto simp: captured_def nth_list_update less_Suc_eq)

lemma freed_no_Val: "freed v \<in> {Freed, Null}"
  by (cases v) (auto simp: freed_def)

lemma nth_free_prefix:
  "n \<le> length out \<Longrightarrow> k < length out \<Longrightarrow>
   (map freed (take n out) @ drop n out) ! k = (if k < n then freed (out ! k) else out ! k)"
  by (auto simp: nth_append)

lemma match_fail_outcome:
  assumes "captured out n"
  shows "match_outcome None oom n out (match_fail out n al)"
proof -
  have "mnet_match_params_free out n = Some (map freed (take n out) @ drop n out)"
    using assms by (intro params_free_spec) (auto simp: captured_def)
  then show ?thesis
    using assms freed_no_Val nth_free_prefix [of n out]
    by (auto simp: match_fail_def match_outcome_def captured_def)
qed

lemma match_outcome_step:
  assumes "match_outcome spec oom (Suc n) (out[n := Val v]) res" "n < length out"
  shows "match_outcome (map_option ((#) v) spec) oom n out res"
proof -
  obtain r out' al' where res: "res = Some ((r, out'), al')" and len: "length out' = length out"
    and R: "(r = -1 \<and> (spec = None \<or> oom) \<and>
        (\<forall>k<length out. out' ! k \<in> {Freed, Null} \<or> Suc n \<le> k \<and> out' ! k = out[n := Val v] ! k)) \<or>
      (\<exists>vs. spec = Some vs \<and> r = int (Suc n + length vs) \<and>
        out' = take (Suc n) (out[n := Val v]) @ map Val vs @ drop (Suc n + length vs) (out[n := Val v]))"
    using assms(1) by (auto simp: match_outcome_def)
  show ?thesis
    using R
  proof (elim disjE)
    assume "r = -1 \<and> (spec = None \<or> oom) \<and>
        (\<forall>k<length out. out' ! k \<in> {Freed, Null} \<or> Suc n \<le> k \<and> out' ! k = out[n := Val v] ! k)"
    then show ?thesis
      using res len unfolding match_outcome_def by (fastforce simp: nth_list_update)
  next
    assume "\<exists>vs. spec = Some vs \<and> r = int (Suc n + length vs) \<and>
        out' = take (Suc n) (out[n := Val v]) @ map Val vs @ drop (Suc n + length vs) (out[n := Val v])"
    then show ?thesis
      using res len assms(2) by (auto simp: match_outcome_def take_Suc_conv_app_nth)
  qed
qed

lemma match_outcome_oom_mono:
  "match_outcome spec oom n out res \<Longrightarrow> (oom \<Longrightarrow> oom') \<Longrightarrow> match_outcome spec oom' n out res"
  by (auto simp: match_outcome_def)

text \<open>A capture that has room either stores its value or fails for want of memory.\<close>

lemma capture_spec:
  assumes "captured out n" "n < max_values" "max_values \<le> length out"
  obtains
    (stored) al' where "capture v n max_values out al = Some (Inr (out[n := Val v]), al')"
      "False \<in> set al' \<Longrightarrow> False \<in> set al"
  | (oom) out' al' where "capture v n max_values out al = Some (Inl (-1, out'), al')"
      "match_outcome None True n out (Some ((-1, out'), al'))" "False \<in> set al"
proof (cases "malloc al")
  case (Pair ok al')
  show thesis
  proof (cases ok)
    case True
    with Pair assms stored show thesis
      by (cases al) (auto simp: capture_def put_slot_def)
  next
    case False
    let ?o = "out[n := Null]"
    have cap: "captured ?o (Suc n)" using assms by (intro captured_put) auto
    then have fr: "mnet_match_params_free ?o (n + 1) = Some (map freed (take (n + 1) ?o) @ drop (n + 1) ?o)"
      using assms by (intro params_free_spec) (auto simp: captured_def)
    have "match_outcome None True n out (Some ((-1, map freed (take (n + 1) ?o) @ drop (n + 1) ?o), al'))"
      using assms nth_free_prefix [of "n + 1" ?o] freed_no_Val
      by (auto simp: match_outcome_def nth_list_update)
    moreover have "False \<in> set al" using Pair False by (cases al) auto
    ultimately show thesis
      using oom Pair False assms fr by (auto simp: capture_def put_slot_def)
  qed
qed

lemma pattern_params_Cons:
  "pattern_params (c # ps) =
     (if c = CHR ''*'' then Suc (pattern_params ps)
      else if c = CHR '':'' then Suc (pattern_params (skip_slash (after_seg ps)))
      else pattern_params ps)"
  by (simp add: pattern_params.simps [of "c # ps"])

text \<open>The two capturing steps: what the rest of the match promises carries over to the whole.\<close>

lemma capture_step:
  assumes "captured out n" "n < max_values" "max_values \<le> length out"
    and "\<And>al'. (False \<in> set al' \<Longrightarrow> False \<in> set al) \<Longrightarrow>
      capture v n max_values out al = Some (Inr (out[n := Val v]), al') \<Longrightarrow>
      match_outcome spec (False \<in> set al') (Suc n) (out[n := Val v]) (k (out[n := Val v]) al')"
  shows "match_outcome (map_option ((#) v) spec) (False \<in> set al) n out
    (case capture v n max_values out al of
       None \<Rightarrow> None
     | Some (Inl r, al') \<Rightarrow> Some (r, al')
     | Some (Inr out', al') \<Rightarrow> k out' al')"
  using assms(1-3)
proof (cases rule: capture_spec [where v = v and al = al])
  case (stored al')
  from match_outcome_step [OF assms(4) [OF stored(2,1)]] assms(2,3) stored show ?thesis
    by (auto intro: match_outcome_oom_mono)
next
  case (oom out' al')
  then show ?thesis by (auto simp: match_outcome_def)
qed

lemma match_loop_outcome:
  assumes "captured out n" "n + pattern_params pat \<le> max_values" "max_values \<le> length out"
  shows "match_outcome (route_values pat req) (False \<in> set al) n out (match_loop pat req n max_values out al)"
  using assms
proof (induction pat req n max_values out al rule: match_loop.induct)
  case (1 pat req n max_values out al)
  note L = match_loop.simps [of pat req n max_values out al]
    and S = route_values.simps [of pat req]
  show ?case
  proof (cases "\<exists>pc ps rc rs. pat = pc # ps \<and> req = rc # rs")
    case False
    then have L': "match_loop pat req n max_values out al =
        (if pat \<noteq> [] \<or> req \<noteq> [] then match_fail out n al else Some ((int n, out), al))"
      and S': "route_values pat req = (if pat \<noteq> [] \<or> req \<noteq> [] then None else Some [])"
      unfolding L S by (auto split: list.splits)
    show ?thesis
      using match_fail_outcome [OF 1(4)] by (auto simp: L' S') (simp add: match_outcome_def)
  next
    case True
    then obtain pc ps rc rs where pr: "pat = pc # ps" "req = rc # rs" by blast
    consider (star) "pc = CHR ''*''" | (colon) "pc = CHR '':''" "pc \<noteq> CHR ''*''"
      | (lit) "pc \<noteq> CHR ''*''" "pc \<noteq> CHR '':''" by blast
    then show ?thesis
    proof cases
      case lit
      show ?thesis
      proof (cases "pc = rc")
        case True
        with lit 1(4-6) pr show ?thesis
          using 1(3) [OF refl pr]
          by (simp add: match_loop.simps [of "rc # ps"] route_values.simps [of "rc # ps"] pattern_params_Cons)
      next
        case False
        with lit pr match_fail_outcome [OF 1(4)] show ?thesis
          by (simp add: match_loop.simps [of "pc # ps"] route_values.simps [of "pc # ps"])
      qed
    next
      case star
      then have room: "n < max_values" and more: "Suc n + pattern_params ps \<le> max_values"
        using 1(5) pr by (simp_all add: pattern_params_Cons)
      have "match_outcome (map_option ((#) req) (route_values ps [])) (False \<in> set al) n out
        (case capture req n max_values out al of
           None \<Rightarrow> None
         | Some (Inl r, al') \<Rightarrow> Some (r, al')
         | Some (Inr out', al') \<Rightarrow> match_loop ps [] (n + 1) max_values out' al')"
        using 1(4,6) room more captured_put [OF 1(4)]
          1(1) [OF refl pr star _ refl refl] by (intro capture_step) auto
      with star pr show ?thesis
        by (simp add: match_loop.simps [of _ "rc # rs"] route_values.simps [of _ "rc # rs"])
    next
      case colon
      let ?v = "path_decode (seg_of req)"
        and ?ps = "skip_slash (after_seg ps)" and ?rs = "skip_slash (after_seg req)"
      have room: "n < max_values" and more: "Suc n + pattern_params ?ps \<le> max_values"
        using 1(5) pr colon by (simp_all add: pattern_params_Cons)
      have "match_outcome (map_option ((#) ?v) (route_values ?ps ?rs)) (False \<in> set al) n out
        (case capture ?v n max_values out al of
           None \<Rightarrow> None
         | Some (Inl r, al') \<Rightarrow> Some (r, al')
         | Some (Inr out', al') \<Rightarrow> match_loop ?ps ?rs (n + 1) max_values out' al')"
        using 1(4,6) room more captured_put [OF 1(4)]
          1(2) [OF refl pr colon(2,1) _ refl refl] by (intro capture_step) auto
      from this [unfolded pr] colon show ?thesis
        unfolding pr by (simp add: match_loop.simps [of _ "rc # rs"] route_values.simps [of _ "rc # rs"])
    qed
  qed
qed

lemma capture_alloc: "capture v n mx out al = Some (x, al') \<Longrightarrow> set al' \<subseteq> set al"
  by (cases al) (auto simp: capture_def bind_eq_Some_conv split: if_splits bool.splits)

lemma match_loop_alloc: "match_loop pat req n mx out al = Some (x, al') \<Longrightarrow> set al' \<subseteq> set al"
proof (induction pat req n mx out al rule: match_loop.induct)
  case (1 pat req n mx out al)
  have fail: "match_fail out n al = Some (x, al') \<Longrightarrow> al' = al"
    by (auto simp: match_fail_def bind_eq_Some_conv)
  show ?case
  proof (cases "\<exists>pc ps rc rs. pat = pc # ps \<and> req = rc # rs")
    case False
    with 1(4) fail show ?thesis by (auto simp: match_loop.simps [of pat] split: list.splits if_splits)
  next
    case True
    then obtain pc ps rc rs where pr: "pat = pc # ps" "req = rc # rs" by blast
    note L = 1(4) [unfolded pr match_loop.simps [of "pc # ps"]]
    let ?v = "if pc = CHR ''*'' then req else path_decode (seg_of req)"
    show ?thesis
    proof (cases "pc = CHR ''*'' \<or> pc = CHR '':''")
      case False
      then show ?thesis
        using L fail 1(3) [OF refl pr] pr by (auto split: if_splits)
    next
      case True
      then obtain y al1 where c: "capture ?v n mx out al = Some (y, al1)"
        using L pr by (auto split: if_splits option.splits)
      note sub = capture_alloc [OF c]
      show ?thesis
      proof (cases y)
        case (Inl r)
        with L c pr True sub show ?thesis by (auto split: if_splits)
      next
        case (Inr out')
        show ?thesis
        proof (cases "pc = CHR ''*''")
          case star: True
          have "match_loop ps [] (n + 1) mx out' al1 = Some (x, al')"
            using L c pr star Inr by simp
          with 1(1) [OF refl pr star _ refl refl, of out' al1] c star Inr sub show ?thesis by auto
        next
          case False
          have "match_loop (skip_slash (after_seg ps)) (skip_slash (after_seg req)) (n + 1) mx out' al1 = Some (x, al')"
            using L c pr True False Inr by simp
          with 1(2) [OF refl pr False _ _ refl refl, of out' al1] c False True Inr sub show ?thesis by auto
        qed
      qed
    qed
  qed
qed

text \<open>What a route captures from a path, if it matches.\<close>

definition route_result :: "string \<Rightarrow> 'w mnet_route \<Rightarrow> bytes list option" where
  "route_result path r =
     (case (rt_path r, path) of
        (Some (pc # pat), rc # req) \<Rightarrow>
          if pc = CHR ''/'' \<and> rc = CHR ''/'' then route_values pat req else None
      | _ \<Rightarrow> None)"

definition route_fits :: "nat \<Rightarrow> 'w mnet_route \<Rightarrow> bool" where
  "route_fits n r \<longleftrightarrow> (\<forall>p. rt_path r = Some p \<longrightarrow> pattern_params p \<le> n)"

lemma mnet_route_match_outcome:
  assumes "route_fits max_values route" "max_values \<le> length out"
  shows "match_outcome (route_result path route) (False \<in> set al) 0 out
    (mnet_route_match route (Some path) out max_values al)"
proof -
  have none: "match_outcome None oom 0 out (Some ((-1, out), al))" for oom
    by (auto simp: match_outcome_def)
  show ?thesis
  proof (cases "\<exists>pat req. rt_path route = Some (CHR ''/'' # pat) \<and> path = CHR ''/'' # req")
    case True
    then obtain pat req where pr: "rt_path route = Some (CHR ''/'' # pat)" "path = CHR ''/'' # req" by blast
    then have "pattern_params pat \<le> max_values"
      using assms(1) by (auto simp: route_fits_def pattern_params_Cons)
    then have "match_outcome (route_values pat req) (False \<in> set al) 0 out (match_loop pat req 0 max_values out al)"
      using assms(2) by (intro match_loop_outcome) (auto simp: captured_def)
    then show ?thesis
      by (simp add: mnet_route_match_def route_result_def pr match_loop.simps [of "CHR ''/'' # _"])
  next
    case False
    then have "route_result path route = None" "mnet_route_match route (Some path) out max_values al = Some ((-1, out), al)"
      by (auto simp: route_result_def mnet_route_match_def split: option.splits list.splits)
    with none show ?thesis by simp
  qed
qed

lemma mnet_route_match_alloc:
  "mnet_route_match route (Some path) out mx al = Some (x, al') \<Longrightarrow> set al' \<subseteq> set al"
  by (auto simp: mnet_route_match_def split: option.splits list.splits if_splits dest!: match_loop_alloc)

text \<open>
  C23. Matching a route whose pattern asks for at most \<open>max_values\<close> captures, all of them slots of
  the array, never touches memory outside it and never frees a value twice. It returns -1 exactly
  when the pattern does not fit the path or an allocation fails, and then it leaves no live value
  of its own behind; otherwise it returns the number of captured values, which fill the first
  slots in the order of the pattern.
\<close>

theorem mnet_route_match_correct:
  assumes "rt_path route = Some (CHR ''/'' # pat)" "pattern_params pat \<le> max_values"
    "max_values \<le> length out"
  shows "\<exists>r out' al'. mnet_route_match route (Some (CHR ''/'' # req)) out max_values al = Some ((r, out'), al') \<and>
    length out' = length out \<and>
    (r = -1 \<and> (route_values pat req = None \<or> False \<in> set al) \<and>
       (\<forall>k<length out. out' ! k \<in> {Freed, Null} \<or> out' ! k = out ! k) \<or>
     (\<exists>vs. route_values pat req = Some vs \<and> r = int (length vs) \<and>
       out' = map Val vs @ drop (length vs) out))"
proof -
  have "match_outcome (route_values pat req) (False \<in> set al) 0 out (match_loop pat req 0 max_values out al)"
    using assms by (intro match_loop_outcome) (auto simp: captured_def)
  moreover have "mnet_route_match route (Some (CHR ''/'' # req)) out max_values al =
      match_loop pat req 0 max_values out al"
    by (simp add: mnet_route_match_def assms(1) match_loop.simps [of "CHR ''/'' # _"])
  ultimately show ?thesis by (auto simp: match_outcome_def)
qed

definition sample_route :: "string \<Rightarrow> unit mnet_route" where
  "sample_route p =
     \<lparr>rt_method = MNET_HTTP_GET, rt_path = Some p, rt_handler = (\<lambda>rq h. (zero_response, h)),
      rt_param_names = None, rt_user_data = None, rt_path_allocated = True\<rparr>"

theorem mnet_route_match_correct_witness:
  "\<exists>r out' al'. mnet_route_match (sample_route ''/users/:id'') (Some ''/users/42'') (replicate 16 Null) 16 [] =
      Some ((r, out'), al') \<and> length out' = 16 \<and> r = 1 \<and> out' ! 0 = Val ''42''"
proof -
  have "rt_path (sample_route ''/users/:id'') = Some (CHR ''/'' # ''users/:id'')"
    by (simp add: sample_route_def)
  moreover have "pattern_params ''users/:id'' \<le> 16" by code_simp
  moreover have "route_values ''users/:id'' ''users/42'' = Some [''42'']" by code_simp
  ultimately show ?thesis
    using mnet_route_match_correct [of "sample_route ''/users/:id''" "''users/:id''" 16
        "replicate 16 Null" "''users/42''" "[]"]
    by auto
qed

section \<open>Matching by segments\<close>

text \<open>
  What a route means to its author: a pattern is a list of segments, each a literal, a named
  parameter or a final wildcard, and a path is a list of non-empty segments.
\<close>

datatype seg_pat = Lit string | Param string | Wild

fun join_slash :: "string list \<Rightarrow> string" where
  "join_slash [] = []"
| "join_slash [p] = p"
| "join_slash (p # q # ps) = p @ CHR ''/'' # join_slash (q # ps)"

fun seg_text :: "seg_pat \<Rightarrow> string" where
  "seg_text (Lit l) = l"
| "seg_text (Param nm) = CHR '':'' # nm"
| "seg_text Wild = ''*''"

fun seg_ok :: "seg_pat \<Rightarrow> bool" where
  "seg_ok (Lit l) = (l \<noteq> [] \<and> CHR ''/'' \<notin> set l \<and> CHR '':'' \<notin> set l \<and> CHR ''*'' \<notin> set l)"
| "seg_ok (Param nm) = (CHR ''/'' \<notin> set nm)"
| "seg_ok Wild = True"

definition part_ok :: "string \<Rightarrow> bool" where
  "part_ok p \<longleftrightarrow> p \<noteq> [] \<and> CHR ''/'' \<notin> set p"

fun seg_match :: "seg_pat list \<Rightarrow> string list \<Rightarrow> bytes list option" where
  "seg_match [] [] = Some []"
| "seg_match (Lit l # ss) (p # ps) = (if l = p then seg_match ss ps else None)"
| "seg_match (Param nm # ss) (p # ps) = map_option ((#) (path_decode p)) (seg_match ss ps)"
| "seg_match [Wild] (p # ps) = Some [join_slash (p # ps)]"
| "seg_match _ _ = None"

definition tail_of :: "string list \<Rightarrow> string" where
  "tail_of ps = (case ps of [] \<Rightarrow> [] | _ \<Rightarrow> CHR ''/'' # join_slash ps)"

lemma join_slash_Cons: "join_slash (p # ps) = p @ tail_of ps"
  by (cases ps) (auto simp: tail_of_def)

lemma join_slash_eq_Nil: "\<forall>p\<in>set ps. p \<noteq> [] \<Longrightarrow> join_slash ps = [] \<longleftrightarrow> ps = []"
  by (cases ps) (auto simp: join_slash_Cons)

lemma route_values_Nil [simp]:
  "route_values [] [] = Some []" "route_values [] (c # cs) = None" "route_values (c # cs) [] = None"
  by (simp_all add: route_values.simps)

lemma route_values_lit:
  "pc \<noteq> CHR ''*'' \<Longrightarrow> pc \<noteq> CHR '':'' \<Longrightarrow>
   route_values (pc # ps) (rc # rs) = (if pc = rc then route_values ps rs else None)"
  by (simp add: route_values.simps [of "pc # ps"])

lemma route_values_star:
  "r \<noteq> [] \<Longrightarrow> route_values (CHR ''*'' # ps) r = map_option ((#) r) (route_values ps [])"
  by (cases r) (simp_all add: route_values.simps [of "CHR ''*'' # ps"])

lemma tail_of_Nil [simp]: "tail_of [] = []"
  by (simp add: tail_of_def)

lemma segment_end:
  assumes "CHR ''/'' \<notin> set x"
  shows "seg_of (x @ tail_of y) = x" and "skip_slash (after_seg (x @ tail_of y)) = join_slash y"
proof -
  have ne: "\<And>c. c \<in> set x \<Longrightarrow> c \<noteq> CHR ''/''" using assms by auto
  show "seg_of (x @ tail_of y) = x"
    using ne by (cases y) (simp_all add: seg_of_def tail_of_def takeWhile_all takeWhile_stop)
  show "skip_slash (after_seg (x @ tail_of y)) = join_slash y"
  proof (cases y)
    case Nil
    moreover have "after_seg x = []" using ne by (simp add: after_seg_def)
    ultimately show ?thesis by (simp add: skip_slash_def)
  next
    case (Cons a ys)
    with ne show ?thesis by (simp add: after_seg_def skip_slash_def tail_of_def dropWhile_stop)
  qed
qed

lemma route_values_param:
  assumes "part_ok p" "CHR ''/'' \<notin> set nm"
  shows "route_values (CHR '':'' # nm @ tail_of ss) (p @ tail_of ps) =
    map_option ((#) (path_decode p)) (route_values (join_slash ss) (join_slash ps))"
proof -
  obtain c cs where p: "p = c # cs" using assms by (cases p) (auto simp: part_ok_def)
  with segment_end [of p ps] segment_end [of nm ss] assms show ?thesis
    by (simp add: route_values.simps [of "CHR '':'' # _"] part_ok_def)
qed

lemma tail_of_cases: "tail_of ps = [] \<and> ps = [] \<or> (\<exists>q qs. ps = q # qs \<and> tail_of ps = CHR ''/'' # join_slash ps)"
  by (cases ps) (auto simp: tail_of_def)

lemma route_values_literal:
  assumes "CHR ''/'' \<notin> set l" "CHR '':'' \<notin> set l" "CHR ''*'' \<notin> set l" "CHR ''/'' \<notin> set p"
  shows "route_values (l @ tail_of ss) (p @ tail_of ps) =
    (if l = p then route_values (tail_of ss) (tail_of ps) else None)"
  using assms
proof (induction l arbitrary: p)
  case Nil
  then show ?case
    using tail_of_cases [of ss] by (cases p) (auto simp: route_values_lit)
next
  case (Cons c l)
  then show ?case
    using tail_of_cases [of ps] by (cases p) (auto simp: route_values_lit)
qed

lemma route_values_tail:
  "\<forall>p\<in>set ss. p \<noteq> [] \<Longrightarrow> \<forall>p\<in>set ps. p \<noteq> [] \<Longrightarrow>
   route_values (tail_of ss) (tail_of ps) = route_values (join_slash ss) (join_slash ps)"
  using join_slash_eq_Nil [of ss] join_slash_eq_Nil [of ps]
  by (cases ss; cases ps) (auto simp: tail_of_def route_values_lit neq_Nil_conv)

lemma seg_text_nonempty: "seg_ok s \<Longrightarrow> seg_text s \<noteq> []"
  by (cases s) auto

lemma route_values_no_path: "pat \<noteq> [] \<Longrightarrow> route_values pat [] = None"
  by (cases pat) simp_all

lemmas seg_match_induct =
  seg_match.induct [case_names nothing lit param wild param_end wild_more wild_end no_path no_pattern wild_inside]

lemma route_values_segments:
  assumes "\<forall>s\<in>set segs. seg_ok s" "\<forall>p\<in>set parts. part_ok p"
  shows "route_values (join_slash (map seg_text segs)) (join_slash parts) = seg_match segs parts"
  using assms
proof (induction segs parts rule: seg_match_induct)
  case nothing
  then show ?case by simp
next
  case (lit l ss p ps)
  then have "\<forall>x\<in>set (map seg_text ss). x \<noteq> []" "\<forall>x\<in>set ps. x \<noteq> []"
    using seg_text_nonempty by (auto simp: part_ok_def)
  with lit show ?case
    by (simp add: join_slash_Cons route_values_literal route_values_tail part_ok_def)
next
  case (param nm ss p ps)
  then show ?case
    by (simp add: join_slash_Cons route_values_param)
next
  case (wild p ps)
  then show ?case
    by (auto simp: join_slash_Cons part_ok_def route_values_star)
next
  case (no_path v va)
  then show ?case
    by (cases v) (auto simp: join_slash_Cons neq_Nil_conv)
next
  case (wild_more v va parts)
  then show ?case
    by (cases "join_slash parts = []")
      (auto simp: join_slash_Cons part_ok_def tail_of_def route_values_star)
qed (auto simp: join_slash_Cons part_ok_def tail_of_def neq_Nil_conv route_values_star
    route_values_no_path seg_text_nonempty)



section \<open>More captures than slots\<close>

text \<open>
  The bound on the number of captures in the theorems above is needed: \<open>n\<close> counts every capture, also
  those for which there is no slot, and it is the count that the caller frees. A pattern with
  seventeen parameters reports seventeen values in an array of sixteen, and freeing them reads
  past the array.
\<close>

definition many_params :: "nat \<Rightarrow> string" where
  "many_params n = concat (replicate n ''/:p'')"

theorem mnet_route_match_too_many:
  "case mnet_route_match (sample_route (many_params 17)) (Some (concat (replicate 17 ''/v''))) (replicate 16 Null) 16 []
   of Some ((n, out), al) \<Rightarrow> n = 17 \<and> length out = 16 \<and> mnet_match_params_free out (nat n) = None
    | None \<Rightarrow> False"
  by code_simp

end
