(* ===== verification/Response.thy ===== *)
theory Response
  imports Mnet_Types
begin

text \<open>
  The response builders and \<open>mnet_response_free\<close> of \<^verbatim>\<open>src/mnet_response.c\<close>. Each builder takes
  and returns the allocation script; \<open>None\<close> for a text argument is NULL.
\<close>

definition text_response :: "string \<Rightarrow> string option \<Rightarrow> alloc \<Rightarrow> mnet_response \<times> alloc" where
  "text_response ct text al =
     (case text of
        None \<Rightarrow> (zero_response, al)
      | Some t \<Rightarrow>
          (case malloc al of
             (False, al') \<Rightarrow> (zero_response, al')
           | (True, al') \<Rightarrow>
               (\<lparr>r_status = 200, r_content_type = Some ct, r_body = Some t,
                 r_body_length = length t, r_chunked = False\<rparr>, al')))"

definition mnet_text :: "string option \<Rightarrow> alloc \<Rightarrow> mnet_response \<times> alloc" where
  "mnet_text = text_response ''text/plain; charset=utf-8''"

definition mnet_html :: "string option \<Rightarrow> alloc \<Rightarrow> mnet_response \<times> alloc" where
  "mnet_html = text_response ''text/html; charset=utf-8''"

definition mnet_json :: "string option \<Rightarrow> alloc \<Rightarrow> mnet_response \<times> alloc" where
  "mnet_json = text_response ''application/json''"

text \<open>\<open>mnet_error\<close> and \<open>mnet_status\<close> keep status and type when the copy cannot be allocated.\<close>

definition status_response :: "int \<Rightarrow> string option \<Rightarrow> alloc \<Rightarrow> mnet_response \<times> alloc" where
  "status_response status msg al =
     (let t = (case msg of None \<Rightarrow> [] | Some t \<Rightarrow> t);
          r = zero_response\<lparr>r_status := status, r_content_type := Some ''text/plain; charset=utf-8''\<rparr>
      in case malloc al of
           (False, al') \<Rightarrow> (r, al')
         | (True, al') \<Rightarrow> (r\<lparr>r_body := Some t, r_body_length := length t\<rparr>, al'))"

definition mnet_error :: "int \<Rightarrow> string option \<Rightarrow> alloc \<Rightarrow> mnet_response \<times> alloc" where
  "mnet_error = status_response"

definition mnet_status :: "int \<Rightarrow> string option \<Rightarrow> alloc \<Rightarrow> mnet_response \<times> alloc" where
  "mnet_status = status_response"

definition mnet_chunked :: "int \<Rightarrow> string option \<Rightarrow> bytes option \<Rightarrow> nat \<Rightarrow> mnet_response" where
  "mnet_chunked status content_type body body_length =
     \<lparr>r_status = status,
      r_content_type = Some (case content_type of Some ct \<Rightarrow> ct | None \<Rightarrow> ''application/octet-stream''),
      r_body = body, r_body_length = body_length, r_chunked = True\<rparr>"

text \<open>The second result is the block passed to \<open>free\<close>, if any.\<close>

definition mnet_response_free :: "mnet_response option \<Rightarrow> mnet_response option \<times> bytes option" where
  "mnet_response_free response =
     (case response of
        None \<Rightarrow> (None, None)
      | Some r \<Rightarrow>
          if r_body r \<noteq> None \<and> \<not> r_chunked r
          then (Some (r\<lparr>r_body := None, r_body_length := 0\<rparr>), r_body r)
          else (Some (r\<lparr>r_body_length := 0\<rparr>), None))"

lemmas builder_defs [api_defs] =
  mnet_text_def mnet_html_def mnet_json_def mnet_error_def mnet_status_def mnet_chunked_def
  text_response_def status_response_def zero_response_def

text \<open>A response whose length field describes the body it carries.\<close>

definition wf_response :: "mnet_response \<Rightarrow> bool" where
  "wf_response r \<longleftrightarrow>
     (case r_body r of None \<Rightarrow> r_body_length r = 0 | Some b \<Rightarrow> r_body_length r = length b)"

lemma wf_zero_response [simp]: "wf_response zero_response"
  by (simp add: wf_response_def zero_response_def)

lemma wf_text_response: "wf_response (fst (text_response ct t al))"
  by (auto simp: wf_response_def text_response_def zero_response_def split: option.splits prod.splits bool.splits)

lemma wf_status_response: "wf_response (fst (status_response st t al))"
  by (auto simp: wf_response_def status_response_def zero_response_def Let_def
      split: option.splits prod.splits bool.splits)

text \<open>
  Every builder returns a response whose length field is the length of the body it carries
  (or zero with no body), also when its allocation fails; on success \<open>mnet_text\<close>, \<open>mnet_html\<close> and
  \<open>mnet_json\<close> carry the text with status 200, and \<open>mnet_error\<close> the status and the message.
\<close>

theorem builders_wf:
  "wf_response (fst (mnet_text t al)) \<and> wf_response (fst (mnet_html t al)) \<and>
   wf_response (fst (mnet_json t al)) \<and> wf_response (fst (mnet_error st t al)) \<and>
   wf_response (fst (mnet_status st t al)) \<and>
   r_body (fst (mnet_text (Some s) [])) = Some s \<and> r_body (fst (mnet_html (Some s) [])) = Some s \<and>
   r_body (fst (mnet_json (Some s) [])) = Some s \<and> r_body (fst (mnet_error st (Some s) [])) = Some s \<and>
   r_status (fst (mnet_json (Some s) [])) = 200 \<and> r_status (fst (mnet_error st t al)) = st"
proof -
  have "r_status (fst (mnet_error st t al)) = st"
    by (simp add: api_defs Let_def split: prod.splits bool.splits)
  moreover have "r_body (fst (mnet_text (Some s) [])) = Some s" "r_body (fst (mnet_html (Some s) [])) = Some s"
    "r_body (fst (mnet_json (Some s) [])) = Some s" "r_body (fst (mnet_error st (Some s) [])) = Some s"
    "r_status (fst (mnet_json (Some s) [])) = 200"
    by (simp_all add: api_defs Let_def)
  ultimately show ?thesis
    using wf_text_response wf_status_response
    by (simp add: mnet_text_def mnet_html_def mnet_json_def mnet_error_def mnet_status_def)
qed

text \<open>
  \<open>mnet_response_free\<close> can be called again on a response it has freed, and on NULL: the second
  call passes nothing to \<open>free\<close> and changes nothing; the first one frees the body exactly when
  the response owns one, and a chunked response keeps its borrowed body.
\<close>

theorem mnet_response_free_once:
  "(let (r', freed) = mnet_response_free r
    in mnet_response_free r' = (r', None) \<and>
       freed = (case r of None \<Rightarrow> None | Some x \<Rightarrow> if r_chunked x then None else r_body x) \<and>
       (case (r, r') of (Some x, Some y) \<Rightarrow> r_body_length y = 0 \<and> r_status y = r_status x \<and>
          r_body y = (if r_chunked x then r_body x else None) | (None, None) \<Rightarrow> True | _ \<Rightarrow> False))"
  by (cases r) (auto simp: mnet_response_free_def)

end
