(* ===== verification/Mnet_Log.thy ===== *)
theory Mnet_Log
  imports Mnet_Types
begin

text \<open>
  Logging, from \<^verbatim>\<open>src/mnet_log.c\<close>: a message goes to the handler of the application, else to
  the process-wide handler, else to the standard error stream. The message is the formatted
  text; both handlers get it through a buffer of 1024 bytes.
\<close>

definition log_tag :: "int \<Rightarrow> string" where
  "log_tag level =
     (if level = 0 then ''ERROR'' else if level = 1 then ''WARN'' else if level = 2 then ''INFO''
      else if level = 3 then ''DEBUG'' else ''INFO'')"

definition mnet_log_msg :: "int \<Rightarrow> string \<Rightarrow> 'w host \<Rightarrow> 'w host" where
  "mnet_log_msg level msg h =
     (case h_log_handler h of
        Some f \<Rightarrow> h\<lparr>h_world := f level (snprintf_out 1024 msg) (h_world h)\<rparr>
      | None \<Rightarrow> h\<lparr>h_stderr := h_stderr h @ [''[mnet] '' @ log_tag level @ '': '' @ msg]\<rparr>)"

definition mnet_app_log :: "'w mnet_app option \<Rightarrow> int \<Rightarrow> string \<Rightarrow> 'w host \<Rightarrow> 'w host" where
  "mnet_app_log app level msg h =
     (let buf = snprintf_out 1024 msg in
      case app of
        None \<Rightarrow> mnet_log_msg level buf h
      | Some a \<Rightarrow>
          (case app_log_handler a of
             Some f \<Rightarrow> h\<lparr>h_world := f level buf (h_world h)\<rparr>
           | None \<Rightarrow> mnet_log_msg level buf h))"

definition mnet_log_set_handler :: "'w log_handler option \<Rightarrow> 'w host \<Rightarrow> 'w host" where
  "mnet_log_set_handler f h = h\<lparr>h_log_handler := f\<rparr>"

lemma mnet_app_log_frame [simp]:
  "h_alloc (mnet_app_log app level msg h) = h_alloc h"
  "h_log_handler (mnet_app_log app level msg h) = h_log_handler h"
  by (auto simp: mnet_app_log_def mnet_log_msg_def Let_def split: option.splits)

end
