(* ===== verification/Request.thy ===== *)
theory Request
  imports Mnet_Types
begin

text \<open>
  The request accessors of \<^verbatim>\<open>src/mnet_request.c\<close>. Each scans an array of names up to a count;
  \<open>None\<close> is a read outside one of the two arrays (or of the NULL that ends the parameter names),
  \<open>Some\<close> of the not-found value is the NULL the accessor returns.
\<close>

section \<open>Definitions\<close>

definition mnet_request_method :: "mnet_request option \<Rightarrow> string option" where
  "mnet_request_method request = (case request of None \<Rightarrow> None | Some r \<Rightarrow> Some (rq_method r))"

definition mnet_request_path :: "mnet_request option \<Rightarrow> string option" where
  "mnet_request_path request = (case request of None \<Rightarrow> None | Some r \<Rightarrow> Some (rq_path r))"

definition mnet_request_body :: "mnet_request option \<Rightarrow> bytes option" where
  "mnet_request_body request = (case request of None \<Rightarrow> None | Some r \<Rightarrow> rq_body r)"

definition mnet_request_body_length :: "mnet_request option \<Rightarrow> nat" where
  "mnet_request_body_length request = (case request of None \<Rightarrow> 0 | Some r \<Rightarrow> rq_body_length r)"

text \<open>The loop the accessors share: \<open>for (i = 0; i < count; i++) if (eq(names[i], name)) return vals[i];\<close>\<close>

function scan_names ::
  "(string \<Rightarrow> string \<Rightarrow> bool) \<Rightarrow> string list \<Rightarrow> 'v list \<Rightarrow> nat \<Rightarrow> nat \<Rightarrow> string \<Rightarrow> 'v option option" where
  "scan_names eq names vals i count name =
     (if i < count then
        if i < length names then
          if eq (names ! i) name then
            (if i < length vals then Some (Some (vals ! i)) else None)
          else scan_names eq names vals (Suc i) count name
        else None
      else Some None)"
  by pat_completeness auto
termination
  by (relation "measure (\<lambda>(eq, names, vals, i, count, name). count - i)") auto

declare scan_names.simps [simp del]

definition strcmp_eq :: "string \<Rightarrow> string \<Rightarrow> bool" where
  "strcmp_eq a b \<longleftrightarrow> a = b"

definition scan_array ::
  "(string \<Rightarrow> string \<Rightarrow> bool) \<Rightarrow> string list option \<Rightarrow> 'v list option \<Rightarrow> nat \<Rightarrow> string \<Rightarrow> 'v option option" where
  "scan_array eq names vals count name =
     (case names of
        None \<Rightarrow> Some None
      | Some ns \<Rightarrow> scan_names eq ns (case vals of None \<Rightarrow> [] | Some vs \<Rightarrow> vs) 0 count name)"

definition mnet_request_param :: "mnet_request option \<Rightarrow> string option \<Rightarrow> slot option" where
  "mnet_request_param request name =
     (case (request, name) of
        (Some r, Some n) \<Rightarrow>
          map_option (\<lambda>v. case v of None \<Rightarrow> Null | Some s \<Rightarrow> s)
            (scan_array strcmp_eq (rq_path_param_names r) (rq_path_param_values r)
               (rq_path_param_count r) n)
      | _ \<Rightarrow> Some Null)"

definition mnet_request_query :: "mnet_request option \<Rightarrow> string option \<Rightarrow> string option option" where
  "mnet_request_query request name =
     (case (request, name) of
        (Some r, Some n) \<Rightarrow>
          scan_array strcmp_eq (rq_query_names r) (rq_query_values r) (rq_query_count r) n
      | _ \<Rightarrow> Some None)"

definition mnet_request_header :: "mnet_request option \<Rightarrow> string option \<Rightarrow> string option option" where
  "mnet_request_header request name =
     (case (request, name) of
        (Some r, Some n) \<Rightarrow>
          scan_array strcaseeq (rq_header_names r) (rq_header_values r) (rq_header_count r) n
      | _ \<Rightarrow> Some None)"

definition mnet_request_cookie :: "mnet_request option \<Rightarrow> string option \<Rightarrow> string option option" where
  "mnet_request_cookie request name =
     (case (request, name) of
        (Some r, Some n) \<Rightarrow>
          scan_array strcmp_eq (rq_cookie_names r) (rq_cookie_values r) (rq_cookie_count r) n
      | _ \<Rightarrow> Some None)"

section \<open>The accessors as lookups\<close>

text \<open>The first entry of an association list whose key matches.\<close>

definition first_match :: "(string \<Rightarrow> string \<Rightarrow> bool) \<Rightarrow> (string \<times> 'v) list \<Rightarrow> string \<Rightarrow> 'v option" where
  "first_match eq kvs name = map_option snd (find (\<lambda>(k, v). eq k name) kvs)"

lemma first_match_Cons:
  "first_match eq ((k, v) # kvs) name = (if eq k name then Some v else first_match eq kvs name)"
  by (simp add: first_match_def)

lemma first_match_Nil [simp]: "first_match eq [] name = None"
  by (simp add: first_match_def)

lemma first_match_map_of: "first_match strcmp_eq kvs name = map_of kvs name"
  by (induction kvs) (auto simp: first_match_Cons strcmp_eq_def)

lemma scan_names_first_match:
  assumes "i \<le> count" "count \<le> length names" "count \<le> length vals"
  shows "scan_names eq names vals i count name =
    Some (first_match eq (zip (drop i (take count names)) (drop i (take count vals))) name)"
  using assms
proof (induction eq names vals i count name rule: scan_names.induct)
  case (1 eq names vals i count name)
  note U = scan_names.simps [of eq names vals i count name]
  show ?case
  proof (cases "i < count")
    case True
    have "drop i (take count names) = names ! i # drop (Suc i) (take count names)"
      "drop i (take count vals) = vals ! i # drop (Suc i) (take count vals)"
      using True 1(3,4) Cons_nth_drop_Suc [of i "take count names"]
        Cons_nth_drop_Suc [of i "take count vals"] by simp_all
    with 1 True show ?thesis by (auto simp: U first_match_Cons)
  next
    case False
    with 1 show ?thesis by (simp add: scan_names.simps [of eq names vals count count name])
  qed
qed

lemma scan_array_first_match:
  assumes "count \<le> length ns" "count \<le> length vs"
  shows "scan_array eq (Some ns) (Some vs) count name =
    Some (first_match eq (zip (take count ns) (take count vs)) name)"
  using scan_names_first_match [of 0 count ns vs eq name] assms by (simp add: scan_array_def)

text \<open>
  A request whose counts lie within its arrays: what \<open>dispatch\<close> hands to a handler (proved with
  the dispatcher).
\<close>

definition arrays_ok :: "string list option \<Rightarrow> 'v list option \<Rightarrow> nat \<Rightarrow> bool" where
  "arrays_ok names vals count \<longleftrightarrow>
     (case names of
        None \<Rightarrow> True
      | Some ns \<Rightarrow> count \<le> length ns \<and> (\<exists>vs. vals = Some vs \<and> count \<le> length vs))"

definition wf_request :: "mnet_request \<Rightarrow> bool" where
  "wf_request r \<longleftrightarrow>
     arrays_ok (rq_path_param_names r) (rq_path_param_values r) (rq_path_param_count r) \<and>
     arrays_ok (rq_query_names r) (rq_query_values r) (rq_query_count r) \<and>
     arrays_ok (rq_header_names r) (rq_header_values r) (rq_header_count r) \<and>
     arrays_ok (rq_cookie_names r) (rq_cookie_values r) (rq_cookie_count r)"

text \<open>The pairs a request carries, up to its count.\<close>

definition pairs_of :: "string list option \<Rightarrow> 'v list option \<Rightarrow> nat \<Rightarrow> (string \<times> 'v) list" where
  "pairs_of names vals count =
     (case (names, vals) of
        (Some ns, Some vs) \<Rightarrow> zip (take count ns) (take count vs)
      | _ \<Rightarrow> [])"

lemma scan_array_pairs:
  "arrays_ok names vals count \<Longrightarrow>
   scan_array eq names vals count name = Some (first_match eq (pairs_of names vals count) name)"
  by (auto simp: arrays_ok_def pairs_of_def scan_array_first_match split: option.splits)
    (simp add: scan_array_def)

text \<open>
  C30. On a well-formed request no accessor reads outside an array, and each returns the value of
  the first entry with the given name: query, cookie and path parameters by exact comparison,
  headers without regard to ASCII case (so the spelling of the name asked for does not matter).
\<close>

theorem accessors_lookup:
  assumes "wf_request r" and "strcaseeq n n'"
  shows "mnet_request_query (Some r) (Some n) =
      Some (map_of (pairs_of (rq_query_names r) (rq_query_values r) (rq_query_count r)) n) \<and>
    mnet_request_cookie (Some r) (Some n) =
      Some (map_of (pairs_of (rq_cookie_names r) (rq_cookie_values r) (rq_cookie_count r)) n) \<and>
    mnet_request_header (Some r) (Some n) =
      Some (first_match strcaseeq (pairs_of (rq_header_names r) (rq_header_values r) (rq_header_count r)) n) \<and>
    mnet_request_header (Some r) (Some n') = mnet_request_header (Some r) (Some n) \<and>
    mnet_request_param (Some r) (Some n) =
      Some (case map_of (pairs_of (rq_path_param_names r) (rq_path_param_values r) (rq_path_param_count r)) n
            of None \<Rightarrow> Null | Some s \<Rightarrow> s)"
proof -
  have eq: "strcaseeq k n = strcaseeq k n'" for k
    using assms(2) strcaseeq_trans strcaseeq_sym by blast
  then have "mnet_request_header (Some r) (Some n') = mnet_request_header (Some r) (Some n)"
    using assms(1) by (simp add: mnet_request_header_def wf_request_def scan_array_pairs first_match_def)
  then show ?thesis
    using assms(1) by (simp add: wf_request_def mnet_request_query_def mnet_request_cookie_def
        mnet_request_header_def mnet_request_param_def scan_array_pairs first_match_map_of)
qed

definition sample_request :: mnet_request where
  "sample_request =
     \<lparr>rq_method = ''GET'', rq_path = ''/u/7'', rq_query_string = Some ''a=1'', rq_body = None,
      rq_body_length = 0, rq_path_param_count = 1, rq_path_param_names = Some [''id''],
      rq_path_param_values = Some [Val ''7'', Null], rq_query_count = 1,
      rq_query_names = Some [''a''], rq_query_values = Some [''1''], rq_header_count = 1,
      rq_header_names = Some [''Host''], rq_header_values = Some [''x''], rq_cookie_count = 0,
      rq_cookie_names = None, rq_cookie_values = None, rq_extras = None, rq_user_data = None\<rparr>"

theorem accessors_lookup_witness:
  "mnet_request_header (Some sample_request) (Some ''HOST'') = Some (Some ''x'') \<and>
   mnet_request_header (Some sample_request) (Some ''host'') = Some (Some ''x'') \<and>
   mnet_request_query (Some sample_request) (Some ''HOST'') = Some None"
proof -
  have wf: "wf_request sample_request"
    by (simp add: wf_request_def arrays_ok_def sample_request_def)
  have eq: "strcaseeq ''HOST'' ''host''" by code_simp
  have "first_match strcaseeq [(''Host'', ''x'')] ''HOST'' = Some ''x''" by code_simp
  then show ?thesis
    using accessors_lookup [OF wf eq] by (simp add: sample_request_def pairs_of_def)
qed

end
