(* ===== verification/Handlers.thy ===== *)
theory Handlers
  imports Router Response Mnet_Log Request
begin

text \<open>
  The built-in handlers of \<^verbatim>\<open>src/mnet_handlers.c\<close>: the welcome page and static files. The file
  system, the clock and the git checkout are the parameters of an environment: \<open>env_realpath\<close> is
  \<open>realpath\<close> (\<open>None\<close> on failure), \<open>env_fopen\<close> gives the file behind a path, \<open>env_time_str\<close> is what
  \<open>strftime\<close> leaves in its buffer and \<open>env_git_head\<close> the line \<open>fgets\<close> reads from \<open>.git/HEAD\<close>.
\<close>

section \<open>Environment\<close>

record fs_file =
  file_seek_ok :: bool
  file_size :: int
  file_bytes :: bytes

record environment =
  env_realpath :: "string \<Rightarrow> string option"
  env_fopen :: "string \<Rightarrow> fs_file option"
  env_time_str :: string
  env_git_head :: "string option"

section \<open>Welcome page\<close>

text \<open>The template as its literal parts, each with the conversion that follows it, and its end.\<close>

definition welcome_parts :: "(string \<times> string) list" where
  "welcome_parts =
     [(''<!DOCTYPE html>'' @ [LF] @ ''<html>'' @ [LF] @ ''<head><title>mnet Server</title></head>'' @
       [LF] @ ''<body>'' @ [LF] @ ''<h1>Congratulations!</h1>'' @ [LF] @
       ''<p>You successfully started the mnet server.</p>'' @ [LF] @ ''<p>Go to <a href='' @
       [DQUOTE] @ ''https://github.com/mnet-web/mnet/blob/main/README.md'' @ [DQUOTE] @ ''>'' @ [LF] @
       ''README.md</a> for more information about MNET.</p>'' @ [LF] @ ''<p>Go to <a href='' @
       [DQUOTE] @ ''https://github.com/mnet-web/mnet/blob/main/docs/clib.md'' @ [DQUOTE] @ ''>'' @
       [LF] @ ''clib.md</a> for further setup.</p>'' @ [LF] @ ''<p>Development state: '', ''%s''),
      (''</p>'' @ [LF] @ ''<p>Reported https state: '', ''%s''),
      ('' (display only, TLS is not implemented)</p>'' @ [LF] @ ''<p>Listening port: '', ''%d''),
      (''</p>'' @ [LF] @ ''<p>Debug mode: '', ''%s''),
      (''</p>'' @ [LF] @ ''<p>Worker count: '', ''%d''),
      (''</p>'' @ [LF] @ ''<p>Max connections: '', ''%d''),
      (''</p>'' @ [LF] @ ''<p>Timeout: '', ''%d''),
      ('' seconds</p>'' @ [LF] @ ''<p>Keep-alive timeout: '', ''%d''),
      ('' seconds</p>'' @ [LF] @ ''<p>Max body size: '', ''%zu''),
      ('' bytes</p>'' @ [LF] @ ''<p>Routes defined: '', ''%zu''),
      (''</p>'' @ [LF] @ ''<p>Build time: '', ''%s''),
      (''</p>'' @ [LF] @ ''<p>Git commit: <code>'', ''%12s'')]"

definition welcome_tail :: string where
  "welcome_tail = ''</code></p>'' @ [LF] @ ''</body>'' @ [LF] @ ''</html>''"

fun format_parts :: "(string \<times> string) list \<Rightarrow> string list \<Rightarrow> string" where
  "format_parts ((t, conv) # ps) (a # as) = t @ a @ format_parts ps as"
| "format_parts _ _ = []"

definition template_length :: nat where
  "template_length =
     sum_list (map (\<lambda>(t, conv). length t + length conv) welcome_parts) + length welcome_tail"

definition commit_hash :: "environment \<Rightarrow> string" where
  "commit_hash env =
     (case env_git_head env of
        None \<Rightarrow> ''unknown''
      | Some l \<Rightarrow>
          let line = takeWhile (\<lambda>c. c \<noteq> LF) (take 255 l)
          in if take 4 line = ''ref:''
             then take 12 (dropWhile (\<lambda>c. c = SP \<or> c = TAB) (drop 4 line))
             else take 12 line)"

text \<open>\<open>%12s\<close>.\<close>

definition pad12 :: "string \<Rightarrow> string" where
  "pad12 s = replicate (12 - length s) SP @ s"

definition welcome_args :: "environment \<Rightarrow> 'w mnet_app \<Rightarrow> string list" where
  "welcome_args env app =
     [if app_dev app then ''true'' else ''false'',
      if app_https app then ''https'' else ''http'',
      show_int (app_port app),
      if app_debug app then ''true'' else ''false'',
      show_int (app_workers app), show_int (app_max_connections app),
      show_int (app_timeout_seconds app), show_int (app_keep_alive_timeout app),
      show_nat (unat (app_max_body_size app)), show_nat (app_route_count app),
      env_time_str env, pad12 (commit_hash env)]"

definition welcome_response :: "environment \<Rightarrow> 'w mnet_app \<Rightarrow> alloc \<Rightarrow> mnet_response \<times> alloc" where
  "welcome_response env app al =
     (let total_len = template_length + length (if app_dev app then ''true'' else ''false'') +
            length (if app_https app then ''https'' else ''http'') + 512
      in case malloc al of
           (False, al') \<Rightarrow> mnet_error 500 (Some ''internal server error'') al'
         | (True, al') \<Rightarrow>
             let full = format_parts welcome_parts (welcome_args env app) @ welcome_tail;
                 written = (if length full \<ge> total_len then total_len - 1 else length full)
             in (\<lparr>r_status = 200, r_content_type = Some ''text/html'',
                   r_body = Some (take written (snprintf_out total_len full)),
                   r_body_length = written, r_chunked = False\<rparr>, al'))"

section \<open>Static files\<close>

definition mime_type :: "string \<Rightarrow> string" where
  "mime_type path =
     (case after_last path CHR ''.'' of
        None \<Rightarrow> ''application/octet-stream''
      | Some ext \<Rightarrow>
          if strcaseeq ext ''html'' \<or> strcaseeq ext ''htm'' then ''text/html''
          else if strcaseeq ext ''css'' then ''text/css''
          else if strcaseeq ext ''js'' then ''application/javascript''
          else if strcaseeq ext ''json'' then ''application/json''
          else if strcaseeq ext ''png'' then ''image/png''
          else if strcaseeq ext ''jpg'' \<or> strcaseeq ext ''jpeg'' then ''image/jpeg''
          else if strcaseeq ext ''gif'' then ''image/gif''
          else if strcaseeq ext ''svg'' then ''image/svg+xml''
          else if strcaseeq ext ''ico'' then ''image/x-icon''
          else if strcaseeq ext ''txt'' then ''text/plain''
          else if strcaseeq ext ''xml'' then ''application/xml''
          else if strcaseeq ext ''pdf'' then ''application/pdf''
          else ''application/octet-stream'')"

text \<open>
  \<open>url_path + strlen(url_prefix)\<close>, then past one \<open>/\<close>: \<open>None\<close> when the offset lies behind the
  end of the path.
\<close>

definition static_rel :: "string \<Rightarrow> string \<Rightarrow> string option" where
  "static_rel url_prefix path =
     (if length url_prefix \<le> length path then Some (skip_slash (drop (length url_prefix) path)) else None)"

definition inside_root :: "string \<Rightarrow> string \<Rightarrow> bool" where
  "inside_root base real \<longleftrightarrow>
     take (length base) real = base \<and>
     (length real = length base \<or> real ! length base = CHR ''/'' \<or>
      base \<noteq> [] \<and> last base = CHR ''/'')"

definition error_host :: "int \<Rightarrow> string \<Rightarrow> 'w host \<Rightarrow> mnet_response \<times> 'w host" where
  "error_host status msg h = with_alloc (mnet_error status (Some msg)) h"

text \<open>Opening and reading the file at the resolved path.\<close>

definition serve_file :: "environment \<Rightarrow> string \<Rightarrow> string \<Rightarrow> 'w host \<Rightarrow> mnet_response \<times> 'w host" where
  "serve_file env real fs_path h =
     (case env_fopen env real of
        None \<Rightarrow> error_host 404 ''not found'' h
      | Some f \<Rightarrow>
          if \<not> file_seek_ok f then error_host 404 ''not found'' h
          else if file_size f < 0 then error_host 404 ''not found'' h
          else
            (case malloc (h_alloc h) of
               (False, al) \<Rightarrow> error_host 500 ''internal server error'' (h\<lparr>h_alloc := al\<rparr>)
             | (True, al) \<Rightarrow>
                 let data = take (nat (file_size f)) (file_bytes f)
                 in (\<lparr>r_status = 200, r_content_type = Some (mime_type fs_path), r_body = Some data,
                       r_body_length = length data, r_chunked = False\<rparr>, h\<lparr>h_alloc := al\<rparr>)))"

text \<open>\<open>None\<close> is undefined behaviour (the relative path starts behind the path).\<close>

definition static_handler ::
  "environment \<Rightarrow> 'w mnet_app option \<Rightarrow> mnet_request \<Rightarrow> 'w host \<Rightarrow> (mnet_response \<times> 'w host) option" where
  "static_handler env app req h =
     (case rq_user_data req of
        None \<Rightarrow> Some (error_host 500 ''internal server error'' h)
      | Some cfg \<Rightarrow>
          (case static_rel (sc_url_prefix cfg) (rq_path req) of
             None \<Rightarrow> None
           | Some rel \<Rightarrow>
               let full = sc_fs_path cfg @ ''/'' @ rel
               in if length full \<ge> 4096 then Some (error_host 404 ''not found'' h)
                  else
                    (case env_realpath env full of
                       None \<Rightarrow> Some (error_host 404 ''not found'' h)
                     | Some real \<Rightarrow>
                         (case env_realpath env (sc_fs_path cfg) of
                            None \<Rightarrow> Some (error_host 404 ''not found'' h)
                          | Some base_real \<Rightarrow>
                              if \<not> inside_root base_real real then
                                Some (error_host 403 ''forbidden''
                                  (mnet_app_log app 1
                                    (''blocked path traversal attempt: '' @ [CHR 0x27] @ rq_path req @
                                     [CHR 0x27] @ '' resolves outside the root'') h))
                              else Some (serve_file env real full h)))))"

section \<open>The welcome page fits its buffer\<close>

lemma length_format_parts:
  "length ps = length as \<Longrightarrow>
   length (format_parts ps as) = sum_list (map (length \<circ> fst) ps) + sum_list (map length as)"
  by (induction ps as rule: list_induct2) auto

lemma length_show_nat: "n < 10 ^ k \<Longrightarrow> 0 < k \<Longrightarrow> length (show_nat n) \<le> k"
  unfolding show_nat_def by (rule length_radix) simp_all

lemma length_show_int:
  assumes "- (2 ^ 31) \<le> i" "i < 2 ^ 31"
  shows "length (show_int i) \<le> 11"
proof -
  have "length (show_nat (nat (- i))) \<le> 10" if "i < 0"
    using assms that by (intro length_show_nat) (simp_all add: nat_less_iff)
  moreover have "length (show_nat (nat i)) \<le> 10" if "0 \<le> i"
    using assms that by (intro length_show_nat) (simp_all add: nat_less_iff)
  ultimately show ?thesis by (cases "i < 0") (auto simp: show_int_def)
qed

text \<open>The values that are printed are C integers, and the time stamp comes from a buffer of 64 bytes.\<close>

definition printable_app :: "environment \<Rightarrow> 'w mnet_app \<Rightarrow> bool" where
  "printable_app env app \<longleftrightarrow>
     c_int (app_port app) \<and> c_int (app_workers app) \<and> c_int (app_max_connections app) \<and>
     c_int (app_timeout_seconds app) \<and> c_int (app_keep_alive_timeout app) \<and>
     app_route_count app < 2 ^ 64 \<and> length (env_time_str env) \<le> 63"

lemma length_commit_hash: "length (commit_hash env) \<le> 12"
  by (auto simp: commit_hash_def Let_def split: option.splits)

lemma welcome_args_length:
  assumes "printable_app env app"
  shows "sum_list (map length (welcome_args env app)) \<le> 194"
proof -
  have "length (show_nat (unat (app_max_body_size app))) \<le> 20"
    using unsigned_less [of "app_max_body_size app", where 'a = nat] by (intro length_show_nat) simp_all
  moreover have "length (show_nat (app_route_count app)) \<le> 20"
    using assms by (intro length_show_nat) (simp_all add: printable_app_def)
  moreover have "length (pad12 (commit_hash env)) \<le> 12"
    using length_commit_hash [of env] by (simp add: pad12_def)
  moreover have "length (show_int i) \<le> 11" if "c_int i" for i
    using that length_show_int by (simp add: c_int_def)
  then have "length (show_int (app_port app)) \<le> 11" "length (show_int (app_workers app)) \<le> 11"
    "length (show_int (app_max_connections app)) \<le> 11" "length (show_int (app_timeout_seconds app)) \<le> 11"
    "length (show_int (app_keep_alive_timeout app)) \<le> 11"
    using assms by (simp_all add: printable_app_def)
  moreover have "length (env_time_str env) \<le> 63" using assms by (simp add: printable_app_def)
  ultimately show ?thesis by (simp add: welcome_args_def)
qed

text \<open>
  The welcome page is never cut off and its length field is exact: the slack of 512 bytes
  covers whatever the twelve conversions print, so the clamp in the code never applies.
\<close>

theorem welcome_response_complete:
  assumes "printable_app env app"
  shows "welcome_response env app [] =
    (\<lparr>r_status = 200, r_content_type = Some ''text/html'',
      r_body = Some (format_parts welcome_parts (welcome_args env app) @ welcome_tail),
      r_body_length = length (format_parts welcome_parts (welcome_args env app) @ welcome_tail),
      r_chunked = False\<rparr>, [])"
proof -
  let ?full = "format_parts welcome_parts (welcome_args env app) @ welcome_tail"
  have "length ?full = sum_list (map (length \<circ> fst) welcome_parts) +
      sum_list (map length (welcome_args env app)) + length welcome_tail"
    by (simp add: length_format_parts welcome_parts_def welcome_args_def)
  moreover have "sum_list (map (length \<circ> fst) welcome_parts) + length welcome_tail \<le> template_length"
    unfolding template_length_def by (simp add: case_prod_beta sum_list_mono)
  ultimately have "length ?full \<le> template_length + 194"
    using welcome_args_length [OF assms] by linarith
  then show ?thesis
    by (simp add: welcome_response_def snprintf_out_def Let_def)
qed

section \<open>Static files stay below their root\<close>

text \<open>A canonical absolute path, as \<open>realpath\<close> returns it, from its components.\<close>

definition path_of :: "string list \<Rightarrow> string" where
  "path_of ps = CHR ''/'' # join_slash ps"

fun abs_text :: "string list \<Rightarrow> string" where
  "abs_text [] = []"
| "abs_text (p # ps) = CHR ''/'' # p @ abs_text ps"

lemma tail_of_abs: "tail_of ps = abs_text ps"
  by (induction ps rule: join_slash.induct) (simp_all add: tail_of_def)

lemma path_of_abs: "ps \<noteq> [] \<Longrightarrow> path_of ps = abs_text ps"
  using tail_of_abs [of ps] by (cases ps) (simp_all add: path_of_def tail_of_def)

lemma abs_text_eq_Nil: "abs_text ps = [] \<longleftrightarrow> ps = []"
  by (cases ps) simp_all

definition ends_segment :: "string \<Rightarrow> bool" where
  "ends_segment s \<longleftrightarrow> s = [] \<or> hd s = CHR ''/''"

lemma ends_segment_abs: "ends_segment (abs_text ps)" "ends_segment (abs_text ps @ r) \<longleftrightarrow> ps \<noteq> [] \<or> ends_segment r"
  by (cases ps; simp add: ends_segment_def)+

lemma seg_of_ends: "CHR ''/'' \<notin> set p \<Longrightarrow> ends_segment s \<Longrightarrow> seg_of (p @ s) = p"
  unfolding seg_of_def ends_segment_def
  by (cases s) (auto intro!: takeWhile_all takeWhile_stop)

lemma abs_prefix_iff:
  assumes "\<forall>p\<in>set bs. part_ok p" "\<forall>p\<in>set rs. part_ok p"
  shows "(\<exists>rest. abs_text rs = abs_text bs @ rest \<and> ends_segment rest) \<longleftrightarrow> prefix bs rs"
  using assms
proof (induction bs arbitrary: rs)
  case Nil
  then show ?case using ends_segment_abs(1) by simp
next
  case (Cons b bs)
  show ?case
  proof (cases rs)
    case Nil
    then show ?thesis by simp
  next
    case (Cons r rs')
    have parts: "CHR ''/'' \<notin> set b" "CHR ''/'' \<notin> set r"
      using Cons.prems Cons by (auto simp: part_ok_def)
    have "(\<exists>rest. r @ abs_text rs' = b @ abs_text bs @ rest \<and> ends_segment rest) \<longleftrightarrow>
        r = b \<and> (\<exists>rest. abs_text rs' = abs_text bs @ rest \<and> ends_segment rest)"
    proof
      assume "\<exists>rest. r @ abs_text rs' = b @ abs_text bs @ rest \<and> ends_segment rest"
      then obtain rest where rest: "r @ abs_text rs' = b @ abs_text bs @ rest" "ends_segment rest" by blast
      then have "seg_of (r @ abs_text rs') = seg_of (b @ abs_text bs @ rest)" by simp
      then have "r = b"
        using parts rest(2) ends_segment_abs by (simp add: seg_of_ends)
      with rest show "r = b \<and> (\<exists>rest. abs_text rs' = abs_text bs @ rest \<and> ends_segment rest)" by auto
    qed auto
    with Cons.IH [of rs'] Cons.prems Cons show ?thesis by auto
  qed
qed

lemma last_path_of:
  assumes "\<forall>p\<in>set bs. part_ok p" "bs \<noteq> []"
  shows "last (path_of bs) \<noteq> CHR ''/''"
proof -
  have "last (abs_text bs) \<noteq> CHR ''/''"
    using assms
  proof (induction bs)
    case (Cons b bs)
    then have "b \<noteq> []" "CHR ''/'' \<notin> set b" by (simp_all add: part_ok_def)
    then have "last b \<noteq> CHR ''/''" using last_in_set [of b] by metis
    with Cons show ?case by (cases "bs = []") (auto simp: part_ok_def abs_text_eq_Nil)
  qed simp
  then show ?thesis using assms(2) by (simp add: path_of_abs)
qed

lemma inside_root_iff:
  assumes "\<forall>p\<in>set bs. part_ok p" "\<forall>p\<in>set rs. part_ok p"
  shows "inside_root (path_of bs) (path_of rs) \<longleftrightarrow> prefix bs rs"
proof (cases "bs = []")
  case True
  then show ?thesis by (simp add: inside_root_def path_of_def)
next
  case bs: False
  have "inside_root (path_of bs) (path_of rs) \<longleftrightarrow>
      (\<exists>rest. path_of rs = path_of bs @ rest \<and> ends_segment rest)"
  proof
    assume "inside_root (path_of bs) (path_of rs)"
    then have t: "take (length (path_of bs)) (path_of rs) = path_of bs"
      and e: "length (path_of rs) = length (path_of bs) \<or> path_of rs ! length (path_of bs) = CHR ''/''"
      using last_path_of [OF assms(1) bs] by (auto simp: inside_root_def)
    let ?rest = "drop (length (path_of bs)) (path_of rs)"
    have "path_of rs = path_of bs @ ?rest" using t by (metis append_take_drop_id)
    moreover have "ends_segment ?rest"
      using e by (cases "length (path_of bs) < length (path_of rs)") (auto simp: ends_segment_def hd_drop_conv_nth)
    ultimately show "\<exists>rest. path_of rs = path_of bs @ rest \<and> ends_segment rest" by blast
  next
    assume "\<exists>rest. path_of rs = path_of bs @ rest \<and> ends_segment rest"
    then show "inside_root (path_of bs) (path_of rs)"
      by (auto simp: inside_root_def ends_segment_def nth_append hd_conv_nth)
  qed
  also have "\<dots> \<longleftrightarrow> prefix bs rs"
  proof (cases "rs = []")
    case True
    with bs assms(1) show ?thesis by (cases bs) (auto simp: path_of_def join_slash_Cons part_ok_def)
  next
    case False
    with bs abs_prefix_iff [OF assms] show ?thesis by (simp add: path_of_abs)
  qed
  finally show ?thesis .
qed

text \<open>
  C26. Static serving is confined to its root. For any resolution of paths that yields canonical
  absolute paths, a request below the prefix of the route is answered from the file it resolves to
  if and only if the components of the root are a prefix of the components of that file (a sibling
  whose name merely starts like the root is outside); everything else gets 403 and a warning in
  the log.
\<close>

theorem static_handler_confined:
  assumes "rq_user_data req = Some cfg" "rq_path req = sc_url_prefix cfg @ rest"
    and "length (sc_fs_path cfg @ ''/'' @ skip_slash rest) < 4096"
    and "env_realpath env (sc_fs_path cfg @ ''/'' @ skip_slash rest) = Some (path_of rs)" "\<forall>p\<in>set rs. part_ok p"
    and "env_realpath env (sc_fs_path cfg) = Some (path_of bs)" "\<forall>p\<in>set bs. part_ok p"
  shows "static_handler env app req h = Some
    (if prefix bs rs then serve_file env (path_of rs) (sc_fs_path cfg @ ''/'' @ skip_slash rest) h
     else error_host 403 ''forbidden''
       (mnet_app_log app 1
         (''blocked path traversal attempt: '' @ [CHR 0x27] @ rq_path req @ [CHR 0x27] @
          '' resolves outside the root'') h))"
  using assms inside_root_iff [OF assms(7,5)]
  by (simp add: static_handler_def static_rel_def Let_def)

definition sample_env :: environment where
  "sample_env =
     \<lparr>env_realpath = (\<lambda>p. if p = ''www'' then Some ''/srv/www''
        else if p = ''www/a.html'' then Some ''/srv/www/a.html''
        else if p = ''www/../www2/x'' then Some ''/srv/www2/x'' else None),
      env_fopen = (\<lambda>p. if p = ''/srv/www/a.html''
        then Some \<lparr>file_seek_ok = True, file_size = 2, file_bytes = ''hi''\<rparr> else None),
      env_time_str = ''now'', env_git_head = None\<rparr>"

definition static_request :: "string \<Rightarrow> mnet_request" where
  "static_request p = sample_request\<lparr>rq_path := p,
     rq_user_data := Some \<lparr>sc_url_prefix = ''/s'', sc_fs_path = ''www''\<rparr>\<rparr>"

definition sample_host :: "unit host" where
  "sample_host = \<lparr>h_world = (), h_stderr = [], h_alloc = [], h_log_handler = None\<rparr>"

text \<open>A sibling directory with a longer name is refused although its path starts with the root's.\<close>

theorem static_handler_confined_witness:
  "static_handler sample_env None (static_request ''/s/../www2/x'') sample_host =
     Some (error_host 403 ''forbidden''
       (mnet_app_log None 1 (''blocked path traversal attempt: '' @ [CHR 0x27] @ ''/s/../www2/x'' @ [CHR 0x27] @
          '' resolves outside the root'') sample_host))"
proof -
  let ?cfg = "\<lparr>sc_url_prefix = ''/s'', sc_fs_path = ''www''\<rparr>" and ?req = "static_request ''/s/../www2/x''"
  have s: "skip_slash ''/../www2/x'' = ''../www2/x''" by (simp add: skip_slash_def)
  have ne: "\<not> prefix [''srv'', ''www''] [''srv'', ''www2'', ''x'']" by simp
  have "static_handler sample_env None ?req sample_host = Some
    (if prefix [''srv'', ''www''] [''srv'', ''www2'', ''x'']
     then serve_file sample_env (path_of [''srv'', ''www2'', ''x'']) (sc_fs_path ?cfg @ ''/'' @ skip_slash ''/../www2/x'') sample_host
     else error_host 403 ''forbidden''
       (mnet_app_log None 1 (''blocked path traversal attempt: '' @ [CHR 0x27] @ rq_path ?req @ [CHR 0x27] @
          '' resolves outside the root'') sample_host))"
    by (rule static_handler_confined)
      (simp_all add: static_request_def s sample_env_def path_of_def part_ok_def)
  then show ?thesis using ne by (simp add: static_request_def)
qed

theorem welcome_response_complete_witness:
  "\<exists>b. welcome_response sample_env
      \<lparr>app_routes = [], app_route_count = 0, app_route_capacity = 0, app_running = True, app_debug = False,
       app_dev = True, app_https = False, app_port = 8080, app_not_found_handler = None, app_middleware = None,
       app_timeout_seconds = 30, app_max_connections = 0, app_keep_alive_timeout = 5, app_max_body_size = 0,
       app_log_handler = None, app_workers = 4, app_active_connections = 0\<rparr> [] =
     (\<lparr>r_status = 200, r_content_type = Some ''text/html'', r_body = Some b, r_body_length = length b,
       r_chunked = False\<rparr>, [])"
  by (intro exI, rule welcome_response_complete) (simp add: printable_app_def c_int_def sample_env_def)

end
