(* ===== verification/App.thy ===== *)
theory App
  imports Handlers
begin

text \<open>
  The application: creation, configuration and route registration, from \<^verbatim>\<open>src/mnet_app.c\<close>. The
  route array is modelled with its capacity, so that registration shows that it writes inside the
  array; allocations follow the allocation script.
\<close>

section \<open>Registration\<close>

text \<open>Room for one more route; \<open>None\<close> when \<open>realloc\<close> fails.\<close>

definition grow_routes :: "'w mnet_app \<Rightarrow> alloc \<Rightarrow> 'w mnet_app option \<times> alloc" where
  "grow_routes app al =
     (if app_route_count app = app_route_capacity app then
        let nc = (if app_route_capacity app = 0 then MNET_INITIAL_ROUTE_CAPACITY
                  else app_route_capacity app * 2)
        in case malloc al of
             (False, al') \<Rightarrow> (None, al')
           | (True, al') \<Rightarrow>
               (Some (app\<lparr>app_routes := app_routes app @ replicate (nc - length (app_routes app)) None,
                          app_route_capacity := nc\<rparr>), al')
      else (Some app, al))"

text \<open>The scan for parameter names; \<open>None\<close> is the jump to \<open>fail\<close>.\<close>

function param_names_loop :: "string \<Rightarrow> string list \<Rightarrow> alloc \<Rightarrow> string list option \<times> alloc" where
  "param_names_loop p names al =
     (case p of
        [] \<Rightarrow> (Some names, al)
      | c # cs \<Rightarrow>
          if c = CHR '':'' then
            let start = takeWhile (\<lambda>c. c \<noteq> CHR ''/'' \<and> c \<noteq> CHR ''.'') cs;
                rest = dropWhile (\<lambda>c. c \<noteq> CHR ''/'' \<and> c \<noteq> CHR ''.'') cs;
                name = (if start = [] then snprintf_out 16 (CHR ''_'' # show_nat (length names)) else start)
            in (case malloc al of
                  (False, al1) \<Rightarrow> (None, al1)
                | (True, al1) \<Rightarrow>
                    (case malloc al1 of
                       (False, al2) \<Rightarrow> (None, al2)
                     | (True, al2) \<Rightarrow> param_names_loop rest (names @ [name]) al2))
          else if c = CHR ''*'' then
            (case malloc al of
               (False, al1) \<Rightarrow> (None, al1)
             | (True, al1) \<Rightarrow>
                 (case malloc al1 of
                    (False, al2) \<Rightarrow> (None, al2)
                  | (True, al2) \<Rightarrow> (Some (names @ [''*'']), al2)))
          else param_names_loop cs names al)"
  by pat_completeness auto
termination
  by (relation "measure (\<lambda>(p, names, al). length p)") (auto simp: less_Suc_eq_le length_dropWhile_le)

declare param_names_loop.simps [simp del]

definition put_route :: "'w mnet_app \<Rightarrow> 'w mnet_route \<Rightarrow> 'w mnet_app" where
  "put_route app r = app\<lparr>app_routes := (app_routes app)[app_route_count app := Some r]\<rparr>"

definition mnet_add_route ::
  "'w mnet_app option \<Rightarrow> mnet_http_method \<Rightarrow> string option \<Rightarrow> 'w handler option \<Rightarrow> alloc \<Rightarrow>
   (int \<times> 'w mnet_app option) \<times> alloc" where
  "mnet_add_route app meth path handler al =
     (case (app, path, handler) of
        (Some a, Some p, Some f) \<Rightarrow>
          (case grow_routes a al of
             (None, al1) \<Rightarrow> ((-1, Some a), al1)
           | (Some a1, al1) \<Rightarrow>
               let r = \<lparr>rt_method = meth, rt_path = Some p, rt_handler = f, rt_param_names = None,
                        rt_user_data = None, rt_path_allocated = False\<rparr>
               in (case param_names_loop p [] al1 of
                     (None, al2) \<Rightarrow> ((-1, Some (put_route a1 r)), al2)
                   | (Some names, al2) \<Rightarrow>
                       let r' = r\<lparr>rt_param_names := (if names = [] then None else Some names)\<rparr>
                       in ((0, Some ((put_route a1 r')\<lparr>app_route_count := app_route_count a1 + 1\<rparr>)), al2)))
      | _ \<Rightarrow> ((-1, app), al))"

definition mnet_route ::
  "'w mnet_app option \<Rightarrow> mnet_http_method \<Rightarrow> string option \<Rightarrow> 'w handler option \<Rightarrow> alloc \<Rightarrow>
   (int \<times> 'w mnet_app option) \<times> alloc" where
  "mnet_route app meth path handler al = mnet_add_route app meth path handler al"

text \<open>
  The handler a static route stores. Where \<open>static_handler\<close> is undefined there is no behaviour to
  model; \<open>static_handler_confined\<close> says what it does below its prefix.
\<close>

definition static_route_handler :: "environment \<Rightarrow> 'w mnet_app \<Rightarrow> 'w handler" where
  "static_route_handler env app req h =
     (case static_handler env (Some app) req h of Some r \<Rightarrow> r | None \<Rightarrow> (zero_response, h))"

definition mnet_static ::
  "environment \<Rightarrow> 'w mnet_app option \<Rightarrow> string option \<Rightarrow> string option \<Rightarrow> alloc \<Rightarrow> 'w mnet_app option \<times> alloc" where
  "mnet_static env app url_prefix fs_path al =
     (case (app, url_prefix, fs_path) of
        (Some a, Some u, Some f) \<Rightarrow>
          (case grow_routes a al of
             (None, al1) \<Rightarrow> (Some a, al1)
           | (Some a1, al1) \<Rightarrow>
               (case malloc al1 of
                  (False, al2) \<Rightarrow> (Some a1, al2)
                | (True, al2) \<Rightarrow>
                    let (ok1, al3) = malloc al2;
                        (ok2, al4) = malloc al3
                    in if \<not> ok1 \<or> \<not> ok2 then (Some a1, al4)
                       else
                         (case malloc al4 of
                            (False, al5) \<Rightarrow> (Some a1, al5)
                          | (True, al5) \<Rightarrow>
                              let r = \<lparr>rt_method = MNET_HTTP_GET, rt_path = Some (snprintf_out 2048 (u @ ''/*'')),
                                       rt_handler = static_route_handler env a1, rt_param_names = None,
                                       rt_user_data = Some \<lparr>sc_url_prefix = u, sc_fs_path = f\<rparr>,
                                       rt_path_allocated = True\<rparr>
                              in (Some ((put_route a1 r)\<lparr>app_route_count := app_route_count a1 + 1\<rparr>), al5))))
      | _ \<Rightarrow> (app, al))"

section \<open>Lifecycle and configuration\<close>

definition zero_app :: "'w mnet_app" where
  "zero_app =
     \<lparr>app_routes = [], app_route_count = 0, app_route_capacity = 0, app_running = False, app_debug = False,
      app_dev = False, app_https = False, app_port = 0, app_not_found_handler = None, app_middleware = None,
      app_timeout_seconds = 0, app_max_connections = 0, app_keep_alive_timeout = 0, app_max_body_size = 0,
      app_log_handler = None, app_workers = 0, app_active_connections = 0\<rparr>"

definition mnet_create :: "alloc \<Rightarrow> 'w mnet_app option \<times> alloc" where
  "mnet_create al =
     (case malloc al of
        (False, al') \<Rightarrow> (None, al')
      | (True, al') \<Rightarrow>
          (Some (zero_app\<lparr>app_timeout_seconds := MNET_DEFAULT_TIMEOUT,
                          app_keep_alive_timeout := MNET_DEFAULT_KEEP_ALIVE_TIMEOUT,
                          app_workers := MNET_DEFAULT_WORKERS\<rparr>), al'))"

definition mnet_set_debug :: "bool \<Rightarrow> 'w mnet_app option \<Rightarrow> 'w mnet_app option" where
  "mnet_set_debug enabled = map_option (app_debug_update (\<lambda>_. enabled))"

definition mnet_set_not_found_handler :: "'w handler option \<Rightarrow> 'w mnet_app option \<Rightarrow> 'w mnet_app option" where
  "mnet_set_not_found_handler f = map_option (app_not_found_handler_update (\<lambda>_. f))"

definition mnet_use :: "'w middleware option \<Rightarrow> 'w mnet_app option \<Rightarrow> 'w mnet_app option" where
  "mnet_use f = map_option (app_middleware_update (\<lambda>_. f))"

definition mnet_set_timeout :: "int \<Rightarrow> 'w mnet_app option \<Rightarrow> 'w mnet_app option" where
  "mnet_set_timeout seconds =
     map_option (app_timeout_seconds_update (\<lambda>_. if seconds = 0 then MNET_DEFAULT_TIMEOUT else seconds))"

definition mnet_set_workers :: "int \<Rightarrow> 'w mnet_app option \<Rightarrow> 'w mnet_app option" where
  "mnet_set_workers workers =
     (let w0 = (if workers = 0 then MNET_DEFAULT_WORKERS else workers);
          w1 = (if w0 < 0 then 1 else w0);
          w2 = (if w1 > MNET_MAX_WORKERS then MNET_MAX_WORKERS else w1)
      in map_option (app_workers_update (\<lambda>_. w2)))"

definition mnet_set_log_handler ::
  "'w log_handler option \<Rightarrow> 'w mnet_app option \<Rightarrow> 'w host \<Rightarrow> 'w mnet_app option \<times> 'w host" where
  "mnet_set_log_handler f app h =
     (map_option (app_log_handler_update (\<lambda>_. f)) app, mnet_log_set_handler f h)"

definition mnet_set_https :: "bool \<Rightarrow> 'w mnet_app option \<Rightarrow> 'w mnet_app option" where
  "mnet_set_https enabled = map_option (app_https_update (\<lambda>_. enabled))"

definition mnet_set_dev_mode :: "bool \<Rightarrow> 'w mnet_app option \<Rightarrow> 'w mnet_app option" where
  "mnet_set_dev_mode enabled = map_option (app_dev_update (\<lambda>_. enabled))"

definition mnet_set_max_connections :: "int \<Rightarrow> 'w mnet_app option \<Rightarrow> 'w mnet_app option" where
  "mnet_set_max_connections n = map_option (app_max_connections_update (\<lambda>_. n))"

definition mnet_set_keep_alive_timeout :: "int \<Rightarrow> 'w mnet_app option \<Rightarrow> 'w mnet_app option" where
  "mnet_set_keep_alive_timeout seconds =
     map_option (app_keep_alive_timeout_update
       (\<lambda>_. if seconds = 0 then MNET_DEFAULT_KEEP_ALIVE_TIMEOUT else seconds))"

definition mnet_set_max_body_size :: "size_t \<Rightarrow> 'w mnet_app option \<Rightarrow> 'w mnet_app option" where
  "mnet_set_max_body_size n = map_option (app_max_body_size_update (\<lambda>_. n))"

definition mnet_stop :: "'w mnet_app option \<Rightarrow> int \<times> 'w mnet_app option" where
  "mnet_stop app =
     (case app of None \<Rightarrow> (-1, None) | Some a \<Rightarrow> (0, Some (a\<lparr>app_running := False\<rparr>)))"

text \<open>\<open>free_route\<close>: what is left of the route, and the blocks passed to \<open>free\<close>, in order.\<close>

datatype block =
    Name string | Name_array | Path string | Prefix string | Fs_path string | Config | Route_array | App_struct

definition free_route :: "'w mnet_route \<Rightarrow> 'w mnet_route \<times> block list" where
  "free_route r =
     (r\<lparr>rt_param_names := None,
        rt_path := (if rt_path_allocated r then None else rt_path r),
        rt_path_allocated := False,
        rt_user_data := None\<rparr>,
      (case rt_param_names r of None \<Rightarrow> [] | Some ns \<Rightarrow> map Name ns @ [Name_array]) @
      (if rt_path_allocated r then (case rt_path r of Some p \<Rightarrow> [Path p] | None \<Rightarrow> []) else []) @
      (case rt_user_data r of
         None \<Rightarrow> []
       | Some cfg \<Rightarrow> [Prefix (sc_url_prefix cfg), Fs_path (sc_fs_path cfg), Config]))"

definition registered :: "'w mnet_app \<Rightarrow> 'w mnet_route list" where
  "registered app = map the (take (app_route_count app) (app_routes app))"

definition mnet_destroy :: "'w mnet_app option \<Rightarrow> block list" where
  "mnet_destroy app =
     (case app of
        None \<Rightarrow> []
      | Some a \<Rightarrow> concat (map (snd \<circ> free_route) (registered a)) @ [Route_array, App_struct])"

section \<open>The route array\<close>

text \<open>
  The invariant: the array has the capacity it claims, the count lies within it, and every counted
  entry has been written with a path.
\<close>

definition wf_app :: "'w mnet_app \<Rightarrow> bool" where
  "wf_app app \<longleftrightarrow>
     length (app_routes app) = app_route_capacity app \<and> app_route_count app \<le> app_route_capacity app \<and>
     (\<forall>i<app_route_count app. \<exists>r. app_routes app ! i = Some r \<and> rt_path r \<noteq> None)"

lemma wf_zero_app: "wf_app zero_app" "registered zero_app = []"
  by (simp_all add: wf_app_def zero_app_def registered_def)

lemma grow_routes_wf:
  assumes "wf_app a" "grow_routes a al = (Some a1, al1)"
  shows "length (app_routes a1) = app_route_capacity a1 \<and> app_route_count a1 < app_route_capacity a1 \<and>
    app_route_count a1 = app_route_count a \<and> registered a1 = registered a \<and>
    (\<forall>i<app_route_count a1. \<exists>r. app_routes a1 ! i = Some r \<and> rt_path r \<noteq> None)"
  using assms
  by (auto simp: grow_routes_def wf_app_def registered_def nth_append Let_def
      split: if_splits prod.splits bool.splits)

lemma registered_put:
  assumes "length (app_routes a) = app_route_capacity a" "app_route_count a < app_route_capacity a"
  shows "registered ((put_route a r)\<lparr>app_route_count := app_route_count a + 1\<rparr>) = registered a @ [r]"
    and "registered (put_route a r) = registered a"
  using assms by (simp_all add: registered_def put_route_def take_Suc_conv_app_nth)

lemma wf_put:
  assumes "length (app_routes a) = app_route_capacity a" "app_route_count a < app_route_capacity a"
    and "\<forall>i<app_route_count a. \<exists>r. app_routes a ! i = Some r \<and> rt_path r \<noteq> None" "rt_path r \<noteq> None"
  shows "wf_app ((put_route a r)\<lparr>app_route_count := app_route_count a + 1\<rparr>)" "wf_app (put_route a r)"
  using assms by (auto simp: wf_app_def put_route_def nth_list_update less_Suc_eq)

lemma wf_grow:
  assumes "wf_app a" "grow_routes a al = (Some a1, al1)"
  shows "wf_app a1"
  using grow_routes_wf [OF assms] by (simp add: wf_app_def)

text \<open>The route a registration stands for.\<close>

definition new_route :: "mnet_http_method \<Rightarrow> string \<Rightarrow> 'w handler \<Rightarrow> string list \<Rightarrow> 'w mnet_route" where
  "new_route meth p f names =
     \<lparr>rt_method = meth, rt_path = Some p, rt_handler = f,
      rt_param_names = (if names = [] then None else Some names), rt_user_data = None, rt_path_allocated = False\<rparr>"

text \<open>The names in a pattern, without the allocations.\<close>

function pattern_names :: "nat \<Rightarrow> string \<Rightarrow> string list" where
  "pattern_names k p =
     (case p of
        [] \<Rightarrow> []
      | c # cs \<Rightarrow>
          if c = CHR '':'' then
            (let start = takeWhile (\<lambda>c. c \<noteq> CHR ''/'' \<and> c \<noteq> CHR ''.'') cs
             in (if start = [] then snprintf_out 16 (CHR ''_'' # show_nat k) else start) #
                pattern_names (Suc k) (dropWhile (\<lambda>c. c \<noteq> CHR ''/'' \<and> c \<noteq> CHR ''.'') cs))
          else if c = CHR ''*'' then [''*'']
          else pattern_names k cs)"
  by pat_completeness auto
termination
  by (relation "measure (\<lambda>(k, p). length p)") (auto simp: less_Suc_eq_le length_dropWhile_le)

declare pattern_names.simps [simp del]

lemma malloc_cases:
  obtains "malloc al = (True, snd (malloc al))" | "malloc al = (False, snd (malloc al))" "False \<in> set al"
  by (cases al) auto

lemma malloc_rest: "False \<in> set (snd (malloc al)) \<Longrightarrow> False \<in> set al"
  by (cases al) auto

lemma malloc_oom_set: "\<not> fst (malloc al) \<Longrightarrow> False \<in> set al"
  by (cases al) auto

lemma param_names_loop_spec:
  "(\<exists>al'. param_names_loop p names al = (Some (names @ pattern_names (length names) p), al')) \<or>
   (\<exists>al'. param_names_loop p names al = (None, al')) \<and> False \<in> set al"
proof (induction p names al rule: param_names_loop.induct)
  case (1 p names al)
  show ?case
  proof (cases p)
    case Nil
    then show ?thesis
      by (simp add: param_names_loop.simps [of "[]"] pattern_names.simps [of _ "[]"])
  next
    case (Cons c cs)
    note U = param_names_loop.simps [of "c # cs" names al]
      and N = pattern_names.simps [of "length names" "c # cs"]
    obtain b1 al1 b2 al2 where m: "malloc al = (b1, al1)" "malloc al1 = (b2, al2)" by (metis surj_pair)
    have o: "\<not> (b1 \<and> b2) \<Longrightarrow> False \<in> set al" "False \<in> set al2 \<Longrightarrow> False \<in> set al"
      using m malloc_rest [of al] malloc_rest [of al1] malloc_oom_set [of al] malloc_oom_set [of al1] by auto
    show ?thesis
    proof (cases "c = CHR '':'' \<or> c = CHR ''*''")
      case False
      with Cons 1(2) [OF Cons] show ?thesis by (simp add: U N)
    next
      case special: True
      show ?thesis
      proof (cases "b1 \<and> b2")
        case False
        then have "\<exists>al'. param_names_loop p names al = (None, al')"
          using special Cons m by (cases b1) (auto simp: U Let_def)
        with o(1) False show ?thesis by blast
      next
        case True
        then have t: "malloc al = (True, al1)" "malloc al1 = (True, al2)" using m by auto
        show ?thesis
        proof (cases "c = CHR '':''")
          case False
          with special t show ?thesis unfolding Cons U N by simp
        next
          case colon: True
          let ?start = "takeWhile (\<lambda>c. c \<noteq> CHR ''/'' \<and> c \<noteq> CHR ''.'') cs"
            and ?rest = "dropWhile (\<lambda>c. c \<noteq> CHR ''/'' \<and> c \<noteq> CHR ''.'') cs"
          let ?name = "if ?start = [] then snprintf_out 16 (CHR ''_'' # show_nat (length names)) else ?start"
          have "param_names_loop p names al = param_names_loop ?rest (names @ [?name]) al2"
            unfolding Cons U using t colon by (simp add: Let_def)
          moreover have "pattern_names (length names) p = ?name # pattern_names (Suc (length names)) ?rest"
            unfolding Cons N using colon by (simp add: Let_def)
          ultimately show ?thesis
            using 1(1) [OF Cons colon refl refl refl t(1) [symmetric] _ t(2) [symmetric]] o(2) by auto
        qed
      qed
    qed
  qed
qed

lemma mnet_add_route_outcome:
  assumes "wf_app a" "mnet_add_route (Some a) meth (Some p) (Some f) al = ((rc, app'), al')"
  obtains (ok) a' where "rc = 0" "app' = Some a'" "wf_app a'"
      "registered a' = registered a @ [new_route meth p f (pattern_names 0 p)]"
  | (oom) a' where "rc = -1" "app' = Some a'" "wf_app a'" "registered a' = registered a" "False \<in> set al"
proof (cases "grow_routes a al")
  case (Pair ga al1)
  show thesis
  proof (cases ga)
    case None
    then have "False \<in> set al"
      using Pair malloc_oom_set [of al] by (auto simp: grow_routes_def Let_def split: if_splits prod.splits bool.splits)
    with None Pair assms show thesis by (intro oom [of a]) (auto simp: mnet_add_route_def)
  next
    case (Some a1)
    note g = grow_routes_wf [OF assms(1) Pair [unfolded Some]]
    have al1: "False \<in> set al1 \<Longrightarrow> False \<in> set al"
      using Pair malloc_rest [of al] by (auto simp: grow_routes_def Let_def split: if_splits prod.splits bool.splits)
    let ?r = "new_route meth p f []"
    from param_names_loop_spec [of p "[]" al1] show thesis
    proof (elim disjE exE conjE)
      fix al2
      assume n: "param_names_loop p [] al1 = (Some ([] @ pattern_names (length []) p), al2)"
      let ?r' = "new_route meth p f (pattern_names 0 p)"
      let ?a' = "(put_route a1 ?r')\<lparr>app_route_count := app_route_count a1 + 1\<rparr>"
      have "rc = 0" "app' = Some ?a'"
        using assms(2) Pair Some n by (auto simp: mnet_add_route_def new_route_def)
      with g show thesis
        using wf_put(1) [of a1 ?r'] registered_put(1) [of a1 ?r']
        by (intro ok [of ?a']) (simp_all add: new_route_def)
    next
      fix al2
      assume n: "param_names_loop p [] al1 = (None, al2)" and "False \<in> set al1"
      then have "rc = -1" "app' = Some (put_route a1 ?r)"
        using assms(2) Pair Some n by (auto simp: mnet_add_route_def new_route_def)
      with g \<open>False \<in> set al1\<close> al1 show thesis
        using wf_put(2) [of a1 ?r] registered_put(2) [of a1 ?r]
        by (intro oom [of "put_route a1 ?r"]) (simp_all add: new_route_def)
    qed
  qed
qed

text \<open>
  Registering a route keeps the route array well formed (it always writes inside the
  allocation, also when the array grows) and appends exactly one route to those registered before,
  with the parameter names of its pattern; when an allocation fails it returns -1 and the
  registered routes are unchanged.
\<close>

theorem mnet_route_registers:
  assumes "wf_app a"
  shows "case mnet_route (Some a) meth (Some p) (Some f) al of
      ((rc, Some a'), al') \<Rightarrow>
        wf_app a' \<and>
        (rc = 0 \<and> registered a' = registered a @ [new_route meth p f (pattern_names 0 p)] \<or>
         rc = -1 \<and> registered a' = registered a \<and> False \<in> set al)
    | _ \<Rightarrow> False"
proof -
  obtain rc app' al' where r: "mnet_route (Some a) meth (Some p) (Some f) al = ((rc, app'), al')"
    by (metis surj_pair)
  then show ?thesis
    by (cases rule: mnet_add_route_outcome [OF assms r [unfolded mnet_route_def]]) auto
qed

theorem mnet_route_registers_witness:
  "case mnet_route (Some (zero_app :: unit mnet_app)) MNET_HTTP_GET (Some ''/u/:id'') (Some (\<lambda>rq h. (zero_response, h))) [] of
      ((rc, Some a'), al') \<Rightarrow> wf_app a' \<and> length (registered a') = 1
    | _ \<Rightarrow> False"
  using mnet_route_registers [of "zero_app :: unit mnet_app" MNET_HTTP_GET "''/u/:id''" "\<lambda>rq h. (zero_response, h)" "[]"]
  by (auto simp: wf_zero_app split: prod.splits option.splits)

text \<open>
  \<open>mnet_static\<close> registers at most one route, for GET and the prefix with everything below it.
\<close>

definition static_route :: "environment \<Rightarrow> 'w mnet_app \<Rightarrow> string \<Rightarrow> string \<Rightarrow> 'w mnet_route" where
  "static_route env app u f =
     \<lparr>rt_method = MNET_HTTP_GET, rt_path = Some (snprintf_out 2048 (u @ ''/*'')),
      rt_handler = static_route_handler env app, rt_param_names = None,
      rt_user_data = Some \<lparr>sc_url_prefix = u, sc_fs_path = f\<rparr>, rt_path_allocated = True\<rparr>"

lemma mnet_static_outcome:
  assumes "wf_app a" "mnet_static env (Some a) (Some u) (Some f) al = (app', al')"
  obtains a' a1 where "app' = Some a'" "wf_app a'"
    "registered a' = registered a @ [static_route env a1 u f] \<or> registered a' = registered a"
proof (cases "grow_routes a al")
  case (Pair ga al1)
  show thesis
  proof (cases ga)
    case None
    with Pair assms show thesis by (intro that [of a]) (auto simp: mnet_static_def)
  next
    case (Some a1)
    note g = grow_routes_wf [OF assms(1) Pair [unfolded Some]] and w = wf_grow [OF assms(1) Pair [unfolded Some]]
    let ?r = "static_route env a1 u f"
    let ?a' = "(put_route a1 ?r)\<lparr>app_route_count := app_route_count a1 + 1\<rparr>"
    have "app' = Some a1 \<or> app' = Some ?a'"
      using assms(2) Pair Some
      by (auto simp: mnet_static_def static_route_def Let_def split: prod.splits bool.splits if_splits)
    moreover have "wf_app ?a'" "registered ?a' = registered a @ [?r]"
      using wf_put(1) [of a1 ?r] registered_put(1) [of a1 ?r] g by (simp_all add: static_route_def)
    ultimately show thesis using w g that [of a1 a1] that [of ?a' a1] by auto
  qed
qed

section \<open>The registration interface\<close>

text \<open>Adding a list of entries one after the other.\<close>

fun add_all ::
  "('i \<Rightarrow> 's \<Rightarrow> alloc \<Rightarrow> (bool \<times> 's) \<times> alloc) \<Rightarrow> 'i list \<Rightarrow> 's \<Rightarrow> alloc \<Rightarrow> 's \<times> alloc" where
  "add_all add [] s al = (s, al)"
| "add_all add (i # is) s al = (case add i s al of ((ok, s'), al') \<Rightarrow> add_all add is s' al')"

text \<open>
  What a client of the application relies on: a table of routes that only registration changes,
  one route at a time, at the end.
\<close>

locale route_table =
  fixes inv :: "'s \<Rightarrow> bool"
    and routes_of :: "'s \<Rightarrow> 'r list"
    and add :: "'i \<Rightarrow> 's \<Rightarrow> alloc \<Rightarrow> (bool \<times> 's) \<times> alloc"
    and mk :: "'i \<Rightarrow> 'r"
  assumes inv_add: "inv s \<Longrightarrow> inv (snd (fst (add i s al)))"
    and routes_add: "inv s \<Longrightarrow>
      routes_of (snd (fst (add i s al))) = routes_of s @ (if fst (fst (add i s al)) then [mk i] else [])"
    and add_ok: "inv s \<Longrightarrow> False \<notin> set al \<Longrightarrow> fst (fst (add i s al)) \<and> False \<notin> set (snd (add i s al))"
begin

lemma add_all_inv: "inv s \<Longrightarrow> inv (fst (add_all add is s al))"
proof (induction "is" arbitrary: s al)
  case (Cons i "is")
  obtain ok s' al' where a: "add i s al = ((ok, s'), al')" by (metis surj_pair)
  with inv_add [OF Cons(2), of i al] have "inv s'" by simp
  with Cons.IH [of s' al'] a show ?case by simp
qed simp

lemma add_all_prefix: "inv s \<Longrightarrow> prefix (routes_of s) (routes_of (fst (add_all add is s al)))"
proof (induction "is" arbitrary: s al)
  case (Cons i "is")
  obtain ok s' al' where a: "add i s al = ((ok, s'), al')" by (metis surj_pair)
  have "prefix (routes_of s) (routes_of s')" "inv s'"
    using routes_add [OF Cons(2), of i al] inv_add [OF Cons(2), of i al] a by auto
  with Cons.IH [of s' al'] a show ?case by (auto intro: prefix_order.order_trans)
qed simp

lemma add_all_routes:
  "inv s \<Longrightarrow> False \<notin> set al \<Longrightarrow> routes_of (fst (add_all add is s al)) = routes_of s @ map mk is"
proof (induction "is" arbitrary: s al)
  case (Cons i "is")
  obtain ok s' al' where a: "add i s al = ((ok, s'), al')" by (metis surj_pair)
  have "routes_of s' = routes_of s @ [mk i]" "inv s'" "False \<notin> set al'"
    using routes_add [OF Cons(2), of i al] inv_add [OF Cons(2), of i al] add_ok [OF Cons(2,3), of i] a by auto
  with Cons.IH [of s' al'] a show ?case by simp
qed simp

end

type_synonym 'w registration = "mnet_http_method \<times> string \<times> 'w handler"

definition register :: "'w registration \<Rightarrow> 'w mnet_app \<Rightarrow> alloc \<Rightarrow> (bool \<times> 'w mnet_app) \<times> alloc" where
  "register i a al =
     (case i of (meth, p, f) \<Rightarrow>
        (case mnet_route (Some a) meth (Some p) (Some f) al of
           ((rc, app'), al') \<Rightarrow> ((rc = 0, case app' of Some a' \<Rightarrow> a' | None \<Rightarrow> a), al')))"

definition route_for :: "'w registration \<Rightarrow> 'w mnet_route" where
  "route_for i = (case i of (meth, p, f) \<Rightarrow> new_route meth p f (pattern_names 0 p))"

lemma malloc_subset: "malloc al = (b, al') \<Longrightarrow> set al' \<subseteq> set al"
  by (cases al) auto

lemma grow_subset: "grow_routes a al = (x, al') \<Longrightarrow> set al' \<subseteq> set al"
  using malloc_subset [of al] by (auto simp: grow_routes_def Let_def split: if_splits prod.splits bool.splits)

lemma param_names_subset: "param_names_loop p names al = (x, al') \<Longrightarrow> set al' \<subseteq> set al"
proof (induction p names al rule: param_names_loop.induct)
  case (1 p names al)
  obtain b1 al1 b2 al2 where m: "malloc al = (b1, al1)" "malloc al1 = (b2, al2)" by (metis surj_pair)
  note sub = malloc_subset [OF m(1)] malloc_subset [OF m(2)]
  show ?case
  proof (cases p)
    case Nil
    with 1(3) show ?thesis by (simp add: param_names_loop.simps [of "[]"])
  next
    case (Cons c cs)
    note U = param_names_loop.simps [of "c # cs" names al]
    consider (colon) "c = CHR '':''" "b1" "b2" | (stop) "c = CHR '':'' \<or> c = CHR ''*''" "c = CHR ''*'' \<or> \<not> b1 \<or> \<not> b2"
      | (skip) "c \<noteq> CHR '':''" "c \<noteq> CHR ''*''" by blast
    then show ?thesis
    proof cases
      case colon
      then have t: "malloc al = (True, al1)" "malloc al1 = (True, al2)" using m by auto
      from 1(3) have "set al' \<subseteq> set al2"
        unfolding Cons U using t colon
        by (intro 1(1) [OF Cons colon(1) refl refl refl t(1) [symmetric] _ t(2) [symmetric]]) (auto simp: Let_def)
      with sub show ?thesis by blast
    next
      case stop
      with 1(3) m have "al' = al1 \<or> al' = al2"
        unfolding Cons U by (cases b1; cases b2) (auto simp: Let_def)
      with sub show ?thesis by blast
    next
      case skip
      with 1(2) [OF Cons] 1(3) show ?thesis unfolding Cons U by simp
    qed
  qed
qed

lemma mnet_route_subset:
  "mnet_route (Some a) meth (Some p) (Some f) al = (r, al') \<Longrightarrow> set al' \<subseteq> set al"
  using grow_subset [of a al] param_names_subset [of p "[]"]
  by (fastforce simp: mnet_route_def mnet_add_route_def Let_def split: prod.splits option.splits)

interpretation routes: route_table wf_app registered register route_for
proof unfold_locales
  fix s :: "'w mnet_app" and i :: "'w registration" and al
  assume wf: "wf_app s"
  obtain meth p f where i: "i = (meth, p, f)" by (metis surj_pair)
  obtain rc app' al' where r: "mnet_route (Some s) meth (Some p) (Some f) al = ((rc, app'), al')"
    by (metis surj_pair)
  note out = mnet_add_route_outcome [OF wf r [unfolded mnet_route_def]]
  show "wf_app (snd (fst (register i s al)))"
    by (cases rule: out) (simp_all add: register_def i r)
  show "registered (snd (fst (register i s al))) =
      registered s @ (if fst (fst (register i s al)) then [route_for i] else [])"
    by (cases rule: out) (simp_all add: register_def i r route_for_def)
  assume "False \<notin> set al"
  then show "fst (fst (register i s al)) \<and> False \<notin> set (snd (register i s al))"
    using mnet_route_subset [OF r] by (cases rule: out) (auto simp: register_def i r)
qed

lemma mnet_create_wf: "mnet_create al0 = (Some a, al) \<Longrightarrow> wf_app a \<and> registered a = []"
  by (auto simp: mnet_create_def wf_app_def registered_def zero_app_def split: prod.splits bool.splits)

text \<open>
  Registering a list of routes on a new application, with no allocation failing, leaves
  exactly those routes registered, in the order of registration, however often the array had to
  grow on the way.
\<close>

theorem register_all:
  assumes "mnet_create al0 = (Some a, al)" "False \<notin> set al"
  shows "registered (fst (add_all register regs a al)) = map route_for regs \<and>
    wf_app (fst (add_all register regs a al))"
  using routes.add_all_routes [of a al regs] routes.add_all_inv [of a regs al] mnet_create_wf [OF assms(1)] assms(2)
  by simp

theorem register_all_witness:
  "\<exists>a :: unit mnet_app. mnet_create [] = (Some a, []) \<and>
     length (registered (fst (add_all register (replicate 9 (MNET_HTTP_GET, ''/'', \<lambda>rq h. (zero_response, h))) a []))) = 9"
proof -
  obtain a :: "unit mnet_app" where a: "mnet_create [] = (Some a, [])" by (simp add: mnet_create_def)
  from register_all [OF a, of "replicate 9 (MNET_HTTP_GET, ''/'', \<lambda>rq h. (zero_response, h))"] a show ?thesis
    by auto
qed

lemmas setter_defs =
  mnet_set_debug_def mnet_set_not_found_handler_def mnet_use_def mnet_set_timeout_def mnet_set_workers_def
  mnet_set_https_def mnet_set_dev_mode_def mnet_set_max_connections_def mnet_set_keep_alive_timeout_def
  mnet_set_max_body_size_def mnet_set_log_handler_def mnet_stop_def

definition same_routes :: "'w mnet_app \<Rightarrow> 'w mnet_app \<Rightarrow> bool" where
  "same_routes a b \<longleftrightarrow>
     app_routes a = app_routes b \<and> app_route_count a = app_route_count b \<and>
     app_route_capacity a = app_route_capacity b"

lemma wf_same_routes: "same_routes a' a \<Longrightarrow> wf_app a \<Longrightarrow> wf_app a' \<and> registered a' = registered a"
  by (simp add: same_routes_def wf_app_def registered_def)

text \<open>
  C31. Every operation of the application interface preserves the well-formedness of the route
  array, and the number of workers is kept between 1 and 64 by its setter whatever it is given.
\<close>

theorem app_operations_wf:
  assumes "wf_app a"
  shows "(\<forall>a'. snd (fst (mnet_route (Some a) meth p f al)) = Some a' \<longrightarrow> wf_app a') \<and>
    (\<forall>a'. fst (mnet_static env (Some a) u d al) = Some a' \<longrightarrow> wf_app a') \<and>
    (\<forall>op\<in>{mnet_set_debug b, mnet_set_not_found_handler nf, mnet_use mw, mnet_set_timeout n, mnet_set_workers n,
       mnet_set_https b, mnet_set_dev_mode b, mnet_set_max_connections n, mnet_set_keep_alive_timeout n,
       mnet_set_max_body_size sz, fst \<circ> (\<lambda>x. mnet_set_log_handler lh x h), snd \<circ> mnet_stop}.
       \<exists>a'. op (Some a) = Some a' \<and> wf_app a' \<and> registered a' = registered a) \<and>
    (\<exists>a'. mnet_set_workers n (Some a) = Some a' \<and> 1 \<le> app_workers a' \<and> app_workers a' \<le> 64)"
proof -
  have "wf_app a'" if "snd (fst (mnet_route (Some a) meth p f al)) = Some a'" for a'
  proof (cases "p = None \<or> f = None")
    case True
    with that assms show ?thesis by (auto simp: mnet_route_def mnet_add_route_def split: option.splits)
  next
    case False
    then obtain q g where pf: "p = Some q" "f = Some g" by auto
    obtain rc app' al' where r: "mnet_route (Some a) meth p f al = ((rc, app'), al')" by (metis surj_pair)
    show ?thesis
      using that by (cases rule: mnet_add_route_outcome [OF assms r [unfolded mnet_route_def pf]]) (simp_all add: r)
  qed
  moreover have "wf_app a'" if "fst (mnet_static env (Some a) u d al) = Some a'" for a'
  proof (cases "u = None \<or> d = None")
    case True
    with that assms show ?thesis by (auto simp: mnet_static_def split: option.splits)
  next
    case False
    then obtain v e where ud: "u = Some v" "d = Some e" by auto
    obtain app' al' where r: "mnet_static env (Some a) u d al = (app', al')" by (metis surj_pair)
    show ?thesis
      using that by (cases rule: mnet_static_outcome [OF assms r [unfolded ud]]) (simp_all add: r)
  qed
  moreover have "\<exists>a'. op (Some a) = Some a' \<and> wf_app a' \<and> registered a' = registered a"
    if "op \<in> {mnet_set_debug b, mnet_set_not_found_handler nf, mnet_use mw, mnet_set_timeout n, mnet_set_workers n,
       mnet_set_https b, mnet_set_dev_mode b, mnet_set_max_connections n, mnet_set_keep_alive_timeout n,
       mnet_set_max_body_size sz, fst \<circ> (\<lambda>x. mnet_set_log_handler lh x h), snd \<circ> mnet_stop}" for op
  proof -
    have "\<exists>a'. op (Some a) = Some a' \<and> same_routes a' a"
      using that unfolding insert_iff empty_iff
      by (elim disjE) (simp_all add: setter_defs same_routes_def Let_def comp_def)
    then show ?thesis using wf_same_routes [OF _ assms] by blast
  qed
  moreover have "\<exists>a'. mnet_set_workers n (Some a) = Some a' \<and> 1 \<le> app_workers a' \<and> app_workers a' \<le> 64"
    by (simp add: mnet_set_workers_def Let_def)
  ultimately show ?thesis by blast
qed

theorem app_operations_wf_witness:
  "\<exists>a'. mnet_set_workers 1000 (Some (zero_app :: unit mnet_app)) = Some a' \<and> 1 \<le> app_workers a' \<and> app_workers a' \<le> 64"
  using app_operations_wf [of "zero_app :: unit mnet_app"] wf_zero_app(1) by blast

text \<open>
  \<open>free_route\<close> releases a route once: a second call releases nothing, so destroying an
  application after a route was freed cannot free its parts again.
\<close>

theorem free_route_once: "snd (free_route (fst (free_route r))) = [] \<and> fst (free_route (fst (free_route r))) = fst (free_route r)"
  by (simp add: free_route_def)

section \<open>Names and captures\<close>

text \<open>A parameter name as a route author writes it, and a wildcard only at the end.\<close>

fun seg_named :: "seg_pat \<Rightarrow> bool" where
  "seg_named (Param nm) = (set nm \<inter> set ''/:*'' = {})"
| "seg_named s = seg_ok s"

fun seg_names :: "nat \<Rightarrow> seg_pat list \<Rightarrow> string list" where
  "seg_names k [] = []"
| "seg_names k (Lit l # ss) = seg_names k ss"
| "seg_names k (Param nm # ss) =
     (let n = takeWhile (\<lambda>c. c \<noteq> CHR ''.'') nm
      in (if n = [] then snprintf_out 16 (CHR ''_'' # show_nat k) else n)) # seg_names (Suc k) ss"
| "seg_names k (Wild # ss) = [''*'']"

definition seg_captures :: "seg_pat list \<Rightarrow> nat" where
  "seg_captures segs = length (filter (\<lambda>s. \<forall>l. s \<noteq> Lit l) segs)"

lemma pattern_names_plain:
  "set l \<inter> set '':*'' = {} \<Longrightarrow> pattern_names k (l @ r) = pattern_names k r"
  by (induction l) (auto simp: pattern_names.simps [of k "_ # _"])

lemma pattern_names_tail: "pattern_names k (tail_of ps) = pattern_names k (join_slash ps)"
  by (cases ps) (auto simp: tail_of_def pattern_names.simps [of k "CHR ''/'' # _"])

lemma pattern_params_plain:
  "set l \<inter> set '':*'' = {} \<Longrightarrow> pattern_params (l @ r) = pattern_params r"
  by (induction l) (auto simp: pattern_params_Cons)

lemma pattern_params_tail: "pattern_params (tail_of ps) = pattern_params (join_slash ps)"
  by (cases ps) (auto simp: tail_of_def pattern_params_Cons)

lemma name_end:
  assumes "CHR ''/'' \<notin> set nm"
  shows "takeWhile (\<lambda>c. c \<noteq> CHR ''/'' \<and> c \<noteq> CHR ''.'') (nm @ tail_of ps) = takeWhile (\<lambda>c. c \<noteq> CHR ''.'') nm"
    and "dropWhile (\<lambda>c. c \<noteq> CHR ''/'' \<and> c \<noteq> CHR ''.'') (nm @ tail_of ps) = dropWhile (\<lambda>c. c \<noteq> CHR ''.'') nm @ tail_of ps"
  using assms tail_of_cases [of ps] by (induction nm) auto

lemma pattern_names_param:
  assumes "set nm \<inter> set ''/:*'' = {}"
  shows "pattern_names k (CHR '':'' # nm @ tail_of ps) =
    (let n = takeWhile (\<lambda>c. c \<noteq> CHR ''.'') nm
     in (if n = [] then snprintf_out 16 (CHR ''_'' # show_nat k) else n)) # pattern_names (Suc k) (join_slash ps)"
proof -
  have nm: "CHR ''/'' \<notin> set nm" and sub: "set (dropWhile (\<lambda>c. c \<noteq> CHR ''.'') nm) \<inter> set '':*'' = {}"
    using assms by (auto dest: set_dropWhileD)
  show ?thesis
    by (simp add: pattern_names.simps [of k "CHR '':'' # _"] name_end [OF nm] Let_def
        pattern_names_plain [OF sub] pattern_names_tail)
qed

lemma pattern_names_segs:
  assumes "\<forall>s\<in>set segs. seg_named s" "Wild \<notin> set (butlast segs)"
  shows "pattern_names k (join_slash (map seg_text segs)) = seg_names k segs"
    and "pattern_params (join_slash (map seg_text segs)) = seg_captures segs"
    and "length (seg_names k segs) = seg_captures segs"
proof -
  show "pattern_names k (join_slash (map seg_text segs)) = seg_names k segs"
    using assms
  proof (induction k segs rule: seg_names.induct)
    case (2 k l ss)
    then have "set l \<inter> set '':*'' = {}" "Wild \<notin> set (butlast ss)" by (auto split: if_splits)
    with 2 show ?case by (simp add: join_slash_Cons pattern_names_plain pattern_names_tail)
  next
    case (3 k nm ss)
    then have "Wild \<notin> set (butlast ss)" by (auto split: if_splits)
    with 3 show ?case by (simp add: join_slash_Cons pattern_names_param)
  next
    case (4 k ss)
    then show ?case by (simp add: join_slash_Cons pattern_names.simps [of k "CHR ''*'' # _"])
  qed (simp add: pattern_names.simps)
  show "pattern_params (join_slash (map seg_text segs)) = seg_captures segs"
    using assms
  proof (induction k segs rule: seg_names.induct)
    case (2 k l ss)
    then have "set l \<inter> set '':*'' = {}" "Wild \<notin> set (butlast ss)" by (auto split: if_splits)
    with 2 show ?case by (simp add: join_slash_Cons pattern_params_plain pattern_params_tail seg_captures_def)
  next
    case (3 k nm ss)
    then have "CHR ''/'' \<notin> set nm" "Wild \<notin> set (butlast ss)" by (auto split: if_splits)
    with 3 show ?case
      by (simp add: join_slash_Cons pattern_params_Cons segment_end(2) seg_captures_def)
  next
    case (4 k ss)
    then have "ss = []" by (cases ss) auto
    then show ?case by (simp add: pattern_params_Cons seg_captures_def pattern_params.simps [of "[]"])
  qed (simp add: pattern_params.simps seg_captures_def)
  show "length (seg_names k segs) = seg_captures segs"
    using assms
  proof (induction k segs rule: seg_names.induct)
    case (4 k ss)
    then have "ss = []" by (cases ss) auto
    then show ?case by (simp add: seg_captures_def)
  qed (auto simp: seg_captures_def split: if_splits)
qed

end
