(* ===== verification/Net_IO.thy ===== *)
theory Net_IO
  imports Mnet_Types
begin

text \<open>
  Waiting for and receiving bytes: \<open>mnet_poll\<close> of \<^verbatim>\<open>src/mnet_internal.h\<close> and \<open>mnet_recv\<close> of
  \<^verbatim>\<open>src/mnet.c\<close> on a connection whose peer follows a script, and the two facts the deadline
  loops of the parser, the server and the client rest on: no call waits beyond the time it was
  given, and the bytes received are the next bytes of the peer's stream.
\<close>

section \<open>Definitions\<close>

fun event_delay :: "net_event \<Rightarrow> nat" where
  "event_delay (Data d xs) = d"
| "event_delay (Eof d) = d"
| "event_delay (Poll_err d) = d"
| "event_delay (Recv_err d) = d"

fun set_delay :: "nat \<Rightarrow> net_event \<Rightarrow> net_event" where
  "set_delay k (Data d xs) = Data k xs"
| "set_delay k (Eof d) = Eof k"
| "set_delay k (Poll_err d) = Poll_err k"
| "set_delay k (Recv_err d) = Recv_err k"

fun is_poll_err :: "net_event \<Rightarrow> bool" where
  "is_poll_err (Poll_err d) = True"
| "is_poll_err e = False"

text \<open>The result is that of \<open>poll\<close>: 0 on timeout, -1 on failure, 1 when the socket is readable.\<close>

definition mnet_poll :: "int \<Rightarrow> conn \<Rightarrow> int \<times> conn" where
  "mnet_poll timeout_ms c =
     (case c_inbox c of
        [] \<Rightarrow> (0, c\<lparr>c_clock := c_clock c + timeout_ms\<rparr>)
      | e # es \<Rightarrow>
          if timeout_ms < int (event_delay e) then
            (0, c\<lparr>c_clock := c_clock c + timeout_ms,
                  c_inbox := set_delay (event_delay e - nat timeout_ms) e # es\<rparr>)
          else
            (if is_poll_err e then -1 else 1,
             c\<lparr>c_clock := c_clock c + int (event_delay e), c_inbox := set_delay 0 e # es\<rparr>))"

text \<open>
  \<open>recv\<close> of at most \<open>room\<close> bytes after a successful \<open>poll\<close>: \<open>None\<close> is -1, the empty block is the
  0 of a closed connection, and what does not fit stays for the next call.
\<close>

definition mnet_recv :: "nat \<Rightarrow> conn \<Rightarrow> bytes option \<times> conn" where
  "mnet_recv room c =
     (case c_inbox c of
        Data d xs # es \<Rightarrow>
          (Some (take room xs),
           c\<lparr>c_inbox := if length xs \<le> room then es else Data 0 (drop room xs) # es\<rparr>)
      | Eof d # es \<Rightarrow> (Some [], c)
      | _ \<Rightarrow> (None, c))"

section \<open>The peer's stream\<close>

text \<open>The bytes the peer still sends, up to its close or the first failure.\<close>

fun stream_of :: "net_event list \<Rightarrow> bytes" where
  "stream_of (Data d xs # es) = (if xs = [] then [] else xs @ stream_of es)"
| "stream_of _ = []"

definition stream :: "conn \<Rightarrow> bytes" where "stream c = stream_of (c_inbox c)"

lemma stream_send [simp]: "stream (mnet_send b c) = stream c"
  by (simp add: stream_def)

lemma stream_of_set_delay [simp]: "stream_of (set_delay k e # es) = stream_of (e # es)"
  by (cases e) auto

lemma mnet_poll_facts:
  assumes "mnet_poll left c = (pr, c')" "0 \<le> left"
  shows "stream c' = stream c" and "c_sent c' = c_sent c"
    and "c_clock c \<le> c_clock c'" and "c_clock c' \<le> c_clock c + left"
  using assms by (auto simp: mnet_poll_def stream_def split: list.splits if_splits)

lemma mnet_recv_facts:
  assumes "mnet_recv room c = (Some xs, c')"
  shows "c_sent c' = c_sent c" and "c_clock c' = c_clock c" and "length xs \<le> room"
    and "xs \<noteq> [] \<Longrightarrow> stream c = xs @ stream c'"
proof -
  show "c_sent c' = c_sent c" "c_clock c' = c_clock c" "length xs \<le> room"
    using assms by (auto simp: mnet_recv_def split: list.splits net_event.splits)
  assume "xs \<noteq> []"
  with assms obtain d ys es where i: "c_inbox c = Data d ys # es" "xs = take room ys"
    "c_inbox c' = (if length ys \<le> room then es else Data 0 (drop room ys) # es)"
    by (auto simp: mnet_recv_def split: list.splits net_event.splits)
  then show "stream c = xs @ stream c'" using \<open>xs \<noteq> []\<close> by (auto simp: stream_def)
qed

lemma mnet_recv_None:
  "mnet_recv room c = (None, c') \<Longrightarrow> c' = c"
  by (auto simp: mnet_recv_def split: list.splits net_event.splits)

text \<open>The delay before a script has delivered its data.\<close>

fun total_delay :: "net_event list \<Rightarrow> nat" where
  "total_delay [] = 0"
| "total_delay (e # es) = event_delay e + total_delay es"

text \<open>A script of non-empty data events only.\<close>

fun data_only :: "net_event list \<Rightarrow> bool" where
  "data_only [] = True"
| "data_only (Data d xs # es) = (xs \<noteq> [] \<and> data_only es)"
| "data_only _ = False"

lemma mnet_poll_data:
  assumes "data_only (c_inbox c)" "int (total_delay (c_inbox c)) \<le> left" "stream c \<noteq> []"
  obtains c' where "mnet_poll left c = (1, c')" "data_only (c_inbox c')" "c_inbox c' \<noteq> []"
    "c_clock c' + int (total_delay (c_inbox c')) = c_clock c + int (total_delay (c_inbox c))"
    "stream c' = stream c"
proof -
  obtain d xs es where i: "c_inbox c = Data d xs # es" "xs \<noteq> []" "data_only es"
    using assms(1,3) by (cases "c_inbox c" rule: data_only.cases) (auto simp: stream_def)
  with assms(2) show thesis
    by (intro that [of "c\<lparr>c_clock := c_clock c + int d, c_inbox := Data 0 xs # es\<rparr>"])
      (auto simp: mnet_poll_def stream_def)
qed

lemma mnet_recv_data:
  assumes "data_only (c_inbox c)" "c_inbox c \<noteq> []" "0 < room"
  obtains xs c' where "mnet_recv room c = (Some xs, c')" "xs \<noteq> []" "data_only (c_inbox c')"
    "total_delay (c_inbox c') \<le> total_delay (c_inbox c)" "c_clock c' = c_clock c"
    "stream c = xs @ stream c'"
proof -
  obtain d xs es where i: "c_inbox c = Data d xs # es" "xs \<noteq> []" "data_only es"
    using assms(1,2) by (cases "c_inbox c" rule: data_only.cases) auto
  let ?c = "c\<lparr>c_inbox := if length xs \<le> room then es else Data 0 (drop room xs) # es\<rparr>"
  have "mnet_recv room c = (Some (take room xs), ?c)" using i by (simp add: mnet_recv_def)
  moreover have "take room xs \<noteq> []" using i assms(3) by simp
  ultimately show thesis
    using i mnet_recv_facts(4) [of room c "take room xs" ?c]
    by (intro that [of "take room xs" ?c]) auto
qed

text \<open>The number of bytes a script still delivers: what bounds the work left on a connection.\<close>

fun event_bytes :: "net_event \<Rightarrow> nat" where
  "event_bytes (Data d xs) = length xs"
| "event_bytes _ = 0"

definition inbox_bytes :: "conn \<Rightarrow> nat" where
  "inbox_bytes c = sum_list (map event_bytes (c_inbox c))"

lemma inbox_bytes_send [simp]: "inbox_bytes (mnet_send b c) = inbox_bytes c"
  by (simp add: inbox_bytes_def)

lemma event_bytes_set_delay [simp]: "event_bytes (set_delay k e) = event_bytes e"
  by (cases e) auto

lemma poll_bytes: "mnet_poll left c = (pr, c') \<Longrightarrow> inbox_bytes c' = inbox_bytes c"
  by (auto simp: mnet_poll_def inbox_bytes_def split: list.splits if_splits)

lemma recv_bytes: "mnet_recv room c = (Some xs, c') \<Longrightarrow> inbox_bytes c = length xs + inbox_bytes c'"
  by (auto simp: mnet_recv_def inbox_bytes_def split: list.splits net_event.splits if_splits)

end
