(* ===== verification/Parse.thy ===== *)
theory Parse
  imports Net_IO Url_Codec Request
begin

text \<open>
  Request parsing, from \<^verbatim>\<open>src/mnet_parse.c\<close>: the request line, the header block, the body
  announced by \<open>Content-Length\<close>, cookies and the query string. A buffer is the list of the bytes
  received; the routines of the C library read it as the string up to its first NUL
  (\<open>c_string\<close>). Allocations follow the allocation script, and waiting for the rest of a body
  follows the peer's script on the connection.
\<close>

section \<open>Method and request line\<close>

definition mnet_parse_method :: "string \<Rightarrow> mnet_http_method option" where
  "mnet_parse_method m =
     (if m = ''GET'' then Some MNET_HTTP_GET
      else if m = ''POST'' then Some MNET_HTTP_POST
      else if m = ''PUT'' then Some MNET_HTTP_PUT
      else if m = ''PATCH'' then Some MNET_HTTP_PATCH
      else if m = ''DELETE'' then Some MNET_HTTP_DELETE
      else if m = ''HEAD'' then Some MNET_HTTP_HEAD
      else if m = ''OPTIONS'' then Some MNET_HTTP_OPTIONS
      else None)"

text \<open>
  \<open>sep ? sep : (sep2 ? sep2 : NULL)\<close>: the offset of the end of the header block and the length of
  the separator found there.
\<close>

definition end_of_headers :: "string \<Rightarrow> (nat \<times> nat) option" where
  "end_of_headers s =
     (case strstr s CRLF2 of
        Some i \<Rightarrow> Some (i, 4)
      | None \<Rightarrow> (case strstr s LF2 of Some i \<Rightarrow> Some (i, 2) | None \<Rightarrow> None))"

text \<open>The result code, and what \<open>sscanf\<close> left in \<open>method_out\<close> and \<open>path_out\<close>.\<close>

definition parse_raw_request :: "string \<Rightarrow> int \<times> string \<times> string" where
  "parse_raw_request buffer =
     (case end_of_headers buffer of
        None \<Rightarrow> (-1, [], [])
      | Some (i, _) \<Rightarrow>
          if LF \<notin> set (take i buffer) then (-1, [], [])
          else
            (case scan_word 15 buffer of
               None \<Rightarrow> (-1, [], [])
             | Some (m, rest) \<Rightarrow>
                 (case scan_word 2047 rest of
                    None \<Rightarrow> (-1, m, [])
                  | Some (p, _) \<Rightarrow> (0, m, p))))"

section \<open>Query string\<close>

text \<open>\<open>strdup\<close>: the copy, or NULL.\<close>

definition strdup :: "string \<Rightarrow> alloc \<Rightarrow> string option \<times> alloc" where
  "strdup s al = (case malloc al of (ok, al') \<Rightarrow> (if ok then Some s else None, al'))"

text \<open>The string left in an allocation of exactly its size by \<open>mnet_url_decode(s, strlen(s) + 1, s)\<close>.\<close>

definition decode_in_place :: "string \<Rightarrow> string option" where
  "decode_in_place s =
     map_option (\<lambda>(n, m). c_string m) (mnet_url_decode (s @ [NUL]) (Some 0) (length s + 1) (Some 0))"

definition split_at_char :: "char \<Rightarrow> string \<Rightarrow> string \<times> string" where
  "split_at_char c t =
     (case strchr t c of Some i \<Rightarrow> (take i t, drop (i + 1) t) | None \<Rightarrow> (t, []))"

text \<open>
  An array pair and its count as the parsers return them: both arrays NULL with count 0, or both
  allocated and filled up to the count. Undefined behaviour of the in-place decoding would make
  the outer result \<open>None\<close>.
\<close>

type_synonym pair_arrays = "string list option \<times> string list option \<times> nat"

abbreviation no_pairs :: pair_arrays where "no_pairs \<equiv> (None, None, 0)"

function query_loop ::
  "nat \<Rightarrow> string \<Rightarrow> string list \<Rightarrow> string list \<Rightarrow> alloc \<Rightarrow> ((int \<times> pair_arrays) \<times> alloc) option" where
  "query_loop count s names vals al =
     (case strtok_r ''&'' s of
        None \<Rightarrow> Some ((0, Some names, Some vals, length names), al)
      | Some (token, rest) \<Rightarrow>
          if \<not> length names < count then Some ((0, Some names, Some vals, length names), al)
          else
            let (n, v) = split_at_char CHR ''='' token;
                (n', al1) = strdup n al;
                (v', al2) = strdup v al1
            in if n' = None \<or> v' = None then Some ((-1, no_pairs), al2)
               else if length n > MNET_MAX_QUERY_NAME \<or> length v > MNET_MAX_QUERY_VALUE
               then Some ((-1, no_pairs), al2)
               else
                 (case (decode_in_place n, decode_in_place v) of
                    (Some dn, Some dv) \<Rightarrow> query_loop count rest (names @ [dn]) (vals @ [dv]) al2
                  | _ \<Rightarrow> None))"
  by pat_completeness auto
termination
  by (relation "measure (\<lambda>(count, s, names, vals, al). length s)") (auto dest: strtok_r_shrink)

declare query_loop.simps [simp del]

definition parse_query_string :: "string option \<Rightarrow> alloc \<Rightarrow> ((int \<times> pair_arrays) \<times> alloc) option" where
  "parse_query_string qs al =
     (case qs of
        None \<Rightarrow> Some ((0, no_pairs), al)
      | Some s \<Rightarrow>
          if s = [] then Some ((0, no_pairs), al)
          else
            let count = min (1 + length (filter (\<lambda>c. c = CHR ''&'') s)) MNET_MAX_QUERY;
                (a, al1) = malloc al;
                (b, al2) = malloc al1
            in if \<not> a \<or> \<not> b then Some ((-1, no_pairs), al2)
               else
                 (case malloc al2 of
                    (False, al3) \<Rightarrow> Some ((-1, no_pairs), al3)
                  | (True, al3) \<Rightarrow> query_loop count s [] [] al3))"

section \<open>Headers\<close>

function headers_loop ::
  "string \<Rightarrow> string list \<Rightarrow> string list \<Rightarrow> alloc \<Rightarrow> (int \<times> pair_arrays) \<times> alloc" where
  "headers_loop s names vals al =
     (case strtok_r CRLF s of
        None \<Rightarrow> ((0, Some names, Some vals, length names), al)
      | Some (line, rest) \<Rightarrow>
          if length names \<ge> MNET_MAX_HEADERS then ((-1, no_pairs), al)
          else if length line \<ge> MNET_MAX_HEADER_LINE then ((-1, no_pairs), al)
          else
            (case strchr line CHR '':'' of
               None \<Rightarrow> headers_loop rest names vals al
             | Some i \<Rightarrow>
                 let n = take i line;
                     v = dropWhile (\<lambda>c. c = SP \<or> c = TAB) (drop (i + 1) line)
                 in if \<not> mnet_header_name_valid (Some n) then headers_loop rest names vals al
                    else
                      let (n', al1) = strdup n al;
                          (v', al2) = strdup v al1
                      in if n' = None \<or> v' = None then ((-1, no_pairs), al2)
                         else headers_loop rest (names @ [n]) (vals @ [v]) al2))"
  by pat_completeness auto
termination
  by (relation "measure (\<lambda>(s, names, vals, al). length s)") (auto dest: strtok_r_shrink)

declare headers_loop.simps [simp del]

definition parse_headers :: "string \<Rightarrow> alloc \<Rightarrow> (int \<times> pair_arrays) \<times> alloc" where
  "parse_headers headers_raw al =
     (if headers_raw = [] then ((0, no_pairs), al)
      else
        let (a, al1) = malloc al;
            (b, al2) = malloc al1
        in if \<not> a \<or> \<not> b then ((-1, no_pairs), al2)
           else
             (case malloc al2 of
                (False, al3) \<Rightarrow> ((-1, no_pairs), al3)
              | (True, al3) \<Rightarrow> headers_loop headers_raw [] [] al3))"

section \<open>Cookies\<close>

function cookies_loop ::
  "nat \<Rightarrow> string \<Rightarrow> string list \<Rightarrow> string list \<Rightarrow> alloc \<Rightarrow> pair_arrays \<times> alloc" where
  "cookies_loop count s names vals al =
     (case strtok_r '';'' s of
        None \<Rightarrow> ((Some names, Some vals, length names), al)
      | Some (token, rest) \<Rightarrow>
          if \<not> length names < count then ((Some names, Some vals, length names), al)
          else
            let t = dropWhile (\<lambda>c. c = SP) token;
                (n, v) = split_at_char CHR ''='' t;
                v = dropWhile (\<lambda>c. c = SP) v;
                (n', al1) = strdup n al;
                (v', al2) = strdup v al1
            in if n' = None \<or> v' = None then (no_pairs, al2)
               else cookies_loop count rest (names @ [n]) (vals @ [v]) al2)"
  by pat_completeness auto
termination
  by (relation "measure (\<lambda>(count, s, names, vals, al). length s)") (auto dest: strtok_r_shrink)

declare cookies_loop.simps [simp del]

definition parse_cookies :: "string \<Rightarrow> alloc \<Rightarrow> pair_arrays \<times> alloc" where
  "parse_cookies cookie_header al =
     (if cookie_header = [] then (no_pairs, al)
      else
        let count = 1 + length (filter (\<lambda>c. c = CHR '';'') cookie_header);
            (a, al1) = malloc al;
            (b, al2) = malloc al1
        in if \<not> a \<or> \<not> b then (no_pairs, al2)
           else
             (case malloc al2 of
                (False, al3) \<Rightarrow> (no_pairs, al3)
              | (True, al3) \<Rightarrow> cookies_loop count cookie_header [] [] al3))"

section \<open>Body\<close>

text \<open>
  The search for line-initial \<open>Content-Length:\<close> headers before \<open>header_end\<close>, from offset \<open>pos\<close>
  on: the last one found, and how many there are.
\<close>

definition at_line_start :: "string \<Rightarrow> nat \<Rightarrow> bool" where
  "at_line_start s p \<longleftrightarrow> p = 0 \<or> s ! (p - 1) = LF"

lemma strcasestr_bound: "strcasestr h n = Some i \<Longrightarrow> i + length n \<le> length h"
  using strstr_bound by (fastforce simp: strcasestr_def)

function cl_search :: "string \<Rightarrow> nat \<Rightarrow> nat \<Rightarrow> nat option \<Rightarrow> nat \<Rightarrow> nat option \<times> nat" where
  "cl_search s header_end pos cl_header cl_count =
     (case strcasestr (drop pos s) ''content-length:'' of
        None \<Rightarrow> (cl_header, cl_count)
      | Some k \<Rightarrow>
          if pos + k \<ge> header_end then (cl_header, cl_count)
          else if at_line_start s (pos + k)
          then cl_search s header_end (pos + k + 15) (Some (pos + k)) (cl_count + 1)
          else cl_search s header_end (pos + k + 15) cl_header cl_count)"
  by pat_completeness auto
termination
  by (relation "measure (\<lambda>(s, he, pos, h, n). length s - pos)") (auto dest!: strcasestr_bound)

declare cl_search.simps [simp del]

function te_search :: "string \<Rightarrow> nat \<Rightarrow> nat \<Rightarrow> bool" where
  "te_search s header_end pos =
     (case strcasestr (drop pos s) ''transfer-encoding:'' of
        None \<Rightarrow> False
      | Some k \<Rightarrow>
          if pos + k \<ge> header_end then False
          else if at_line_start s (pos + k) then True
          else te_search s header_end (pos + k + 18))"
  by pat_completeness auto
termination
  by (relation "measure (\<lambda>(s, he, pos). length s - pos)") (auto dest!: strcasestr_bound)

declare te_search.simps [simp del]

text \<open>The loop over the digits: \<open>digit_seen\<close>, \<open>overflow\<close> and \<open>parsed\<close>, and the text at \<open>p\<close>.\<close>

fun cl_digits :: "size_t \<Rightarrow> string \<Rightarrow> bool \<Rightarrow> bool \<Rightarrow> size_t \<Rightarrow> (bool \<times> bool \<times> size_t) \<times> string" where
  "cl_digits mx [] seen ovf parsed = ((seen, ovf, parsed), [])"
| "cl_digits mx (c # cs) seen ovf parsed =
     (if isdigit c then
        let ovf1 = ovf \<or> parsed > mx div 10;
            parsed' = parsed * 10 + word_of_nat (digit_val c)
        in cl_digits mx cs True (ovf1 \<or> parsed' > mx) parsed'
      else ((seen, ovf, parsed), c # cs))"

definition content_length_of :: "string \<Rightarrow> nat option \<Rightarrow> size_t \<Rightarrow> int + size_t" where
  "content_length_of s cl_header mx =
     (case cl_header of
        None \<Rightarrow> Inr 0
      | Some h \<Rightarrow>
          let val = dropWhile (\<lambda>c. c = SP \<or> c = TAB) (drop (h + 15) s)
          in case cl_digits mx val False False 0 of
               ((seen, ovf, parsed), p) \<Rightarrow>
                 if \<not> seen \<or> (case p of [] \<Rightarrow> True | c # _ \<Rightarrow> c \<noteq> CR \<and> c \<noteq> LF) then Inl (-2)
                 else if ovf then Inl (-1)
                 else Inr parsed)"

function body_loop :: "int \<Rightarrow> nat \<Rightarrow> bytes \<Rightarrow> conn \<Rightarrow> bytes option \<times> conn" where
  "body_loop deadline content_length acc c =
     (if length acc < content_length then
        let left = deadline - c_clock c
        in if left \<le> 0 then (None, c)
           else
             case mnet_poll left c of
               (pr, c1) \<Rightarrow>
                 if pr \<le> 0 then (None, c1)
                 else
                   (case mnet_recv (content_length - length acc) c1 of
                      (None, c2) \<Rightarrow> (None, c2)
                    | (Some xs, c2) \<Rightarrow>
                        if xs = [] then (None, c2)
                        else body_loop deadline content_length (acc @ xs) c2)
      else (Some acc, c))"
  by pat_completeness auto
termination
  by (relation "measure (\<lambda>(deadline, n, acc, c). n - length acc)") (auto intro!: diff_less_mono2)

declare body_loop.simps [simp del]

record body_result =
  br_code :: int
  br_body :: "bytes option"
  br_length :: nat
  br_heap :: bool

definition body_fail :: "int \<Rightarrow> body_result" where
  "body_fail rc = \<lparr>br_code = rc, br_body = None, br_length = 0, br_heap = False\<rparr>"

definition read_full_body ::
  "bytes \<Rightarrow> size_t \<Rightarrow> int \<Rightarrow> conn \<Rightarrow> alloc \<Rightarrow> body_result \<times> conn \<times> alloc" where
  "read_full_body buffer max_body_size timeout_ms c al =
     (let s = c_string buffer
      in case end_of_headers s of
           None \<Rightarrow> (body_fail (-1), c, al)
         | Some (i, sep) \<Rightarrow>
             let body_offset = i + sep;
                 initial = drop body_offset buffer;
                 (cl_header, cl_count) = cl_search s i 0 None 0
             in if cl_count > 1 then (body_fail (-3), c, al)
                else if te_search s i 0 then (body_fail (-4), c, al)
                else
                  (case content_length_of s cl_header max_body_size of
                     Inl rc \<Rightarrow> (body_fail rc, c, al)
                   | Inr n \<Rightarrow>
                       if n = 0 then
                         (\<lparr>br_code = 0, br_body = Some [], br_length = 0, br_heap = False\<rparr>, c, al)
                       else if n > max_body_size then (body_fail (-1), c, al)
                       else if length initial \<ge> unat n then
                         (\<lparr>br_code = 0, br_body = Some (take (unat n) initial),
                           br_length = unat n, br_heap = False\<rparr>, c, al)
                       else
                         (case malloc al of
                            (False, al') \<Rightarrow> (body_fail (-1), c, al')
                          | (True, al') \<Rightarrow>
                              (case body_loop (c_clock c + timeout_ms) (unat n) initial c of
                                 (None, c') \<Rightarrow> (body_fail (-1), c', al')
                               | (Some body, c') \<Rightarrow>
                                   (\<lparr>br_code = 0, br_body = Some body, br_length = unat n,
                                     br_heap = True\<rparr>, c', al')))))"

section \<open>The whole request\<close>

datatype parse_status =
    MNET_PARSE_OK | MNET_PARSE_BAD_REQUEST | MNET_PARSE_TOO_LARGE | MNET_PARSE_HEADERS_TOO_LARGE
  | MNET_PARSE_UNSUPPORTED_METHOD | MNET_PARSE_BAD_CONTENT_LENGTH
  | MNET_PARSE_DUPLICATE_CONTENT_LENGTH | MNET_PARSE_UNSUPPORTED_TRANSFER_ENCODING

record parsed_request =
  p_method :: string
  p_path :: string
  p_path_only :: string
  p_query_string :: "string option"
  p_body :: "bytes option"
  p_body_length :: nat
  p_body_heap :: bool
  p_method_enum :: "mnet_http_method option"
  p_extras :: request_extras
  p_keep_alive :: bool

definition empty_parsed :: parsed_request where
  "empty_parsed =
     \<lparr>p_method = [], p_path = [], p_path_only = [], p_query_string = None, p_body = None,
      p_body_length = 0, p_body_heap = False, p_method_enum = None, p_extras = no_extras,
      p_keep_alive = False\<rparr>"

text \<open>
  The loop over the stored headers: a \<open>Cookie\<close> header replaces the cookies parsed before, and
  \<open>Connection: keep-alive\<close> sets the flag.
\<close>

fun header_effects ::
  "(string \<times> string) list \<Rightarrow> pair_arrays \<Rightarrow> bool \<Rightarrow> alloc \<Rightarrow> (pair_arrays \<times> bool) \<times> alloc" where
  "header_effects [] cookies keep al = ((cookies, keep), al)"
| "header_effects ((n, v) # hs) cookies keep al =
     (let (cookies', al') =
            (if strcaseeq n ''Cookie'' then parse_cookies v al else (cookies, al));
          keep' = (keep \<or> strcaseeq n ''Connection'' \<and> strcaseeq v ''keep-alive'')
      in header_effects hs cookies' keep' al')"

definition set_headers :: "pair_arrays \<Rightarrow> request_extras \<Rightarrow> request_extras" where
  "set_headers a e =
     (case a of (ns, vs, n) \<Rightarrow> e\<lparr>ex_header_names := ns, ex_header_values := vs, ex_header_count := n\<rparr>)"

definition set_cookies :: "pair_arrays \<Rightarrow> request_extras \<Rightarrow> request_extras" where
  "set_cookies a e =
     (case a of (ns, vs, n) \<Rightarrow> e\<lparr>ex_cookie_names := ns, ex_cookie_values := vs, ex_cookie_count := n\<rparr>)"

definition set_query :: "pair_arrays \<Rightarrow> request_extras \<Rightarrow> request_extras" where
  "set_query a e =
     (case a of (ns, vs, n) \<Rightarrow> e\<lparr>ex_query_names := ns, ex_query_values := vs, ex_query_count := n\<rparr>)"

text \<open>Splitting the target into path and query string, and parsing the latter.\<close>

definition parse_target :: "parsed_request \<Rightarrow> alloc \<Rightarrow> (parsed_request \<times> alloc) option" where
  "parse_target out al =
     (case strchr (p_path out) CHR ''?'' of
        None \<Rightarrow> Some (out\<lparr>p_path_only := p_path out\<rparr>, al)
      | Some plen \<Rightarrow>
          let qs = drop (plen + 1) (p_path out)
          in case parse_query_string (Some qs) al of
               None \<Rightarrow> None
             | Some ((rc, pairs), al') \<Rightarrow>
                 Some (out\<lparr>p_path_only := take plen (p_path out), p_query_string := Some qs,
                           p_extras := set_query pairs (p_extras out)\<rparr>, al'))"

text \<open>Parsing of the header block of a request whose body has been read.\<close>

definition parse_header_block ::
  "string \<Rightarrow> parsed_request \<Rightarrow> alloc \<Rightarrow> (parse_status \<times> parsed_request) \<times> alloc" where
  "parse_header_block s out al =
     (case end_of_headers s of
        None \<Rightarrow> ((MNET_PARSE_OK, out), al)
      | Some (hdr_len, _) \<Rightarrow>
          (case malloc al of
             (False, al') \<Rightarrow> ((MNET_PARSE_HEADERS_TOO_LARGE, out), al')
           | (True, al') \<Rightarrow>
               (case parse_headers (take hdr_len s) al' of
                  ((rc, pairs), al2) \<Rightarrow>
                    let out1 = out\<lparr>p_extras := set_headers pairs (p_extras out)\<rparr>
                    in if rc \<noteq> 0 then ((MNET_PARSE_HEADERS_TOO_LARGE, out1), al2)
                       else
                         case header_effects
                             (pairs_of (fst pairs) (fst (snd pairs)) (snd (snd pairs)))
                             no_pairs False al2 of
                           ((cookies, keep), al3) \<Rightarrow>
                             ((MNET_PARSE_OK,
                               out1\<lparr>p_extras := set_cookies cookies (p_extras out1),
                                    p_keep_alive := keep\<rparr>), al3))))"

definition parse_request ::
  "bytes \<Rightarrow> size_t \<Rightarrow> int \<Rightarrow> conn \<Rightarrow> alloc \<Rightarrow> ((parse_status \<times> parsed_request) \<times> conn \<times> alloc) option" where
  "parse_request buffer max_body_size timeout_ms c al =
     (let s = c_string buffer
      in case parse_raw_request s of
           (rc, m, p) \<Rightarrow>
             let out = empty_parsed\<lparr>p_method := m, p_path := p\<rparr>
             in if rc \<noteq> 0 then Some ((MNET_PARSE_BAD_REQUEST, out), c, al)
                else if mnet_parse_method m = None
                then Some ((MNET_PARSE_UNSUPPORTED_METHOD, out), c, al)
                else
                  let out = out\<lparr>p_method_enum := mnet_parse_method m\<rparr>
                  in case read_full_body buffer max_body_size timeout_ms c al of
                       (r, c', al') \<Rightarrow>
                         if br_code r = -1 then Some ((MNET_PARSE_TOO_LARGE, out), c', al')
                         else if br_code r = -2
                         then Some ((MNET_PARSE_BAD_CONTENT_LENGTH, out), c', al')
                         else if br_code r = -3
                         then Some ((MNET_PARSE_DUPLICATE_CONTENT_LENGTH, out), c', al')
                         else if br_code r = -4
                         then Some ((MNET_PARSE_UNSUPPORTED_TRANSFER_ENCODING, out), c', al')
                         else
                           let out = out\<lparr>p_body := br_body r, p_body_length := br_length r,
                                         p_body_heap := br_heap r\<rparr>
                           in case parse_header_block s out al' of
                                ((st, out1), al2) \<Rightarrow>
                                  if st \<noteq> MNET_PARSE_OK then Some ((st, out1), c', al2)
                                  else
                                    (case parse_target out1 al2 of
                                       None \<Rightarrow> None
                                     | Some (out2, al3) \<Rightarrow> Some ((MNET_PARSE_OK, out2), c', al3)))"

text \<open>
  Releasing the arrays the parser owns; the parameter arrays are borrowed. The freed blocks are
  listed, so that what is released can be compared with what was allocated.
\<close>

definition owned_pairs :: "string list option \<Rightarrow> string list option \<Rightarrow> nat \<Rightarrow> string list" where
  "owned_pairs names vals count =
     (case (names, vals) of (Some ns, Some vs) \<Rightarrow> take count ns @ take count vs | _ \<Rightarrow> [])"

definition free_extras :: "request_extras \<Rightarrow> request_extras \<times> string list" where
  "free_extras e =
     (no_extras,
      owned_pairs (ex_query_names e) (ex_query_values e) (ex_query_count e) @
      owned_pairs (ex_header_names e) (ex_header_values e) (ex_header_count e) @
      owned_pairs (ex_cookie_names e) (ex_cookie_values e) (ex_cookie_count e))"

end
