(* ===== verification/Parse_Lines.thy ===== *)
theory Parse_Lines
  imports Parse
begin

text \<open>
  Correctness of the line-level parsers: query strings, header lines and cookies against
  specifications on the list of tokens, in every allocation outcome, with the round trip of
  encoded query pairs and of rendered header lines.
\<close>

section \<open>Tokens\<close>

function tokens :: "string \<Rightarrow> string \<Rightarrow> string list" where
  "tokens d s = (case strtok_r d s of None \<Rightarrow> [] | Some (t, rest) \<Rightarrow> t # tokens d rest)"
  by pat_completeness auto
termination
  by (relation "measure (\<lambda>(d, s). length s)") (auto dest: strtok_r_shrink)

declare tokens.simps [simp del]

lemma tokens_None: "strtok_r d s = None \<Longrightarrow> tokens d s = []"
  by (simp add: tokens.simps)

lemma tokens_Some: "strtok_r d s = Some (t, rest) \<Longrightarrow> tokens d s = t # tokens d rest"
  by (subst tokens.simps) simp

lemma tokens_Nil [simp]: "tokens d [] = []"
  by (simp add: tokens_None)

lemma strtok_induct [case_names stop token]:
  assumes "\<And>s. strtok_r d s = None \<Longrightarrow> P s"
    and "\<And>s t rest. strtok_r d s = Some (t, rest) \<Longrightarrow> P rest \<Longrightarrow> P s"
  shows "P s"
proof (induction s rule: length_induct)
  case (1 s)
  show ?case
  proof (cases "strtok_r d s")
    case None
    then show ?thesis by (rule assms(1))
  next
    case (Some p)
    then show ?thesis using 1 strtok_r_shrink [of d s] assms(2) by (cases p) blast
  qed
qed

lemma tokens_props: "t \<in> set (tokens d s) \<Longrightarrow> t \<noteq> [] \<and> set t \<inter> set d = {} \<and> set t \<subseteq> set s"
proof (induction s rule: strtok_induct [of d])
  case (stop s)
  then show ?case by (simp add: tokens_None)
next
  case (token s u rest)
  then have "t = u \<or> t \<in> set (tokens d rest)" by (simp add: tokens_Some)
  then show ?case
    using token strtok_r_token [of d s u rest] strtok_r_rest [of d s u rest] by blast
qed

text \<open>Tokens of a text built from tokens: each ended by a delimiter, or separated by one.\<close>

lemma tokens_front:
  "t \<noteq> [] \<Longrightarrow> set t \<inter> set d = {} \<Longrightarrow> c \<in> set d \<Longrightarrow> tokens d (t @ c # rest) = t # tokens d rest"
  by (rule tokens_Some) (rule strtok_r_front)

lemma tokens_last: "t \<noteq> [] \<Longrightarrow> set t \<inter> set d = {} \<Longrightarrow> tokens d t = [t]"
  using tokens_Some [OF strtok_r_last] by simp

lemma tokens_skip: "c \<in> set d \<Longrightarrow> tokens d (c # s) = tokens d s"
  by (subst (1 2) tokens.simps) (simp add: strtok_r_skip)

fun join_with :: "char \<Rightarrow> string list \<Rightarrow> string" where
  "join_with c [] = []"
| "join_with c [t] = t"
| "join_with c (t # u # ts) = t @ c # join_with c (u # ts)"

lemma join_with_Cons: "join_with c (t # ts) = t @ (if ts = [] then [] else c # join_with c ts)"
  by (cases ts) simp_all

lemma set_join_with: "x \<in> set (join_with c ts) \<Longrightarrow> x = c \<or> (\<exists>t\<in>set ts. x \<in> set t)"
  by (induction ts) (auto simp: join_with_Cons split: if_splits)

lemma tokens_join:
  "c \<in> set d \<Longrightarrow> \<forall>t\<in>set ts. t \<noteq> [] \<and> set t \<inter> set d = {} \<Longrightarrow> tokens d (join_with c ts) = ts"
  by (induction c ts rule: join_with.induct) (auto simp: tokens_front tokens_last)

lemma strtok_r_split:
  "strtok_r d s = Some (t, rest) \<Longrightarrow>
   \<exists>pre. s = pre @ t \<and> rest = [] \<or> (\<exists>c\<in>set d. s = pre @ t @ c # rest)"
proof -
  assume A: "strtok_r d s = Some (t, rest)"
  define u where "u = dropWhile (\<lambda>c. c \<in> set d) s"
  define w where "w = dropWhile (\<lambda>c. c \<notin> set d) u"
  let ?pre = "takeWhile (\<lambda>c. c \<in> set d) s" and ?w = w
  have t: "t = takeWhile (\<lambda>c. c \<notin> set d) u" and r: "rest = drop 1 w"
    using A by (simp_all add: strtok_r_def w_def u_def [symmetric] split: list.splits)
  have "u = t @ w" unfolding t w_def by (simp only: takeWhile_dropWhile_id)
  then have s: "s = ?pre @ t @ ?w" unfolding u_def by (metis takeWhile_dropWhile_id)
  show ?thesis
  proof (cases ?w)
    case Nil
    with s r show ?thesis by (intro exI [of _ ?pre]) simp
  next
    case (Cons c w)
    then have "c \<in> set d" by (simp add: w_def dropWhile_eq_Cons_conv)
    with s r Cons show ?thesis by (intro exI [of _ ?pre]) auto
  qed
qed

lemma length_tokens: "length (tokens [c] s) \<le> 1 + length (filter (\<lambda>x. x = c) s)"
proof (induction s rule: strtok_induct [of "[c]"])
  case (stop s)
  then show ?case by (simp add: tokens_None)
next
  case (token s t rest)
  then obtain pre where "s = pre @ t \<and> rest = [] \<or> (\<exists>d\<in>set [c]. s = pre @ t @ d # rest)"
    using strtok_r_split by blast
  with token show ?case by (auto simp: tokens_Some)
qed

section \<open>Query strings\<close>

definition url_decoded :: "string \<Rightarrow> string" where
  "url_decoded s = (case url_decode s of Some t \<Rightarrow> t | None \<Rightarrow> [])"

lemma decode_in_place_eq:
  assumes "NUL \<notin> set s" "length s < 2 ^ 31"
  shows "decode_in_place s = Some (url_decoded s)"
  using mnet_url_decode_in_place_spec [OF assms] by (auto simp: decode_in_place_def url_decoded_def)

lemma set_split_at_char:
  "split_at_char c t = (n, v) \<Longrightarrow> set n \<subseteq> set t \<and> set v \<subseteq> set t"
  by (auto simp: split_at_char_def split: option.splits dest: in_set_takeD in_set_dropD)

lemma split_at_char_join: "c \<notin> set n \<Longrightarrow> split_at_char c (n @ c # v) = (n, v)"
  by (simp add: split_at_char_def strchr_append)

text \<open>The raw pairs of a query string, at most sixteen, and whether one exceeds the limits.\<close>

definition raw_pairs :: "nat \<Rightarrow> string \<Rightarrow> (string \<times> string) list" where
  "raw_pairs k s = map (split_at_char CHR ''='') (take k (tokens ''&'' s))"

definition pair_too_long :: "string \<times> string \<Rightarrow> bool" where
  "pair_too_long p \<longleftrightarrow> MNET_MAX_QUERY_NAME < length (fst p) \<or> MNET_MAX_QUERY_VALUE < length (snd p)"

definition arrays_of :: "(string \<times> string) list \<Rightarrow> pair_arrays" where
  "arrays_of kvs = (Some (map fst kvs), Some (map snd kvs), length kvs)"

definition decoded_pairs :: "(string \<times> string) list \<Rightarrow> (string \<times> string) list" where
  "decoded_pairs kvs = map (\<lambda>(n, v). (url_decoded n, url_decoded v)) kvs"

text \<open>What a parser of pairs promises: its specification, unless an allocation failed or the input is refused.\<close>

definition pairs_outcome :: "(string \<times> string) list \<Rightarrow> bool \<Rightarrow> bool \<Rightarrow> int \<times> pair_arrays \<Rightarrow> bool" where
  "pairs_outcome kvs refused oom r \<longleftrightarrow>
     (\<not> refused \<and> r = (0, arrays_of kvs)) \<or> ((refused \<or> oom) \<and> r = (-1, no_pairs))"

lemma malloc_oom: "\<not> fst (malloc al) \<Longrightarrow> False \<in> set al" "False \<in> set (snd (malloc al)) \<Longrightarrow> False \<in> set al"
  by (cases al; simp)+

text \<open>Two allocations in a row, as every pair parser makes them.\<close>

lemma malloc_two:
  "malloc al = (a, al1) \<Longrightarrow> malloc al1 = (b, al2) \<Longrightarrow>
   (\<not> a \<or> \<not> b \<longrightarrow> False \<in> set al) \<and> (False \<in> set al2 \<longrightarrow> False \<in> set al)"
  using malloc_oom [of al] malloc_oom [of al1] by auto

lemma strdup_two:
  "strdup n al = (n', al1) \<Longrightarrow> strdup v al1 = (v', al2) \<Longrightarrow>
   (n' = None \<or> v' = None \<longrightarrow> False \<in> set al) \<and> (False \<in> set al2 \<longrightarrow> False \<in> set al)"
  using malloc_two [of al] by (auto simp: strdup_def split: prod.splits if_splits)

lemma pairs_outcome_oom: "pairs_outcome kvs refused oom r \<Longrightarrow> (oom \<Longrightarrow> oom') \<Longrightarrow> pairs_outcome kvs refused oom' r"
  by (auto simp: pairs_outcome_def)

lemma query_loop_outcome:
  assumes "NUL \<notin> set s" "length names = length vals" "length names \<le> count"
  shows "\<exists>r al'. query_loop count s names vals al = Some (r, al') \<and>
    pairs_outcome (zip names vals @ decoded_pairs (raw_pairs (count - length names) s))
      (\<exists>p\<in>set (raw_pairs (count - length names) s). pair_too_long p) (False \<in> set al) r"
  using assms
proof (induction s arbitrary: names vals al rule: strtok_induct [of "''&''"])
  case (stop s)
  then show ?case
    by (simp add: query_loop.simps [of count s] pairs_outcome_def raw_pairs_def tokens_None
        decoded_pairs_def arrays_of_def)
next
  case (token s t rest)
  note U = query_loop.simps [of count s names vals al] token(1)
  show ?case
  proof (cases "length names < count")
    case False
    with token show ?thesis
      by (simp add: U pairs_outcome_def raw_pairs_def decoded_pairs_def arrays_of_def)
  next
    case True
    obtain n v where nv: "split_at_char CHR ''='' t = (n, v)" by fastforce
    obtain n' v' al1 al2 where d: "strdup n al = (n', al1)" "strdup v al1 = (v', al2)" by fastforce
    note o = strdup_two [OF d]
    obtain k where k: "count - length names = Suc k" "count - Suc (length names) = k"
      using True by (metis Suc_diff_Suc)
    have R: "raw_pairs (Suc k) s = (n, v) # raw_pairs k rest"
      using token(1) nv by (simp add: raw_pairs_def tokens_Some)
    have noNUL: "NUL \<notin> set n" "NUL \<notin> set v" "NUL \<notin> set rest"
      using set_split_at_char [OF nv] strtok_r_token [OF token(1)] strtok_r_rest [OF token(1)] token(3)
      by blast+
    show ?thesis
    proof (cases "(n' = None \<or> v' = None) \<or> pair_too_long (n, v)")
      case True
      with \<open>length names < count\<close> d o nv R k show ?thesis
        by (auto simp: U pairs_outcome_def pair_too_long_def)
    next
      case False
      then have len: "length n \<le> 1024" "length v \<le> 1024" by (simp_all add: pair_too_long_def)
      then have dec: "decode_in_place n = Some (url_decoded n)" "decode_in_place v = Some (url_decoded v)"
        using noNUL by (auto intro!: decode_in_place_eq elim!: le_less_trans)
      have "query_loop count s names vals al =
          query_loop count rest (names @ [url_decoded n]) (vals @ [url_decoded v]) al2"
        using False len dec d nv \<open>length names < count\<close> by (auto simp: U)
      moreover obtain r al' where
        "query_loop count rest (names @ [url_decoded n]) (vals @ [url_decoded v]) al2 = Some (r, al')"
        "pairs_outcome (zip (names @ [url_decoded n]) (vals @ [url_decoded v]) @ decoded_pairs (raw_pairs k rest))
           (\<exists>p\<in>set (raw_pairs k rest). pair_too_long p) (False \<in> set al2) r"
        using token(2) [of "names @ [url_decoded n]" "vals @ [url_decoded v]" al2] noNUL(3) token(4) True k
        by auto
      ultimately show ?thesis
        using False R k token(4) o by (auto simp: decoded_pairs_def elim!: pairs_outcome_oom)
    qed
  qed
qed

lemma parse_query_string_outcome:
  assumes "NUL \<notin> set qs" "qs \<noteq> []"
  shows "\<exists>r al'. parse_query_string (Some qs) al = Some (r, al') \<and>
    pairs_outcome (decoded_pairs (raw_pairs 16 qs)) (\<exists>p\<in>set (raw_pairs 16 qs). pair_too_long p)
      (False \<in> set al) r"
proof -
  let ?count = "min (1 + length (filter (\<lambda>c. c = CHR ''&'') qs)) 16"
  have raw: "raw_pairs ?count qs = raw_pairs 16 qs"
    using length_tokens [of "CHR ''&''" qs] by (auto simp: raw_pairs_def min_def)
  obtain a b al1 al2 where m: "malloc al = (a, al1)" "malloc al1 = (b, al2)" by fastforce
  obtain d al3 where m3: "malloc al2 = (d, al3)" by fastforce
  with malloc_oom [of al2] malloc_two [OF m]
  have o: "\<not> (a \<and> b \<and> d) \<Longrightarrow> False \<in> set al" "False \<in> set al3 \<Longrightarrow> False \<in> set al" by auto
  show ?thesis
  proof (cases "a \<and> b \<and> d")
    case True
    then have "parse_query_string (Some qs) al = query_loop ?count qs [] [] al3"
      using m(1,2) m3 assms(2) by (simp add: parse_query_string_def)
    with query_loop_outcome [OF assms(1), of "[]" "[]" ?count al3] raw o show ?thesis
      by (auto elim!: pairs_outcome_oom)
  next
    case False
    with m m3 o assms(2) show ?thesis
      by (cases d) (auto simp: parse_query_string_def pairs_outcome_def)
  qed
qed

section \<open>Headers\<close>

text \<open>The header a line stands for, if any.\<close>

definition header_of :: "string \<Rightarrow> (string \<times> string) option" where
  "header_of line =
     (case strchr line CHR '':'' of
        None \<Rightarrow> None
      | Some i \<Rightarrow>
          if mnet_header_name_valid (Some (take i line))
          then Some (take i line, dropWhile (\<lambda>c. c = SP \<or> c = TAB) (drop (i + 1) line))
          else None)"

definition headers_of :: "string \<Rightarrow> (string \<times> string) list" where
  "headers_of s = List.map_filter header_of (tokens CRLF s)"

text \<open>The header block is refused at a line of 4096 bytes or more, or at a line after the hundredth header.\<close>

fun headers_refused :: "nat \<Rightarrow> string list \<Rightarrow> bool" where
  "headers_refused k [] = False"
| "headers_refused k (l # ls) =
     (MNET_MAX_HEADERS \<le> k \<or> MNET_MAX_HEADER_LINE \<le> length l \<or>
      headers_refused (if header_of l = None then k else Suc k) ls)"

lemma map_filter_Cons:
  "List.map_filter f (x # xs) = (case f x of None \<Rightarrow> List.map_filter f xs | Some y \<Rightarrow> y # List.map_filter f xs)"
  by (simp add: List.map_filter_def split: option.split)

lemma map_filter_Nil [simp]: "List.map_filter f [] = []"
  by (simp add: List.map_filter_def)

lemma headers_loop_outcome:
  assumes "length names = length vals"
  shows "pairs_outcome (zip names vals @ headers_of s) (headers_refused (length names) (tokens CRLF s))
    (False \<in> set al) (fst (headers_loop s names vals al))"
  using assms
proof (induction s arbitrary: names vals al rule: strtok_induct [of CRLF])
  case (stop s)
  then show ?case
    by (simp add: headers_loop.simps [of s] pairs_outcome_def headers_of_def tokens_None arrays_of_def)
next
  case (token s line rest)
  note U = headers_loop.simps [of s names vals al] token(1) and T = tokens_Some [OF token(1)]
  show ?case
  proof (cases "100 \<le> length names \<or> 4096 \<le> length line")
    case True
    then show ?thesis by (auto simp: U T pairs_outcome_def)
  next
    case False
    show ?thesis
    proof (cases "header_of line")
      case None
      then have "headers_loop s names vals al = headers_loop rest names vals al"
        using False by (cases "strchr line CHR '':''")
          (simp_all add: U header_of_def Let_def del: strchr_None split: if_splits)
      with None False token(2) [OF token(3)] show ?thesis
        by (simp add: T headers_of_def map_filter_Cons)
    next
      case (Some p)
      obtain n v where p: "p = (n, v)" by fastforce
      obtain n' v' al1 al2 where d: "strdup n al = (n', al1)" "strdup v al1 = (v', al2)" by fastforce
      note o = strdup_two [OF d]
      have L: "headers_loop s names vals al =
          (if n' = None \<or> v' = None then ((-1, no_pairs), al2)
           else headers_loop rest (names @ [n]) (vals @ [v]) al2)"
        using False Some p d by (cases "strchr line CHR '':''")
          (auto simp: U header_of_def simp del: strchr_None split: if_splits)
      have S: "headers_of s = (n, v) # headers_of rest"
        "headers_refused (length names) (tokens CRLF s) = headers_refused (Suc (length names)) (tokens CRLF rest)"
        using Some p False by (simp_all add: T headers_of_def map_filter_Cons)
      show ?thesis
      proof (cases "n' = None \<or> v' = None")
        case True
        with o show ?thesis unfolding L by (simp add: pairs_outcome_def)
      next
        case False
        with o token(2) [of "names @ [n]" "vals @ [v]" al2] token(3) show ?thesis
          unfolding L S by (auto elim!: pairs_outcome_oom)
      qed
    qed
  qed
qed

lemma parse_headers_outcome:
  assumes "s \<noteq> []"
  shows "pairs_outcome (headers_of s) (headers_refused 0 (tokens CRLF s)) (False \<in> set al)
    (fst (parse_headers s al))"
proof -
  obtain a b al1 al2 where m: "malloc al = (a, al1)" "malloc al1 = (b, al2)" by fastforce
  obtain d al3 where m3: "malloc al2 = (d, al3)" by fastforce
  with malloc_oom [of al2] malloc_two [OF m]
  have o: "\<not> (a \<and> b \<and> d) \<Longrightarrow> False \<in> set al" "False \<in> set al3 \<Longrightarrow> False \<in> set al" by auto
  show ?thesis
  proof (cases "a \<and> b \<and> d")
    case True
    with m m3 assms headers_loop_outcome [of "[]" "[]" s al3] o show ?thesis
      by (auto simp: parse_headers_def elim!: pairs_outcome_oom)
  next
    case False
    with m m3 o assms show ?thesis
      by (cases d) (auto simp: parse_headers_def pairs_outcome_def)
  qed
qed

section \<open>Cookies\<close>

definition cookie_of :: "string \<Rightarrow> string \<times> string" where
  "cookie_of token =
     (case split_at_char CHR ''='' (dropWhile (\<lambda>c. c = SP) token) of
        (n, v) \<Rightarrow> (n, dropWhile (\<lambda>c. c = SP) v))"

definition cookies_of :: "nat \<Rightarrow> string \<Rightarrow> (string \<times> string) list" where
  "cookies_of k s = map cookie_of (take k (tokens '';'' s))"

text \<open>\<open>parse_cookies\<close> reports failure by NULL arrays only.\<close>

definition with_code :: "pair_arrays \<times> alloc \<Rightarrow> (int \<times> pair_arrays) \<times> alloc" where
  "with_code r = ((if fst (fst r) = None then -1 else 0, fst r), snd r)"

lemma cookies_loop_outcome:
  assumes "length names = length vals" "length names \<le> count"
  shows "pairs_outcome (zip names vals @ cookies_of (count - length names) s) False (False \<in> set al)
    (fst (with_code (cookies_loop count s names vals al)))"
  using assms
proof (induction s arbitrary: names vals al rule: strtok_induct [of "'';''"])
  case (stop s)
  then show ?case
    by (simp add: cookies_loop.simps [of count s] pairs_outcome_def cookies_of_def tokens_None
        arrays_of_def with_code_def)
next
  case (token s t rest)
  note U = cookies_loop.simps [of count s names vals al] token(1)
  show ?case
  proof (cases "length names < count")
    case False
    with token show ?thesis
      by (simp add: U pairs_outcome_def cookies_of_def arrays_of_def with_code_def)
  next
    case True
    obtain n w where nw: "split_at_char CHR ''='' (dropWhile (\<lambda>c. c = SP) t) = (n, w)" by fastforce
    define v where "v = dropWhile (\<lambda>c. c = SP) w"
    obtain n' v' al1 al2 where d: "strdup n al = (n', al1)" "strdup v al1 = (v', al2)" by fastforce
    note o = strdup_two [OF d]
    have L: "cookies_loop count s names vals al =
        (if n' = None \<or> v' = None then (no_pairs, al2)
         else cookies_loop count rest (names @ [n]) (vals @ [v]) al2)"
      using True nw d by (simp add: U v_def)
    obtain k where k: "count - length names = Suc k" "count - Suc (length names) = k"
      using True by (metis Suc_diff_Suc)
    have S: "cookies_of (Suc k) s = (n, v) # cookies_of k rest"
      using nw by (simp add: cookies_of_def tokens_Some [OF token(1)] cookie_of_def v_def)
    show ?thesis
    proof (cases "n' = None \<or> v' = None")
      case True
      with o show ?thesis unfolding L by (simp add: pairs_outcome_def with_code_def)
    next
      case False
      have "pairs_outcome (zip (names @ [n]) (vals @ [v]) @ cookies_of k rest) False (False \<in> set al2)
          (fst (with_code (cookies_loop count rest (names @ [n]) (vals @ [v]) al2)))"
        using token(2) [of "names @ [n]" "vals @ [v]" al2] token(3) \<open>length names < count\<close>
        unfolding k(2) [symmetric] by simp
      with o token(3) False show ?thesis
        unfolding L k S by (auto elim!: pairs_outcome_oom)
    qed
  qed
qed

lemma parse_cookies_outcome:
  assumes "s \<noteq> []"
  shows "pairs_outcome (map cookie_of (tokens '';'' s)) False (False \<in> set al)
    (fst (with_code (parse_cookies s al)))"
proof -
  let ?count = "1 + length (filter (\<lambda>c. c = CHR '';'') s)"
  have all: "cookies_of ?count s = map cookie_of (tokens '';'' s)"
    using length_tokens [of "CHR '';''" s] by (simp add: cookies_of_def)
  obtain a b al1 al2 where m: "malloc al = (a, al1)" "malloc al1 = (b, al2)" by fastforce
  obtain d al3 where m3: "malloc al2 = (d, al3)" by fastforce
  with malloc_oom [of al2] malloc_two [OF m]
  have o: "\<not> (a \<and> b \<and> d) \<Longrightarrow> False \<in> set al" "False \<in> set al3 \<Longrightarrow> False \<in> set al" by auto
  show ?thesis
  proof (cases "a \<and> b \<and> d")
    case True
    with m m3 assms cookies_loop_outcome [of "[]" "[]" ?count s al3] all o show ?thesis
      by (auto simp: parse_cookies_def elim!: pairs_outcome_oom)
  next
    case False
    with m m3 o assms show ?thesis
      by (cases d) (auto simp: parse_cookies_def pairs_outcome_def with_code_def)
  qed
qed

section \<open>The contract the three parsers share\<close>

text \<open>
  A parser of pairs either gives the pairs of its specification, in two arrays of their number,
  or refuses with both arrays NULL. What its callers rely on follows from that alone.
\<close>

locale pair_parser =
  fixes parse :: "string \<Rightarrow> alloc \<Rightarrow> (int \<times> pair_arrays) \<times> alloc"
    and spec :: "string \<Rightarrow> (string \<times> string) list"
    and refused :: "string \<Rightarrow> bool"
  assumes outcome: "NUL \<notin> set s \<Longrightarrow> s \<noteq> [] \<Longrightarrow>
    pairs_outcome (spec s) (refused s) (False \<in> set al) (fst (parse s al))"
begin

lemma succeeds:
  "NUL \<notin> set s \<Longrightarrow> s \<noteq> [] \<Longrightarrow> \<not> refused s \<Longrightarrow> False \<notin> set al \<Longrightarrow>
   fst (parse s al) = (0, arrays_of (spec s))"
  using outcome [of s al] by (auto simp: pairs_outcome_def)

lemma refuses:
  "NUL \<notin> set s \<Longrightarrow> s \<noteq> [] \<Longrightarrow> refused s \<Longrightarrow> fst (parse s al) = (-1, no_pairs)"
  using outcome [of s al] by (auto simp: pairs_outcome_def)

lemma arrays:
  "NUL \<notin> set s \<Longrightarrow> s \<noteq> [] \<Longrightarrow> fst (parse s al) = (rc, ns, vs, n) \<Longrightarrow>
   arrays_ok ns vs n \<and> n \<le> length (spec s) \<and> (rc = 0 \<longrightarrow> pairs_of ns vs n = spec s)"
  using outcome [of s al]
  by (auto simp: pairs_outcome_def arrays_of_def arrays_ok_def pairs_of_def zip_map_fst_snd)

lemma lookup:
  "NUL \<notin> set s \<Longrightarrow> s \<noteq> [] \<Longrightarrow> fst (parse s al) = (0, ns, vs, n) \<Longrightarrow>
   scan_array eq ns vs n name = Some (first_match eq (spec s) name)"
  using arrays [of s al 0 ns vs n] by (simp add: scan_array_pairs)

end

definition query_too_long :: "string \<Rightarrow> bool" where
  "query_too_long s \<longleftrightarrow> (\<exists>p\<in>set (raw_pairs 16 s). pair_too_long p)"

definition query_pairs :: "string \<Rightarrow> (string \<times> string) list" where
  "query_pairs s = decoded_pairs (raw_pairs 16 s)"

interpretation query_p: pair_parser "\<lambda>s al. the (parse_query_string (Some s) al)" query_pairs query_too_long
proof unfold_locales
  fix s al
  assume "NUL \<notin> set s" "s \<noteq> ([] :: string)"
  from parse_query_string_outcome [OF this, of al]
  show "pairs_outcome (query_pairs s) (query_too_long s) (False \<in> set al) (fst (the (parse_query_string (Some s) al)))"
    unfolding query_pairs_def query_too_long_def by force
qed

interpretation header_p: pair_parser parse_headers headers_of "\<lambda>s. headers_refused 0 (tokens CRLF s)"
  by unfold_locales (rule parse_headers_outcome)

interpretation cookie_p: pair_parser "\<lambda>s al. with_code (parse_cookies s al)"
  "\<lambda>s. map cookie_of (tokens '';'' s)" "\<lambda>s. False"
  by unfold_locales (rule parse_cookies_outcome)

lemma parse_query_facts:
  assumes "NUL \<notin> set qs"
  obtains rc ns vs n al' where "parse_query_string (Some qs) al = Some ((rc, ns, vs, n), al')"
    "arrays_ok ns vs n" "n \<le> 16"
    "qs \<noteq> [] \<longrightarrow> (if rc = 0 then \<not> query_too_long qs \<and> pairs_of ns vs n = query_pairs qs
       else rc = -1 \<and> (ns, vs, n) = no_pairs \<and> (query_too_long qs \<or> False \<in> set al))"
proof (cases "qs = []")
  case True
  then show thesis by (intro that [of 0 None None 0 al]) (simp_all add: parse_query_string_def arrays_ok_def)
next
  case False
  obtain rc ns vs n al' where r: "parse_query_string (Some qs) al = Some ((rc, ns, vs, n), al')"
    using parse_query_string_outcome [OF assms False, of al] by force
  then have f: "fst (the (parse_query_string (Some qs) al)) = (rc, ns, vs, n)" by simp
  have le: "length (query_pairs qs) \<le> 16"
    by (simp add: query_pairs_def decoded_pairs_def raw_pairs_def)
  have "(\<not> query_too_long qs \<and> rc = 0) \<or> ((query_too_long qs \<or> False \<in> set al) \<and> rc = -1 \<and> (ns, vs, n) = no_pairs)"
    using query_p.outcome [OF assms False, of al] f by (auto simp: pairs_outcome_def)
  with r query_p.arrays [OF assms False f] le show thesis by (intro that [OF r]) auto
qed

text \<open>
  C29. Parsing a query string touches no memory outside its allocations, whatever the string and
  the allocator do (the result is always defined). The names and values are the decoded halves of
  the first sixteen non-empty tokens, in order, so that a lookup by name finds the first pair of
  that name; the string is refused, with both arrays NULL, when one of those halves is longer
  than 1024 bytes, and otherwise only when an allocation fails.
\<close>

theorem parse_query_string_correct:
  assumes "NUL \<notin> set qs" "qs \<noteq> []"
  shows "\<exists>rc ns vs n al'. parse_query_string (Some qs) al = Some ((rc, ns, vs, n), al') \<and>
    arrays_ok ns vs n \<and> n \<le> 16 \<and>
    (if rc = 0
     then \<not> query_too_long qs \<and> pairs_of ns vs n = query_pairs qs \<and>
       scan_array strcmp_eq ns vs n name = Some (map_of (query_pairs qs) name)
     else rc = -1 \<and> (ns, vs, n) = no_pairs \<and> (query_too_long qs \<or> False \<in> set al))"
proof -
  obtain rc ns vs n al' where r: "parse_query_string (Some qs) al = Some ((rc, ns, vs, n), al')"
    "arrays_ok ns vs n" "n \<le> 16"
    "qs \<noteq> [] \<longrightarrow> (if rc = 0 then \<not> query_too_long qs \<and> pairs_of ns vs n = query_pairs qs
       else rc = -1 \<and> (ns, vs, n) = no_pairs \<and> (query_too_long qs \<or> False \<in> set al))"
    by (rule parse_query_facts [OF assms(1), where al = al])
  with assms(2) show ?thesis by (auto simp: scan_array_pairs first_match_map_of)
qed

theorem parse_query_string_correct_witness:
  "\<exists>rc ns vs n al'. parse_query_string (Some ''a=1&b=%2F'') [] = Some ((rc, ns, vs, n), al') \<and> rc = 0 \<and>
     scan_array strcmp_eq ns vs n ''b'' = Some (Some ''/'')"
proof -
  have "query_pairs ''a=1&b=%2F'' = [(''a'', ''1''), (''b'', ''/'')]" by code_simp
  moreover have "raw_pairs 16 ''a=1&b=%2F'' = [(''a'', ''1''), (''b'', ''%2F'')]" by code_simp
  then have "\<not> query_too_long ''a=1&b=%2F''" by (simp add: query_too_long_def pair_too_long_def)
  ultimately show ?thesis
    using parse_query_string_correct [of "''a=1&b=%2F''" "[]" "''b''"]
    by (auto split: if_splits)
qed

definition encode_query :: "(char \<Rightarrow> bool) \<Rightarrow> (string \<times> string) list \<Rightarrow> string" where
  "encode_query plain kvs =
     join_with CHR ''&'' (map (\<lambda>(n, v). url_encode plain n @ CHR ''='' # url_encode plain v) kvs)"

definition query_safe :: "(char \<Rightarrow> bool) \<Rightarrow> bool" where
  "query_safe plain \<longleftrightarrow> (\<forall>c\<in>set ''&=%+''. \<not> plain c)"

lemma url_decoded_encode:
  assumes "NUL \<notin> set s" "query_safe plain"
  shows "url_decoded (url_encode plain s) = s"
proof -
  have "url_decode (url_encode plain s) = Some s"
    using assms by (intro url_decode_encode) (auto simp: query_safe_def)
  then show ?thesis by (simp add: url_decoded_def)
qed

lemma digit_char_no_sep: "d < 16 \<Longrightarrow> digit_char d \<noteq> CHR ''&'' \<and> digit_char d \<noteq> CHR ''=''"
  using uchar_digit_char [of d] by (auto simp: uchar_eq_iff [symmetric] split: if_splits)

lemma encode_no_sep:
  assumes "query_safe plain"
  shows "CHR ''&'' \<notin> set (url_encode plain s)" "CHR ''='' \<notin> set (url_encode plain s)"
  using assms digit_char_no_sep set_url_encode [of _ plain s] by (force simp: query_safe_def)+

lemma raw_pairs_encode:
  assumes "query_safe plain"
  shows "raw_pairs k (encode_query plain kvs) =
    take k (map (\<lambda>(n, v). (url_encode plain n, url_encode plain v)) kvs)"
proof -
  let ?ts = "map (\<lambda>(n, v). url_encode plain n @ CHR ''='' # url_encode plain v) kvs"
  have "tokens ''&'' (encode_query plain kvs) = ?ts"
    unfolding encode_query_def using encode_no_sep [OF assms] by (intro tokens_join) auto
  then show ?thesis
    using encode_no_sep [OF assms] by (auto simp: raw_pairs_def take_map split_at_char_join)
qed

lemma query_encode_pairs:
  assumes "query_safe plain" "length kvs \<le> 16"
    and "\<forall>(n, v)\<in>set kvs. NUL \<notin> set n \<and> NUL \<notin> set v \<and> length n \<le> 341 \<and> length v \<le> 341"
  shows "query_pairs (encode_query plain kvs) = kvs" "\<not> query_too_long (encode_query plain kvs)"
proof -
  let ?qs = "encode_query plain kvs"
  have raw: "raw_pairs 16 ?qs = map (\<lambda>(n, v). (url_encode plain n, url_encode plain v)) kvs"
    using assms(1,2) by (simp add: raw_pairs_encode)
  have short: "length (url_encode plain s) \<le> 1024" if "length s \<le> 341" for s
    using length_url_encode [of plain s] that by simp
  show "\<not> query_too_long ?qs"
    using assms(3) short by (fastforce simp: query_too_long_def raw pair_too_long_def)
  show "query_pairs ?qs = kvs"
    unfolding query_pairs_def raw decoded_pairs_def
    using assms(1,3) by (auto simp: url_decoded_encode intro!: map_idI)
qed

text \<open>
  A query string built from pairs by percent-encoding each half and joining with \<open>=\<close> and \<open>&\<close>
  parses back to exactly those pairs.
\<close>

theorem parse_query_roundtrip:
  assumes "query_safe plain" "kvs \<noteq> []" "length kvs \<le> 16"
    and "\<forall>(n, v)\<in>set kvs. NUL \<notin> set n \<and> NUL \<notin> set v \<and> length n \<le> 341 \<and> length v \<le> 341"
  shows "\<exists>al. parse_query_string (Some (encode_query plain kvs)) [] = Some ((0, arrays_of kvs), al)"
proof -
  let ?qs = "encode_query plain kvs"
  note query_encode_pairs [OF assms(1,3,4)]
  moreover have "NUL \<notin> set ?qs"
  proof
    assume "NUL \<in> set ?qs"
    from set_join_with [OF this [unfolded encode_query_def]] obtain n v where
      "(n, v) \<in> set kvs" "NUL \<in> set (url_encode plain n) \<or> NUL \<in> set (url_encode plain v)" by auto
    with assms(4) url_encode_no_NUL show False by blast
  qed
  moreover have "?qs \<noteq> []"
    using assms(2) by (cases kvs) (auto simp: encode_query_def join_with_Cons)
  ultimately show ?thesis
    using query_p.succeeds [of ?qs "[]"] parse_query_string_outcome [of ?qs "[]"] by fastforce
qed

theorem parse_query_roundtrip_witness:
  "\<exists>al. parse_query_string (Some (encode_query (\<lambda>c. c = CHR ''a'') [(''a b'', ''1&2''), (''x'', [])])) [] =
     Some ((0, arrays_of [(''a b'', ''1&2''), (''x'', [])]), al)"
  by (rule parse_query_roundtrip) (auto simp: query_safe_def)

section \<open>Header blocks\<close>

lemma header_of_props:
  assumes "header_of l = Some (n, v)"
  shows "mnet_header_name_valid (Some n)" "set v \<subseteq> set l" "set n \<subseteq> set l"
    "v = [] \<or> hd v \<notin> {SP, TAB}"
proof -
  obtain i where i: "mnet_header_name_valid (Some (take i l))" "n = take i l"
    "v = dropWhile (\<lambda>c. c = SP \<or> c = TAB) (drop (i + 1) l)"
    using assms by (auto simp: header_of_def simp del: strchr_None split: option.splits if_splits)
  show "mnet_header_name_valid (Some n)" using i by simp
  show "set n \<subseteq> set l" using i by (auto dest: in_set_takeD)
  show "set v \<subseteq> set l" unfolding i by (auto dest!: set_dropWhileD dest: in_set_dropD)
  show "v = [] \<or> hd v \<notin> {SP, TAB}" using hd_dropWhile [of "\<lambda>c. c = SP \<or> c = TAB"] unfolding i by blast
qed

text \<open>A header as it is written on a line, and the lines of a block.\<close>

definition header_line :: "string \<times> string \<Rightarrow> string" where
  "header_line h = fst h @ '': '' @ snd h"

fun join_lines :: "string list \<Rightarrow> string" where
  "join_lines [] = []"
| "join_lines [l] = l"
| "join_lines (l # m # ls) = l @ CRLF @ join_lines (m # ls)"

definition wf_header :: "string \<times> string \<Rightarrow> bool" where
  "wf_header h \<longleftrightarrow>
     mnet_header_name_valid (Some (fst h)) \<and> mnet_header_value_valid (Some (snd h)) \<and>
     (snd h = [] \<or> hd (snd h) \<noteq> SP) \<and> length (header_line h) < 4096"

lemma header_of_header_line: "wf_header h \<Longrightarrow> header_of (header_line h) = Some h"
proof -
  assume wf: "wf_header h"
  obtain n v where h: "h = (n, v)" by fastforce
  have "CHR '':'' \<notin> set n" using wf header_name_valid_chars [of n] by (auto simp: wf_header_def h)
  then have "strchr (header_line h) CHR '':'' = Some (length n)"
    by (simp add: header_line_def h strchr_append)
  moreover have "\<forall>c\<in>set v. \<not> uchar c < 32"
    using wf by (simp add: wf_header_def h mnet_header_value_valid_def list_all_iff)
  then have "TAB \<notin> set v" by (rule contrapos_pn) (auto intro!: bexI [of _ TAB])
  then have "dropWhile (\<lambda>c. c = SP \<or> c = TAB) v = v"
    using wf by (cases v) (auto simp: wf_header_def h)
  ultimately show ?thesis using wf by (simp add: header_of_def wf_header_def h header_line_def)
qed

lemma header_line_chars: "wf_header h \<Longrightarrow> header_line h \<noteq> [] \<and> set (header_line h) \<inter> {CR, LF, NUL} = {}"
proof -
  assume wf: "wf_header h"
  have "set (fst h) \<inter> {CR, LF, NUL} = {}"
    using header_name_valid_chars [of "fst h"] wf by (simp add: wf_header_def)
  moreover have "set (snd h) \<inter> {CR, LF, NUL} = {}"
    using header_value_valid_chars [of "snd h"] wf by (simp add: wf_header_def)
  ultimately show ?thesis by (simp add: header_line_def)
qed

lemma tokens_join_lines:
  "\<forall>l\<in>set ls. l \<noteq> [] \<and> set l \<inter> {CR, LF} = {} \<Longrightarrow> tokens CRLF (join_lines ls) = ls"
proof (induction ls rule: join_lines.induct)
  case (3 l m ls)
  then have "tokens CRLF (l @ CR # LF # join_lines (m # ls)) = l # tokens CRLF (LF # join_lines (m # ls))"
    by (intro tokens_front) auto
  with 3 show ?case by (simp add: tokens_skip)
qed (simp_all add: tokens_last)

text \<open>A block of a first line that is no header, such as a request line, followed by header lines.\<close>

lemma headers_of_lines:
  assumes "header_of l = None" "l \<noteq> []" "set l \<inter> {CR, LF} = {}" "\<forall>h\<in>set hs. wf_header h"
  shows "headers_of (join_lines (l # map header_line hs)) = hs"
    and "tokens CRLF (join_lines (l # map header_line hs)) = l # map header_line hs"
proof -
  show T: "tokens CRLF (join_lines (l # map header_line hs)) = l # map header_line hs"
    using assms header_line_chars by (intro tokens_join_lines) auto
  have "List.map_filter header_of (map header_line hs) = hs"
    using assms(4) by (induction hs) (auto simp: map_filter_Cons header_of_header_line)
  then show "headers_of (join_lines (l # map header_line hs)) = hs"
    using assms(1) by (simp add: headers_of_def T map_filter_Cons)
qed

lemma headers_not_refused:
  "\<forall>h\<in>set hs. wf_header h \<Longrightarrow> k + length hs \<le> 100 \<Longrightarrow> \<not> headers_refused k (map header_line hs)"
  by (induction hs arbitrary: k) (auto simp: header_of_header_line wf_header_def)

lemma parse_headers_lines:
  assumes "header_of l = None" "l \<noteq> []" "set l \<inter> {CR, LF, NUL} = {}" "length l < 4096"
    and "\<forall>h\<in>set hs. wf_header h" "length hs \<le> 100" "False \<notin> set al"
  shows "fst (parse_headers (join_lines (l # map header_line hs)) al) = (0, arrays_of hs)"
proof -
  let ?s = "join_lines (l # map header_line hs)"
  have L: "set l \<inter> {CR, LF} = {}" using assms(3) by auto
  have "\<not> headers_refused 0 (l # map header_line hs)"
    using assms headers_not_refused [of hs 0] by simp
  then have "\<not> headers_refused 0 (tokens CRLF ?s)"
    using headers_of_lines(2) [OF assms(1,2) L assms(5)] by simp
  moreover have "NUL \<notin> set (join_lines ls)" if "\<forall>l\<in>set ls. NUL \<notin> set l" for ls
    using that by (induction ls rule: join_lines.induct) auto
  then have "NUL \<notin> set ?s" using assms(3,5) header_line_chars by (auto simp del: join_lines.simps)
  moreover have "?s \<noteq> []" using assms(2) by (cases hs) auto
  ultimately show ?thesis
    using header_p.succeeds [of ?s al] headers_of_lines(1) [OF assms(1,2) L assms(5)] assms(7) by simp
qed

lemma headers_of_bound:
  "\<not> headers_refused k ls \<Longrightarrow> k \<le> 100 \<Longrightarrow> k + length (List.map_filter header_of ls) \<le> 100"
  by (induction k ls rule: headers_refused.induct) (auto simp: map_filter_Cons split: option.splits if_splits)

lemma headers_refused_long: "\<exists>l\<in>set ls. 4096 \<le> length l \<Longrightarrow> headers_refused k ls"
  by (induction ls arbitrary: k) auto

lemma headers_of_each:
  assumes "(h, v) \<in> set (headers_of s)"
  shows "mnet_header_name_valid (Some h) \<and> CR \<notin> set v \<and> LF \<notin> set v \<and> (v = [] \<or> hd v \<notin> {SP, TAB}) \<and>
    set v \<subseteq> set s"
proof -
  obtain l where l: "l \<in> set (tokens CRLF s)" "header_of l = Some (h, v)"
    using assms by (auto simp: headers_of_def List.map_filter_def)
  then have "CR \<notin> set v" "LF \<notin> set v" "set v \<subseteq> set s"
    using tokens_props [OF l(1)] header_of_props(2) [OF l(2)] by auto
  with header_of_props [OF l(2)] show ?thesis by blast
qed

lemma parse_headers_facts:
  assumes "NUL \<notin> set s" "fst (parse_headers s al) = (rc, ns, vs, n)"
  shows "arrays_ok ns vs n \<and> n \<le> 100 \<and> (rc = 0 \<or> rc = -1) \<and> (rc = -1 \<longrightarrow> ns = None \<and> vs = None \<and> n = 0) \<and>
    (rc = 0 \<longrightarrow> \<not> headers_refused 0 (tokens CRLF s)) \<and>
    set (pairs_of ns vs n) \<subseteq> set (headers_of s) \<and> (\<forall>(h, v)\<in>set (pairs_of ns vs n). NUL \<notin> set v)"
proof (cases "s = []")
  case True
  with assms(2) show ?thesis by (auto simp: parse_headers_def arrays_ok_def pairs_of_def)
next
  case False
  have out: "pairs_outcome (headers_of s) (headers_refused 0 (tokens CRLF s)) (False \<in> set al) (rc, ns, vs, n)"
    using header_p.outcome [OF assms(1) False, of al] assms(2) by simp
  show ?thesis
  proof (cases "rc = 0")
    case True
    with out have nr: "\<not> headers_refused 0 (tokens CRLF s)" and n: "n = length (headers_of s)"
      by (auto simp: pairs_outcome_def arrays_of_def)
    have "n \<le> 100" using headers_of_bound [OF nr] n by (simp add: headers_of_def)
    moreover have "NUL \<notin> set v" if "(h, v) \<in> set (headers_of s)" for h v
      using headers_of_each [OF that] assms(1) by blast
    ultimately show ?thesis
      using True nr header_p.arrays [OF assms(1) False assms(2)] by auto
  next
    case False
    with out show ?thesis by (auto simp: pairs_outcome_def arrays_of_def arrays_ok_def pairs_of_def)
  qed
qed

text \<open>
  What the header parser stores is safe to use and bounded: at most one hundred headers, each
  name a non-empty token of RFC 9110 and each value free of CR, LF and leading blanks; a block
  with a line of 4096 bytes or more stores nothing and reports failure.
\<close>

theorem parse_headers_safe:
  assumes "NUL \<notin> set s" "fst (parse_headers s al) = (rc, ns, vs, n)"
  shows "arrays_ok ns vs n \<and> n \<le> 100 \<and> (rc = 0 \<or> rc = -1) \<and> (rc = -1 \<longrightarrow> ns = None \<and> vs = None \<and> n = 0) \<and>
    (\<forall>(h, v)\<in>set (pairs_of ns vs n). mnet_header_name_valid (Some h) \<and> CR \<notin> set v \<and> LF \<notin> set v \<and>
       (v = [] \<or> hd v \<notin> {SP, TAB})) \<and>
    ((\<exists>l\<in>set (tokens CRLF s). 4096 \<le> length l) \<longrightarrow> rc = -1)"
proof -
  have "rc = -1" if "\<exists>l\<in>set (tokens CRLF s). 4096 \<le> length l"
    using parse_headers_facts [OF assms] headers_refused_long [OF that, of 0] by blast
  then show ?thesis using parse_headers_facts [OF assms] headers_of_each [of _ _ s] by blast
qed

theorem parse_headers_safe_witness:
  "\<exists>ns vs. fst (parse_headers ''Host: x'' []) = (0, ns, vs, 1) \<and> arrays_ok ns vs (1 :: nat) \<and>
    (\<forall>(h, v)\<in>set (pairs_of ns vs (1 :: nat)). mnet_header_name_valid (Some h))"
proof -
  have r: "fst (parse_headers ''Host: x'' []) = (0, Some [''Host''], Some [''x''], 1)" by code_simp
  have "NUL \<notin> set ''Host: x''" by simp
  from parse_headers_safe [OF this r] r show ?thesis by (fastforce simp del: One_nat_def)
qed

definition cookie_text :: "string \<times> string \<Rightarrow> string" where
  "cookie_text kv = fst kv @ CHR ''='' # snd kv"

definition wf_cookie :: "string \<times> string \<Rightarrow> bool" where
  "wf_cookie kv \<longleftrightarrow>
     NUL \<notin> set (cookie_text kv) \<and> CHR '';'' \<notin> set (cookie_text kv) \<and> CHR ''='' \<notin> set (fst kv) \<and>
     (fst kv = [] \<or> hd (fst kv) \<noteq> SP) \<and> (snd kv = [] \<or> hd (snd kv) \<noteq> SP)"

fun cookie_header :: "(string \<times> string) list \<Rightarrow> string" where
  "cookie_header [] = []"
| "cookie_header [kv] = cookie_text kv"
| "cookie_header (kv # kv' # kvs) = cookie_text kv @ ''; '' @ cookie_header (kv' # kvs)"

lemma dropWhile_SP: "s = [] \<or> hd s \<noteq> SP \<Longrightarrow> dropWhile (\<lambda>c. c = SP) s = s"
  by (cases s) auto

lemma cookie_of_text: "wf_cookie kv \<Longrightarrow> cookie_of (cookie_text kv) = kv \<and> cookie_of (SP # cookie_text kv) = kv"
proof -
  assume wf: "wf_cookie kv"
  then have "dropWhile (\<lambda>c. c = SP) (cookie_text kv) = cookie_text kv"
    by (intro dropWhile_SP) (cases "fst kv"; auto simp: cookie_text_def wf_cookie_def)
  moreover have "split_at_char CHR ''='' (cookie_text kv) = kv"
    using wf by (simp add: cookie_text_def wf_cookie_def split_at_char_join)
  moreover have "dropWhile (\<lambda>c. c = SP) (snd kv) = snd kv"
    using wf by (intro dropWhile_SP) (simp add: wf_cookie_def)
  ultimately show ?thesis by (cases kv) (simp add: cookie_of_def)
qed

lemma cookies_of_header:
  assumes "\<forall>kv\<in>set kvs. wf_cookie kv"
  shows "map cookie_of (tokens '';'' (cookie_header kvs)) = kvs"
    and "kvs \<noteq> [] \<Longrightarrow> map cookie_of (tokens '';'' (SP # cookie_header kvs)) = kvs"
  using assms
proof (induction kvs rule: cookie_header.induct)
  case (2 kv)
  have ne: "cookie_text kv \<noteq> []" by (simp add: cookie_text_def)
  { case 1 then show ?case using ne by (simp add: tokens_last wf_cookie_def cookie_of_text) }
  { case 2 then show ?case using ne by (simp add: tokens_last wf_cookie_def cookie_of_text) }
next
  case (3 kv kv' kvs)
  have ne: "cookie_text kv \<noteq> []" by (simp add: cookie_text_def)
  { case 1
    then have "tokens '';'' (cookie_text kv @ CHR '';'' # SP # cookie_header (kv' # kvs)) =
        cookie_text kv # tokens '';'' (SP # cookie_header (kv' # kvs))"
      using ne by (intro tokens_front) (auto simp: wf_cookie_def)
    with 1 3 show ?case by (simp add: cookie_of_text) }
  { case 2
    then have "tokens '';'' ((SP # cookie_text kv) @ CHR '';'' # SP # cookie_header (kv' # kvs)) =
        (SP # cookie_text kv) # tokens '';'' (SP # cookie_header (kv' # kvs))"
      by (intro tokens_front) (auto simp: wf_cookie_def)
    with 2 3 show ?case by (simp add: cookie_of_text) }
qed simp_all

lemma cookie_header_chars:
  "\<forall>kv\<in>set kvs. wf_cookie kv \<Longrightarrow> NUL \<notin> set (cookie_header kvs)"
  "kvs \<noteq> [] \<Longrightarrow> cookie_header kvs \<noteq> []"
  by (induction kvs rule: cookie_header.induct) (auto simp: wf_cookie_def cookie_text_def)

text \<open>
  A cookie header that lists pairs \<open>name=value\<close> separated by \<open>; \<close> parses back to exactly those
  pairs.
\<close>

theorem parse_cookies_roundtrip:
  assumes "kvs \<noteq> []" "\<forall>kv\<in>set kvs. wf_cookie kv" "False \<notin> set al"
  shows "fst (parse_cookies (cookie_header kvs) al) = arrays_of kvs"
  using cookie_p.succeeds [OF cookie_header_chars(1) [OF assms(2)] cookie_header_chars(2) [OF assms(1)], of al]
    assms(3) cookies_of_header(1) [OF assms(2)]
  by (simp add: with_code_def)

theorem parse_cookies_roundtrip_witness:
  "fst (parse_cookies ''sid=abc; theme=dark'' []) = arrays_of [(''sid'', ''abc''), (''theme'', ''dark'')]"
proof -
  let ?kvs = "[(''sid'', ''abc''), (''theme'', ''dark'')]"
  have "cookie_header ?kvs = ''sid=abc; theme=dark''" by (simp add: cookie_text_def)
  moreover have "\<forall>kv\<in>set ?kvs. wf_cookie kv" by (simp add: wf_cookie_def cookie_text_def)
  ultimately show ?thesis using parse_cookies_roundtrip [of ?kvs "[]"] by (simp del: cookie_header.simps)
qed

end
