(* ===== verification/Parse_Body.thy ===== *)
theory Parse_Body
  imports Parse
begin

text \<open>
  Correctness of \<open>read_full_body\<close>: which \<open>Content-Length\<close> and \<open>Transfer-Encoding\<close> headers the
  search finds, the value the digits stand for at the width of \<open>size_t\<close>, and the body read from
  the buffer and from the connection within the deadline.
\<close>

section \<open>Finding header lines\<close>

definition ci_prefix_at :: "string \<Rightarrow> string \<Rightarrow> nat \<Rightarrow> bool" where
  "ci_prefix_at needle s p \<longleftrightarrow> prefix (map to_lower needle) (map to_lower (drop p s))"

text \<open>The offsets before \<open>e\<close> at which a line starts with the needle, in any case.\<close>

definition line_hits :: "string \<Rightarrow> string \<Rightarrow> nat \<Rightarrow> nat set" where
  "line_hits needle s e = {p. p < e \<and> at_line_start s p \<and> ci_prefix_at needle s p}"

lemma strcasestr_Some:
  "strcasestr (drop pos s) needle = Some k \<Longrightarrow>
   ci_prefix_at needle s (pos + k) \<and> (\<forall>j. pos \<le> j \<and> j < pos + k \<longrightarrow> \<not> ci_prefix_at needle s j) \<and>
   pos + k + length needle \<le> length s \<or> needle = []"
proof -
  assume "strcasestr (drop pos s) needle = Some k"
  then have S: "strstr (map to_lower (drop pos s)) (map to_lower needle) = Some k"
    by (simp add: strcasestr_def)
  have "prefix (map to_lower needle) (drop k (map to_lower (drop pos s)))"
    using S by (rule strstr_prefix)
  then have "ci_prefix_at needle s (pos + k)"
    by (simp add: ci_prefix_at_def drop_map add.commute)
  moreover have "\<not> ci_prefix_at needle s j" if "pos \<le> j" "j < pos + k" for j
  proof -
    have "\<not> prefix (map to_lower needle) (drop (j - pos) (map to_lower (drop pos s)))"
      using strstr_least [OF S, of "j - pos"] that by simp
    then show ?thesis using that by (simp add: ci_prefix_at_def drop_map)
  qed
  moreover have "k + length needle \<le> length (drop pos s)" using strstr_bound [OF S] by simp
  then have "needle \<noteq> [] \<Longrightarrow> pos + k + length needle \<le> length s" by (cases needle) auto
  ultimately show ?thesis by blast
qed

lemma strcasestr_None:
  "strcasestr (drop pos s) needle = None \<Longrightarrow> pos \<le> j \<Longrightarrow> \<not> ci_prefix_at needle s j"
proof -
  assume "strcasestr (drop pos s) needle = None" and j: "pos \<le> j"
  then have "\<not> prefix (map to_lower needle) (drop (j - pos) (map to_lower (drop pos s)))"
    by (intro strstr_None) (simp add: strcasestr_def)
  then show ?thesis using j by (simp add: ci_prefix_at_def drop_map)
qed

text \<open>
  A needle that ends in a colon and has no other cannot overlap with itself, so skipping over a
  hit misses none.
\<close>

definition ends_in_colon :: "string \<Rightarrow> bool" where
  "ends_in_colon needle \<longleftrightarrow> (\<exists>w. needle = w @ [CHR '':''] \<and> CHR '':'' \<notin> set (map to_lower w))"

lemma ci_prefix_nth:
  "ci_prefix_at needle s p \<Longrightarrow> k < length needle \<Longrightarrow> to_lower (s ! (p + k)) = to_lower (needle ! k)"
proof -
  assume "ci_prefix_at needle s p" and k: "k < length needle"
  then obtain r where r: "map to_lower (drop p s) = map to_lower needle @ r"
    by (auto simp: ci_prefix_at_def prefix_def)
  then have "map to_lower (drop p s) ! k = to_lower (needle ! k)" using k by (simp add: nth_append)
  moreover have "k < length (drop p s)" using arg_cong [OF r, of length] k by simp
  ultimately show ?thesis by (simp add: add.commute)
qed

lemma no_overlap:
  assumes "ends_in_colon needle" "ci_prefix_at needle s p" "p < j" "j < p + length needle"
  shows "\<not> ci_prefix_at needle s j"
proof
  assume j: "ci_prefix_at needle s j"
  obtain w where w: "needle = w @ [CHR '':'']" "CHR '':'' \<notin> set (map to_lower w)"
    using assms(1) by (auto simp: ends_in_colon_def)
  let ?e = "p + length w"
  have "to_lower (s ! ?e) = to_lower CHR '':''"
    using ci_prefix_nth [OF assms(2), of "length w"] by (simp add: w)
  moreover have "?e - j < length w" using assms(3,4) w by simp
  then have "to_lower (s ! ?e) = to_lower (w ! (?e - j))"
    using ci_prefix_nth [OF j, of "?e - j"] assms(3,4) by (simp add: w nth_append)
  moreover have "to_lower (w ! (?e - j)) \<in> set (map to_lower w)"
    using \<open>?e - j < length w\<close> by simp
  ultimately show False using w(2) by (simp add: to_lower_def)
qed

lemma hits_step:
  assumes "ends_in_colon needle" "strcasestr (drop pos s) needle = Some k"
  shows "line_hits needle s e \<inter> {pos..} =
    (if pos + k < e \<and> at_line_start s (pos + k) then {pos + k} else {}) \<union>
    (line_hits needle s e \<inter> {pos + k + length needle..})"
proof -
  have ne: "needle \<noteq> []" using assms(1) by (auto simp: ends_in_colon_def)
  then have hit: "ci_prefix_at needle s (pos + k)"
    and before: "\<And>j. pos \<le> j \<Longrightarrow> j < pos + k \<Longrightarrow> \<not> ci_prefix_at needle s j"
    using strcasestr_Some [OF assms(2)] by auto
  have "j = pos + k \<or> pos + k + length needle \<le> j" if "pos \<le> j" "ci_prefix_at needle s j" for j
    using before [OF that(1)] that(2) no_overlap [OF assms(1) hit, of j] by linarith
  then show ?thesis using hit by (auto simp: line_hits_def)
qed

lemma finite_line_hits [simp]: "finite (line_hits needle s e)"
  by (rule finite_subset [of _ "{..<e}"]) (auto simp: line_hits_def)

lemma cl_needle: "ends_in_colon ''content-length:''" "ends_in_colon ''transfer-encoding:''"
  unfolding ends_in_colon_def
  by (rule exI [of _ "''content-length''"]; code_simp) (rule exI [of _ "''transfer-encoding''"]; code_simp)

lemma needle_lengths: "length ''content-length:'' = 15" "length ''transfer-encoding:'' = 18"
  by simp_all

lemma Max_insert_low:
  assumes "finite R" "R \<noteq> {}" "\<And>x. x \<in> R \<Longrightarrow> k < x"
  shows "Max (insert k R) = Max (R :: nat set)"
proof -
  have "k \<le> Max R" using assms(3) [OF Max_in [OF assms(1,2)]] by simp
  then show ?thesis by (simp add: Max_insert [OF assms(1,2)])
qed

lemma cl_search_spec:
  "cl_search s e pos h n =
    (let H = line_hits ''content-length:'' s e \<inter> {pos..}
     in (if H = {} then h else Some (Max H), n + card H))"
proof (induction s e pos h n rule: cl_search.induct)
  case (1 s e pos h n)
  let ?H = "line_hits ''content-length:'' s e"
  note U = cl_search.simps [of s e pos h n]
  show ?case
  proof (cases "strcasestr (drop pos s) ''content-length:''")
    case None
    then have "?H \<inter> {pos..} = {}" using strcasestr_None [OF None] by (auto simp: line_hits_def)
    with None show ?thesis by (simp add: U)
  next
    case (Some k)
    have step: "?H \<inter> {pos..} = (if pos + k < e \<and> at_line_start s (pos + k) then {pos + k} else {}) \<union>
        (?H \<inter> {pos + k + 15..})"
      using hits_step [OF cl_needle(1) Some, of e] by (simp only: needle_lengths)
    show ?thesis
    proof (cases "pos + k < e")
      case False
      then have "?H \<inter> {pos + k + 15..} = {}" by (auto simp: line_hits_def)
      with Some False step show ?thesis by (simp add: U)
    next
      case True
      let ?R = "?H \<inter> {pos + k + 15..}"
      have fin: "finite ?R" and low: "\<And>x. x \<in> ?R \<Longrightarrow> pos + k < x" by auto
      then have "pos + k \<notin> ?R" by blast
      with fin have "card (insert (pos + k) ?R) = Suc (card ?R)" by (rule card_insert_disjoint)
      moreover have "?R \<noteq> {} \<Longrightarrow> Max (insert (pos + k) ?R) = Max ?R"
        using Max_insert_low [OF fin _ low] by blast
      ultimately show ?thesis
        using True Some 1 by (cases "at_line_start s (pos + k)") (simp_all add: U step Let_def)
    qed
  qed
qed

text \<open>Reading the search off as a statement about header lines.\<close>

lemma cl_search_one: "cl_search s e 0 None 0 = (Some h, 1) \<Longrightarrow> line_hits ''content-length:'' s e = {h}"
proof -
  assume "cl_search s e 0 None 0 = (Some h, 1)"
  then have card: "card (line_hits ''content-length:'' s e) = 1" and m: "Max (line_hits ''content-length:'' s e) = h"
    by (simp_all add: cl_search_spec Let_def split: if_splits)
  from card obtain x where x: "line_hits ''content-length:'' s e = {x}" by (rule card_1_singletonE)
  with m show ?thesis by simp
qed

lemma cl_search_many: "cl_search s e 0 None 0 = (h, n) \<Longrightarrow> card (line_hits ''content-length:'' s e) = n"
  by (simp add: cl_search_spec Let_def)

lemma te_search_spec: "te_search s e pos \<longleftrightarrow> line_hits ''transfer-encoding:'' s e \<inter> {pos..} \<noteq> {}"
proof (induction s e pos rule: te_search.induct)
  case (1 s e pos)
  let ?H = "line_hits ''transfer-encoding:'' s e"
  note U = te_search.simps [of s e pos]
  show ?case
  proof (cases "strcasestr (drop pos s) ''transfer-encoding:''")
    case None
    then have "?H \<inter> {pos..} = {}" using strcasestr_None [OF None] by (auto simp: line_hits_def)
    with None show ?thesis by (simp add: U)
  next
    case (Some k)
    have step: "?H \<inter> {pos..} = (if pos + k < e \<and> at_line_start s (pos + k) then {pos + k} else {}) \<union>
        (?H \<inter> {pos + k + 18..})"
      using hits_step [OF cl_needle(2) Some, of e] by (simp only: needle_lengths)
    show ?thesis
    proof (cases "pos + k < e")
      case False
      then have "?H \<inter> {pos + k + 18..} = {}" by (auto simp: line_hits_def)
      with Some False step show ?thesis by (simp add: U)
    next
      case True
      with Some step 1 show ?thesis by (auto simp: U)
    qed
  qed
qed

section \<open>The value of Content-Length\<close>

text \<open>
  The accumulator agrees with the number the digits stand for until that number exceeds the
  limit, and then the overflow flag is set for good. The multiplication cannot wrap before that
  as long as the limit leaves room for one more digit in \<open>size_t\<close>.
\<close>

definition room_for_digit :: "size_t \<Rightarrow> bool" where
  "room_for_digit mx \<longleftrightarrow> unat mx + 10 \<le> 2 ^ 64"

lemma digit_step:
  assumes "room_for_digit mx" "p \<le> mx div 10" "d < 10"
  shows "unat (p * 10 + word_of_nat d :: size_t) = unat p * 10 + d"
proof -
  have "unat p \<le> unat mx div 10" using assms(2) by (simp add: word_le_nat_alt unat_div)
  then have "unat p * 10 + d < 2 ^ 64" using assms(1,3) by (simp add: room_for_digit_def)
  moreover from this have "unat p * 10 < 2 ^ 64" by simp
  ultimately show ?thesis
    using assms(3) by (simp add: unat_word_ariths unat_of_nat take_bit_eq_mod)
qed

lemma digit_val_less: "isdigit c \<Longrightarrow> digit_val c < 10"
  by (auto simp: isdigit_def digit_val_def)

lemma cl_digits_spec:
  assumes "room_for_digit mx" "ovf \<longleftrightarrow> unat mx < a" "\<not> ovf \<Longrightarrow> unat p = a"
  shows "\<exists>p'. cl_digits mx s seen ovf p =
      ((seen \<or> takeWhile isdigit s \<noteq> [],
        unat mx < foldl (\<lambda>a c. a * 10 + digit_val c) a (takeWhile isdigit s), p'), dropWhile isdigit s) \<and>
    (foldl (\<lambda>a c. a * 10 + digit_val c) a (takeWhile isdigit s) \<le> unat mx \<longrightarrow>
     unat p' = foldl (\<lambda>a c. a * 10 + digit_val c) a (takeWhile isdigit s))"
  using assms
proof (induction s arbitrary: seen ovf p a)
  case Nil
  then show ?case by auto
next
  case (Cons c s)
  show ?case
  proof (cases "isdigit c")
    case False
    with Cons show ?thesis by auto
  next
    case True
    let ?a = "a * 10 + digit_val c" and ?p = "p * 10 + word_of_nat (digit_val c)"
    let ?o = "ovf \<or> p > mx div 10 \<or> ?p > mx"
    have o: "?o \<longleftrightarrow> unat mx < ?a" and v: "\<not> ?o \<Longrightarrow> unat ?p = ?a"
    proof -
      show "?o \<longleftrightarrow> unat mx < ?a"
      proof (cases "ovf \<or> p > mx div 10")
        case True
        moreover have "unat mx < a * 10" if "\<not> ovf" "p > mx div 10"
          using that Cons.prems(3) by (simp add: word_less_nat_alt unat_div)
        ultimately show ?thesis using Cons.prems(2) by (cases ovf) auto
      next
        case False
        then have "unat ?p = ?a"
          using Cons.prems(1,3) digit_step digit_val_less [OF True] by (simp add: not_less)
        with False show ?thesis by (simp add: word_less_nat_alt)
      qed
      show "\<not> ?o \<Longrightarrow> unat ?p = ?a"
        using Cons.prems(1,3) digit_step digit_val_less [OF True] by (simp add: not_less)
    qed
    from Cons.IH [OF Cons.prems(1) o v, of True] True show ?thesis
      by (simp add: Let_def disj_assoc)
  qed
qed

lemma cl_digits_value:
  assumes "room_for_digit mx"
  shows "\<exists>p'. cl_digits mx s False False 0 =
      ((takeWhile isdigit s \<noteq> [], unat mx < dec_val (takeWhile isdigit s), p'), dropWhile isdigit s) \<and>
    (dec_val (takeWhile isdigit s) \<le> unat mx \<longrightarrow> unat p' = dec_val (takeWhile isdigit s))"
  using cl_digits_spec [OF assms, of False 0 0 s False] by (simp add: dec_val_def)

text \<open>The decimal number after the colon, if it is one, ended by the end of its line.\<close>

definition announced :: "string \<Rightarrow> nat \<Rightarrow> nat option" where
  "announced s h =
     (let val = dropWhile (\<lambda>c. c = SP \<or> c = TAB) (drop (h + 15) s)
      in case dropWhile isdigit val of
           [] \<Rightarrow> None
         | c # _ \<Rightarrow>
             if takeWhile isdigit val \<noteq> [] \<and> (c = CR \<or> c = LF) then Some (dec_val (takeWhile isdigit val))
             else None)"

lemma content_length_spec:
  assumes "room_for_digit mx"
  shows "content_length_of s (Some h) mx =
    (case announced s h of
       None \<Rightarrow> Inl (-2)
     | Some n \<Rightarrow> if unat mx < n then Inl (-1) else Inr (word_of_nat n))"
proof -
  define val where "val = dropWhile (\<lambda>c. c = SP \<or> c = TAB) (drop (h + 15) s)"
  obtain p' where p': "cl_digits mx val False False 0 =
      ((takeWhile isdigit val \<noteq> [], unat mx < dec_val (takeWhile isdigit val), p'), dropWhile isdigit val)"
    "dec_val (takeWhile isdigit val) \<le> unat mx \<longrightarrow> unat p' = dec_val (takeWhile isdigit val)"
    using cl_digits_value [OF assms, of val] by blast
  have "\<not> unat mx < dec_val (takeWhile isdigit val) \<Longrightarrow> p' = word_of_nat (dec_val (takeWhile isdigit val))"
    using p'(2) by (metis linorder_not_less of_nat_unat ucast_id)
  with p'(1) show ?thesis
    by (cases "dropWhile isdigit val")
      (auto simp: content_length_of_def announced_def Let_def val_def [symmetric]
        simp del: dropWhile_eq_Nil_conv)
qed

section \<open>Reading the rest of the body\<close>

lemma body_loop_facts:
  assumes "body_loop deadline n acc c = (r, c')" "length acc \<le> n"
  shows "c_sent c' = c_sent c \<and> c_clock c \<le> c_clock c' \<and> c_clock c' \<le> max (c_clock c) deadline \<and>
    (\<forall>body. r = Some body \<longrightarrow> length body = n \<and> acc @ stream c = body @ stream c')"
  using assms
proof (induction deadline n acc c rule: body_loop.induct)
  case (1 deadline n acc c)
  note U = body_loop.simps [of deadline n acc c]
  show ?case
  proof (cases "length acc < n \<and> 0 < deadline - c_clock c")
    case False
    with 1 show ?thesis by (auto simp: U Let_def split: if_splits)
  next
    case True
    then have lt: "length acc < n" and left: "0 \<le> deadline - c_clock c" "\<not> deadline - c_clock c \<le> 0" by auto
    obtain pr c1 where P: "mnet_poll (deadline - c_clock c) c = (pr, c1)" by fastforce
    note pf = mnet_poll_facts [OF P left(1)]
    obtain x c2 where R: "mnet_recv (n - length acc) c1 = (x, c2)" by fastforce
    show ?thesis
    proof (cases "pr \<le> 0 \<or> x = None \<or> x = Some []")
      case True
      then have "r = None \<and> (c' = c1 \<or> c' = c2)"
        using 1(2) lt left P R by (auto simp: U Let_def split: if_splits)
      moreover have "c_sent c2 = c_sent c1 \<and> c_clock c2 = c_clock c1"
        using R mnet_recv_None mnet_recv_facts by (cases x) blast+
      ultimately show ?thesis using pf by auto
    next
      case False
      then obtain xs where xs: "x = Some xs" "xs \<noteq> []" by auto
      note rf = mnet_recv_facts [OF R [unfolded xs(1)]]
      have "body_loop deadline n (acc @ xs) c2 = (r, c')"
        using 1(2) lt left P R xs False by (simp add: U Let_def)
      moreover have "length (acc @ xs) \<le> n" using rf(3) lt by simp
      ultimately have "c_sent c' = c_sent c2 \<and> c_clock c2 \<le> c_clock c' \<and> c_clock c' \<le> max (c_clock c2) deadline \<and>
        (\<forall>body. r = Some body \<longrightarrow> length body = n \<and> (acc @ xs) @ stream c2 = body @ stream c')"
        using 1(1) [OF lt refl left(2) P [symmetric] _ R [symmetric] xs] False
        by blast
      then show ?thesis using pf rf(1,2) rf(4) [OF xs(2)] left by auto
    qed
  qed
qed

text \<open>A peer that delivers enough data before the deadline is always read to the end.\<close>

lemma body_loop_bytes: "body_loop deadline n acc c = (r, c') \<Longrightarrow> inbox_bytes c' \<le> inbox_bytes c"
proof (induction deadline n acc c rule: body_loop.induct)
  case (1 deadline n acc c)
  note U = 1(2) [unfolded body_loop.simps [of deadline n acc c] Let_def]
  show ?case
  proof (cases "length acc < n \<and> \<not> deadline - c_clock c \<le> 0")
    case False
    with U show ?thesis by (auto split: if_splits)
  next
    case True
    obtain pr c1 where P: "mnet_poll (deadline - c_clock c) c = (pr, c1)" by fastforce
    obtain x c2 where R: "mnet_recv (n - length acc) c1 = (x, c2)" by fastforce
    show ?thesis
    proof (cases "pr \<le> 0 \<or> x = None \<or> x = Some []")
      case stop: True
      then have "c' = c1 \<or> c' = c2" using U True P R by (auto split: if_splits)
      moreover have "inbox_bytes c2 \<le> inbox_bytes c1"
        using R recv_bytes [of _ c1 _ c2] mnet_recv_None [of _ c1 c2] by (cases x) auto
      ultimately show ?thesis using poll_bytes [OF P] by auto
    next
      case False
      then obtain xs where xs: "x = Some xs" "xs \<noteq> []" by auto
      have "body_loop deadline n (acc @ xs) c2 = (r, c')" using U True P R xs False by simp
      then have "inbox_bytes c' \<le> inbox_bytes c2"
        using 1(1) [OF _ refl _ P [symmetric] _ R [symmetric] xs] True False by blast
      with recv_bytes [OF R [unfolded xs(1)]] poll_bytes [OF P] show ?thesis by simp
    qed
  qed
qed

lemma body_loop_progress:
  assumes "data_only (c_inbox c)" "length acc \<le> n" "n \<le> length acc + length (stream c)"
    and "c_clock c + int (total_delay (c_inbox c)) < deadline"
  shows "\<exists>body c'. body_loop deadline n acc c = (Some body, c')"
  using assms
proof (induction deadline n acc c rule: body_loop.induct)
  case (1 deadline n acc c)
  note U = body_loop.simps [of deadline n acc c]
  show ?case
  proof (cases "length acc < n")
    case False
    then show ?thesis by (simp add: U)
  next
    case True
    let ?left = "deadline - c_clock c"
    have left: "\<not> ?left \<le> 0" and ne: "stream c \<noteq> []" and tot: "int (total_delay (c_inbox c)) \<le> ?left"
      using 1(4,5) True by auto
    obtain c1 where P: "mnet_poll ?left c = (1, c1)" "data_only (c_inbox c1)" "c_inbox c1 \<noteq> []"
      "c_clock c1 + int (total_delay (c_inbox c1)) = c_clock c + int (total_delay (c_inbox c))"
      "stream c1 = stream c"
      using mnet_poll_data [OF 1(2) tot ne] by metis
    obtain xs c2 where R: "mnet_recv (n - length acc) c1 = (Some xs, c2)" "xs \<noteq> []" "data_only (c_inbox c2)"
      "total_delay (c_inbox c2) \<le> total_delay (c_inbox c1)" "c_clock c2 = c_clock c1" "stream c1 = xs @ stream c2"
      using mnet_recv_data [OF P(2,3), of "n - length acc"] True by (metis zero_less_diff)
    have "length (stream c) = length xs + length (stream c2)" using P(5) R(6) by (metis length_append)
    moreover have "length xs \<le> n - length acc" using mnet_recv_facts(3) [OF R(1)] .
    ultimately have "\<exists>body c'. body_loop deadline n (acc @ xs) c2 = (Some body, c')"
      using P(4,5) R(3-6) 1(4,5) True
      by (intro 1(1) [OF True refl left P(1) [symmetric] _ R(1) [symmetric] refl R(2)]) auto
    with True left P(1) R(1,2) show ?thesis by (simp add: U Let_def)
  qed
qed

section \<open>The whole body\<close>

lemma end_of_headers_bound:
  "end_of_headers s = Some (i, sep) \<Longrightarrow> i + sep \<le> length s \<and> (sep = 4 \<or> sep = 2)"
  using strstr_bound [of s CRLF2] strstr_bound [of s LF2]
  by (auto simp: end_of_headers_def split: option.splits)

text \<open>
  C20. How \<open>read_full_body\<close> decides, on every header block: two line-initial \<open>Content-Length\<close>
  headers (in any case, anywhere in the header section) give -3; otherwise a line-initial
  \<open>Transfer-Encoding\<close> gives -4; otherwise a \<open>Content-Length\<close> that is not a plain decimal number
  followed by the end of its line gives -2, and one above the limit -1 (the number is the
  mathematical value of its digits, however many there are: no wrap-around slips through as long
  as the limit is at most \<open>SIZE_MAX - 9\<close>). Headers in the body are not looked at.
\<close>

theorem read_full_body_rejects:
  assumes "end_of_headers (c_string buffer) = Some (i, sep)" "room_for_digit mx"
  shows "let s = c_string buffer; H = line_hits ''content-length:'' s i;
             rc = br_code (fst (read_full_body buffer mx timeout c al))
         in (1 < card H \<longrightarrow> rc = -3) \<and>
            (card H \<le> 1 \<and> line_hits ''transfer-encoding:'' s i \<noteq> {} \<longrightarrow> rc = -4) \<and>
            (\<forall>h. H = {h} \<and> line_hits ''transfer-encoding:'' s i = {} \<longrightarrow>
               (announced s h = None \<longrightarrow> rc = -2) \<and>
               (\<forall>n. announced s h = Some n \<and> unat mx < n \<longrightarrow> rc = -1))"
proof -
  let ?s = "c_string buffer"
  have cl: "cl_search ?s i 0 None 0 =
      (let H = line_hits ''content-length:'' ?s i in (if H = {} then None else Some (Max H), card H))"
    by (simp add: cl_search_spec)
  have te: "te_search ?s i 0 \<longleftrightarrow> line_hits ''transfer-encoding:'' ?s i \<noteq> {}"
    by (simp add: te_search_spec)
  show ?thesis
    using assms by (auto simp: read_full_body_def cl te Let_def body_fail_def content_length_spec)
qed

theorem read_full_body_rejects_witness:
  "br_code (fst (read_full_body (''POST / HTTP/1.1'' @ CRLF @ ''Content-Length: 5'' @ CRLF @ ''content-length: 6'' @ CRLF2 @ ''hello'')
     1000 100 \<lparr>c_clock = 0, c_inbox = [], c_sent = []\<rparr> [])) = -3"
proof -
  let ?b = "''POST / HTTP/1.1'' @ CRLF @ ''Content-Length: 5'' @ CRLF @ ''content-length: 6'' @ CRLF2 @ ''hello''"
  have e: "end_of_headers (c_string ?b) = Some (53, 4)" by code_simp
  have "cl_search (c_string ?b) 53 0 None 0 = (Some 36, 2)" by code_simp
  from cl_search_many [OF this] show ?thesis
    using read_full_body_rejects [OF e, of 1000 100 "\<lparr>c_clock = 0, c_inbox = [], c_sent = []\<rparr>" "[]"]
    by (simp add: Let_def room_for_digit_def)
qed

lemma unat_size_le: "n \<le> unat (mx :: size_t) \<Longrightarrow> unat (word_of_nat n :: size_t) = n"
  using unsigned_less [of mx, where 'a = nat] by (simp add: unat_of_nat)

lemma size_of_le:
  assumes "n \<le> unat (mx :: size_t)"
  shows "(word_of_nat n :: size_t) = 0 \<longleftrightarrow> n = 0" and "\<not> mx < word_of_nat n"
proof -
  note w = unat_size_le [OF assms]
  show "(word_of_nat n :: size_t) = 0 \<longleftrightarrow> n = 0"
    using w by (cases "n = 0") (auto simp: unat_eq_zero)
  show "\<not> mx < word_of_nat n" using w assms by (simp add: word_less_nat_alt)
qed

lemma read_full_body_unfold:
  assumes "end_of_headers (c_string buffer) = Some (i, sep)" "room_for_digit mx"
    and "br_code (fst (read_full_body buffer mx timeout c al)) = 0"
  obtains (none) "line_hits ''content-length:'' (c_string buffer) i = {}"
      "read_full_body buffer mx timeout c al =
         (\<lparr>br_code = 0, br_body = Some [], br_length = 0, br_heap = False\<rparr>, c, al)"
  | (some) h n where "line_hits ''content-length:'' (c_string buffer) i = {h}"
      "announced (c_string buffer) h = Some n" "n \<le> unat mx"
      "read_full_body buffer mx timeout c al =
         (if n \<le> length (drop (i + sep) buffer)
          then (\<lparr>br_code = 0, br_body = Some (take n (drop (i + sep) buffer)), br_length = n, br_heap = False\<rparr>, c, al)
          else case malloc al of
              (False, al') \<Rightarrow> (body_fail (-1), c, al')
            | (True, al') \<Rightarrow>
                (case body_loop (c_clock c + timeout) n (drop (i + sep) buffer) c of
                   (None, c') \<Rightarrow> (body_fail (-1), c', al')
                 | (Some body, c') \<Rightarrow>
                     (\<lparr>br_code = 0, br_body = Some body, br_length = n, br_heap = True\<rparr>, c', al')))"
proof -
  let ?s = "c_string buffer" and ?H = "line_hits ''content-length:'' (c_string buffer) i"
  have cl: "cl_search ?s i 0 None 0 = (if ?H = {} then None else Some (Max ?H), card ?H)"
    by (simp add: cl_search_spec Let_def)
  have few: "\<not> 1 < card ?H"
    using assms(1,3) by (rule_tac notI) (simp add: read_full_body_def cl body_fail_def Let_def)
  have te: "\<not> te_search ?s i 0"
    using assms(1,3) few by (rule_tac notI) (simp add: read_full_body_def cl body_fail_def Let_def)
  show thesis
  proof (cases "?H = {}")
    case True
    then have "read_full_body buffer mx timeout c al =
         (\<lparr>br_code = 0, br_body = Some [], br_length = 0, br_heap = False\<rparr>, c, al)"
      using assms(1) te by (simp add: read_full_body_def cl content_length_of_def)
    with True show thesis by (rule none)
  next
    case False
    then have "card ?H = 1" using few card_gt_0_iff [of ?H] by simp
    then obtain h where h: "?H = {h}" by (rule card_1_singletonE)
    have U: "read_full_body buffer mx timeout c al =
      (case content_length_of ?s (Some h) mx of
         Inl rc \<Rightarrow> (body_fail rc, c, al)
       | Inr n \<Rightarrow>
           if n = 0 then (\<lparr>br_code = 0, br_body = Some [], br_length = 0, br_heap = False\<rparr>, c, al)
           else if n > mx then (body_fail (-1), c, al)
           else if length (drop (i + sep) buffer) \<ge> unat n then
             (\<lparr>br_code = 0, br_body = Some (take (unat n) (drop (i + sep) buffer)), br_length = unat n, br_heap = False\<rparr>, c, al)
           else
             (case malloc al of
                (False, al') \<Rightarrow> (body_fail (-1), c, al')
              | (True, al') \<Rightarrow>
                  (case body_loop (c_clock c + timeout) (unat n) (drop (i + sep) buffer) c of
                     (None, c') \<Rightarrow> (body_fail (-1), c', al')
                   | (Some body, c') \<Rightarrow>
                       (\<lparr>br_code = 0, br_body = Some body, br_length = unat n, br_heap = True\<rparr>, c', al'))))"
      using assms(1) te h by (simp add: read_full_body_def cl Let_def)
    obtain n where n: "announced ?s h = Some n" "n \<le> unat mx"
      using assms(3) unfolding U content_length_spec [OF assms(2)]
      by (auto simp: body_fail_def split: option.splits if_splits)
    have w: "unat (word_of_nat n :: size_t) = n"
      using n(2) by (rule unat_size_le)
    show thesis
      using n(2) size_of_le [OF n(2)] by (intro some [OF h n])
        (auto simp: n(1) w U content_length_spec [OF assms(2)] split: prod.splits bool.splits option.splits)
  qed
qed

text \<open>
  C19. A body that \<open>read_full_body\<close> returns is exactly the bytes that follow the header block in
  what the peer sent: the announced number of them (none without a \<open>Content-Length\<close>), never
  more than the limit, first those already in the buffer and then those from the connection,
  with nothing read beyond the body. Nothing is sent, and the routine returns within the timeout
  however slowly the peer sends.
\<close>

theorem read_full_body_exact:
  assumes "end_of_headers (c_string buffer) = Some (i, sep)" "room_for_digit mx" "0 \<le> timeout"
    and "read_full_body buffer mx timeout c al = (r, c', al')" "br_code r = 0"
  shows "\<exists>body. br_body r = Some body \<and> br_length r = length body \<and> length body \<le> unat mx \<and>
    (let H = line_hits ''content-length:'' (c_string buffer) i
     in if H = {} then body = [] else \<exists>h. H = {h} \<and> announced (c_string buffer) h = Some (length body)) \<and>
    (if br_heap r then drop (i + sep) buffer @ stream c = body @ stream c'
     else prefix body (drop (i + sep) buffer) \<and> c' = c) \<and>
    c_sent c' = c_sent c \<and> c_clock c' \<le> c_clock c + timeout"
proof -
  have ok: "br_code (fst (read_full_body buffer mx timeout c al)) = 0" using assms(4,5) by simp
  from assms(1,2) ok show ?thesis
  proof (cases rule: read_full_body_unfold)
    case none
    with assms(3,4) show ?thesis by auto
  next
    case (some h n)
    show ?thesis
    proof (cases "n \<le> length (drop (i + sep) buffer)")
      case True
      then have "length (take n (drop (i + sep) buffer)) = n" by simp
      with True some assms(3,4) show ?thesis by (auto simp: take_is_prefix)
    next
      case False
      then obtain body where b: "body_loop (c_clock c + timeout) n (drop (i + sep) buffer) c = (Some body, c')"
        "br_body r = Some body" "br_length r = n" "br_heap r"
        using some(4) assms(4,5) by (auto simp: body_fail_def split: prod.splits bool.splits option.splits)
      have "length (drop (i + sep) buffer) \<le> n" using False by simp
      from body_loop_facts [OF b(1) this] some(1-3) b(2-4) assms(3) show ?thesis by auto
    qed
  qed
qed

theorem read_full_body_exact_witness:
  "\<exists>r c' al'. read_full_body (''PUT / HTTP/1.1'' @ CRLF @ ''Content-Length: 5'' @ CRLF2 @ ''he'') 1000 100
     \<lparr>c_clock = 0, c_inbox = [Data 10 ''l'', Data 20 ''lo!''], c_sent = []\<rparr> [] = (r, c', al') \<and>
     br_body r = Some ''hello'' \<and> c_clock c' \<le> 100"
proof -
  let ?b = "''PUT / HTTP/1.1'' @ CRLF @ ''Content-Length: 5'' @ CRLF2 @ ''he''"
    and ?c = "\<lparr>c_clock = 0, c_inbox = [Data 10 ''l'', Data 20 ''lo!''], c_sent = []\<rparr>"
  have e: "end_of_headers (c_string ?b) = Some (33, 4)" by code_simp
  have r: "read_full_body ?b 1000 100 ?c [] =
      (\<lparr>br_code = 0, br_body = Some ''hello'', br_length = 5, br_heap = True\<rparr>,
       \<lparr>c_clock = 30, c_inbox = [Data 0 ''!''], c_sent = []\<rparr>, [])"
    by code_simp
  from read_full_body_exact [OF e _ _ r] r show ?thesis by (auto simp: room_for_digit_def)
qed

text \<open>
  No well-behaved upload is lost: when the announced length is within the limit and the peer
  delivers at least that many bytes before the timeout, in any number of pieces, and the
  allocation of the body succeeds, the body is read.
\<close>

theorem read_full_body_progress:
  assumes "end_of_headers (c_string buffer) = Some (i, sep)" "room_for_digit mx" "0 < timeout"
    and "line_hits ''content-length:'' (c_string buffer) i = {h}" "line_hits ''transfer-encoding:'' (c_string buffer) i = {}"
    and "announced (c_string buffer) h = Some n" "n \<le> unat mx"
    and "data_only (c_inbox c)" "n \<le> length (drop (i + sep) buffer) + length (stream c)"
    and "int (total_delay (c_inbox c)) < timeout"
  shows "br_code (fst (read_full_body buffer mx timeout c [])) = 0"
proof -
  let ?init = "drop (i + sep) buffer"
  have w: "unat (word_of_nat n :: size_t) = n"
    using assms(7) by (rule unat_size_le)
  have "\<not> mx < word_of_nat n" using w assms(7) by (simp add: word_less_nat_alt)
  moreover have "n \<le> length ?init \<or> (\<exists>body c'. body_loop (c_clock c + timeout) n ?init c = (Some body, c'))"
    using body_loop_progress [OF assms(8), of ?init n "c_clock c + timeout"] assms(9,10)
    by (cases "n \<le> length ?init") auto
  ultimately show ?thesis
    using assms(1,2,4-7) w
    by (auto simp: read_full_body_def Let_def cl_search_spec te_search_spec content_length_spec)
qed

theorem read_full_body_progress_witness:
  "br_code (fst (read_full_body (''PUT / HTTP/1.1'' @ CRLF @ ''Content-Length: 5'' @ CRLF2 @ ''he'') 1000 100
     \<lparr>c_clock = 0, c_inbox = [Data 10 ''l'', Data 20 ''lo!''], c_sent = []\<rparr> [])) = 0"
proof -
  let ?b = "''PUT / HTTP/1.1'' @ CRLF @ ''Content-Length: 5'' @ CRLF2 @ ''he''"
    and ?c = "\<lparr>c_clock = 0, c_inbox = [Data 10 ''l'', Data 20 ''lo!''], c_sent = []\<rparr>"
  have e: "end_of_headers (c_string ?b) = Some (33, 4)" by code_simp
  have "cl_search (c_string ?b) 33 0 None 0 = (Some 16, 1)" by code_simp
  note h = cl_search_one [OF this]
  have "\<not> te_search (c_string ?b) 33 0" by code_simp
  then have t: "line_hits ''transfer-encoding:'' (c_string ?b) 33 = {}" by (simp add: te_search_spec)
  have a: "announced (c_string ?b) 16 = Some 5" by code_simp
  have l: "5 \<le> length (drop (33 + 4) ?b) + length (stream ?c)" by (simp add: stream_def)
  show ?thesis
    by (rule read_full_body_progress [OF e _ _ h t a _ _ l]) (simp_all add: room_for_digit_def)
qed

text \<open>
  Without the room for one more digit the check is not enough: with the limit set to the largest
  \<open>size_t\<close>, a \<open>Content-Length\<close> of \<open>2^64 + 3\<close> passes as 3.
\<close>

theorem content_length_wraps:
  "content_length_of (''Content-Length: 18446744073709551619'' @ CRLF) (Some 0) (- 1) = Inr 3"
  by code_simp

end
