(* ===== verification/Parse_Request.thy ===== *)
theory Parse_Request
  imports Parse_Lines Parse_Body
begin

text \<open>
  Correctness of \<open>parse_request\<close> as a whole: it is defined on every input, what it hands to the
  dispatcher is well formed, and a request written as HTTP prescribes is read back field by field.
\<close>

section \<open>Well-formed extras\<close>

definition wf_extras :: "request_extras \<Rightarrow> bool" where
  "wf_extras e \<longleftrightarrow>
     arrays_ok (ex_query_names e) (ex_query_values e) (ex_query_count e) \<and> ex_query_count e \<le> 16 \<and>
     arrays_ok (ex_header_names e) (ex_header_values e) (ex_header_count e) \<and> ex_header_count e \<le> 100 \<and>
     arrays_ok (ex_cookie_names e) (ex_cookie_values e) (ex_cookie_count e)"

lemma wf_no_extras [simp]: "wf_extras no_extras"
  by (simp add: wf_extras_def no_extras_def arrays_ok_def)

lemma wf_set_query: "wf_extras e \<Longrightarrow> arrays_ok ns vs n \<Longrightarrow> n \<le> 16 \<Longrightarrow> wf_extras (set_query (ns, vs, n) e)"
  by (simp add: wf_extras_def set_query_def)

lemma wf_set_headers: "wf_extras e \<Longrightarrow> arrays_ok ns vs n \<Longrightarrow> n \<le> 100 \<Longrightarrow> wf_extras (set_headers (ns, vs, n) e)"
  by (simp add: wf_extras_def set_headers_def)

lemma wf_set_cookies: "wf_extras e \<Longrightarrow> arrays_ok ns vs n \<Longrightarrow> wf_extras (set_cookies (ns, vs, n) e)"
  by (simp add: wf_extras_def set_cookies_def)

lemmas wf_extras_intros = wf_no_extras wf_set_query wf_set_headers wf_set_cookies

lemma arrays_ok_None [simp]: "arrays_ok None vs n"
  by (simp add: arrays_ok_def)

lemma parse_cookies_arrays: "NUL \<notin> set s \<Longrightarrow> fst (parse_cookies s al) = (ns, vs, n) \<Longrightarrow> arrays_ok ns vs n"
  using cookie_p.arrays [of s al _ ns vs n]
  by (cases "s = []") (auto simp: parse_cookies_def with_code_def)

lemma header_effects_arrays:
  assumes "\<forall>(h, v)\<in>set hs. NUL \<notin> set v" "arrays_ok a b k"
    and "header_effects hs (a, b, k) keep al = (((ns, vs, n), keep'), al')"
  shows "arrays_ok ns vs n"
  using assms
proof (induction hs "(a, b, k)" keep al arbitrary: a b k rule: header_effects.induct)
  case (1 keep al)
  then show ?case by simp
next
  case (2 h v hs keep al)
  obtain c al1 where c: "(if strcaseeq h ''Cookie'' then parse_cookies v al else ((a, b, k), al)) = (c, al1)"
    by fastforce
  obtain a' b' k' where c': "c = (a', b', k')" by (cases c) auto
  have "arrays_ok a' b' k'"
    using c c' 2(2,3) parse_cookies_arrays [of v al a' b' k'] by (auto split: if_splits)
  with 2(1) [OF c [symmetric, unfolded c'] refl refl] 2(2,4) c c' show ?case by (simp add: Let_def)
qed

lemma keep_alive_effects:
  "header_effects hs c keep al = ((c', keep'), al') \<Longrightarrow>
   keep' \<longleftrightarrow> keep \<or> (\<exists>(h, v)\<in>set hs. strcaseeq h ''Connection'' \<and> strcaseeq v ''keep-alive'')"
  by (induction hs c keep al rule: header_effects.induct) (auto simp: Let_def split: prod.splits)

lemma content_length_codes: "content_length_of s h mx = Inl rc \<Longrightarrow> rc = -1 \<or> rc = -2"
  by (auto simp: content_length_of_def Let_def split: option.splits prod.splits if_splits)

lemma read_full_body_frame:
  assumes "read_full_body buffer mx timeout c al = (r, c', al')" "0 \<le> timeout"
  shows "br_code r \<in> {0, -1, -2, -3, -4} \<and> c_sent c' = c_sent c \<and>
    c_clock c \<le> c_clock c' \<and> c_clock c' \<le> c_clock c + timeout \<and> inbox_bytes c' \<le> inbox_bytes c \<and>
    (br_code r = 0 \<longrightarrow> (\<exists>body. br_body r = Some body \<and> br_length r = length body)) \<and>
    (br_code r \<noteq> 0 \<longrightarrow> \<not> br_heap r)"
proof (cases "end_of_headers (c_string buffer)")
  case None
  with assms show ?thesis by (auto simp: read_full_body_def body_fail_def)
next
  case (Some p)
  obtain i sep where p: "p = (i, sep)" by fastforce
  obtain h k where cl: "cl_search (c_string buffer) i 0 None 0 = (h, k)" by fastforce
  let ?init = "drop (i + sep) buffer"
  show ?thesis
  proof (cases "k > 1 \<or> te_search (c_string buffer) i 0")
    case True
    with assms Some p cl show ?thesis by (auto simp: read_full_body_def body_fail_def Let_def split: if_splits)
  next
    case False
    show ?thesis
    proof (cases "content_length_of (c_string buffer) h mx")
      case (Inl rc)
      with assms Some p cl False content_length_codes [OF Inl] show ?thesis
        by (auto simp: read_full_body_def body_fail_def)
    next
      case (Inr n)
      show ?thesis
      proof (cases "n = 0 \<or> n > mx \<or> unat n \<le> length ?init \<or> \<not> fst (malloc al)")
        case True
        with assms Some p cl False Inr show ?thesis
          by (cases "malloc al"; cases "fst (malloc al)")
            (auto simp: read_full_body_def body_fail_def Let_def split: if_splits)
      next
        case late: False
        obtain b c1 where b: "body_loop (c_clock c + timeout) (unat n) ?init c = (b, c1)" by fastforce
        have "length ?init \<le> unat n" using late by auto
        note f = body_loop_facts [OF b this]
        have "c_clock c1 \<le> max (c_clock c) (c_clock c + timeout)" using f by blast
        then have F: "c_clock c1 \<le> c_clock c + timeout" "c_sent c1 = c_sent c" "c_clock c \<le> c_clock c1"
          "\<And>body. b = Some body \<Longrightarrow> length body = unat n"
          using f assms(2) by (simp, blast+)
        obtain al1 where m: "malloc al = (True, al1)" using late by (cases "malloc al") auto
        have "\<not> 1 < k" "\<not> te_search (c_string buffer) i 0" "n \<noteq> 0" "\<not> mx < n" "\<not> unat n \<le> length ?init"
          using late False by blast+
        then have "read_full_body buffer mx timeout c al =
          (case b of None \<Rightarrow> (body_fail (-1), c1, al1) | Some body \<Rightarrow>
            (\<lparr>br_code = 0, br_body = Some body, br_length = unat n, br_heap = True\<rparr>, c1, al1))"
          unfolding read_full_body_def Let_def Some p option.case prod.case cl Inr sum.case if_False m bool.case b
          by (simp only: if_False)
        then have "c' = c1 \<and> r = (case b of None \<Rightarrow> body_fail (-1) | Some body \<Rightarrow>
            \<lparr>br_code = 0, br_body = Some body, br_length = unat n, br_heap = True\<rparr>)"
          using assms(1) by (auto split: option.splits)
        with F body_loop_bytes [OF b] show ?thesis by (cases b) (simp_all add: body_fail_def)
      qed
    qed
  qed
qed

section \<open>Every request\<close>

lemma parse_raw_props:
  assumes "parse_raw_request s = (0, m, p)"
  shows "m \<noteq> [] \<and> p \<noteq> [] \<and> length m \<le> 15 \<and> length p \<le> 2047 \<and> set p \<subseteq> set s \<and>
    (\<forall>c\<in>set p. \<not> isspace c)"
proof -
  obtain i sep rest rest' where w: "scan_word 15 s = Some (m, rest)" "scan_word 2047 rest = Some (p, rest')"
    using assms by (auto simp: parse_raw_request_def split: option.splits if_splits)
  have "set rest \<subseteq> set s"
    using w(1) by (auto simp: scan_word_def Let_def split: if_splits dest!: in_set_dropD dest: set_dropWhileD)
  with scan_word_bound [OF w(1)] scan_word_bound [OF w(2)] show ?thesis by blast
qed

lemma parse_header_block_wf:
  assumes "NUL \<notin> set s" "wf_extras (p_extras out)" "parse_header_block s out al = ((st, out'), al')"
  shows "wf_extras (p_extras out') \<and> p_path out' = p_path out \<and> p_method out' = p_method out \<and>
    p_method_enum out' = p_method_enum out \<and> p_body out' = p_body out \<and>
    p_body_length out' = p_body_length out \<and> p_body_heap out' = p_body_heap out \<and>
    p_query_string out' = p_query_string out"
proof (cases "end_of_headers s")
  case None
  with assms show ?thesis by (simp add: parse_header_block_def)
next
  case (Some q)
  obtain i sep where q: "q = (i, sep)" by fastforce
  obtain ok al1 where m: "malloc al = (ok, al1)" by fastforce
  obtain rc ns vs n al2 where h: "parse_headers (take i s) al1 = ((rc, ns, vs, n), al2)" by (metis surj_pair)
  have noNUL: "NUL \<notin> set (take i s)" using assms(1) by (auto dest: in_set_takeD)
  have H: "arrays_ok ns vs n \<and> n \<le> 100 \<and> (\<forall>(k, v)\<in>set (pairs_of ns vs n). NUL \<notin> set v)"
    using parse_headers_facts [OF noNUL, of al1] h by simp
  obtain cs keep al3 where e: "header_effects (pairs_of ns vs n) no_pairs False al2 = ((cs, keep), al3)"
    by (metis surj_pair)
  obtain a b k where cs: "cs = (a, b, k)" by (cases cs) auto
  have "arrays_ok a b k"
    using header_effects_arrays [of "pairs_of ns vs n" None None 0 False al2 a b k keep al3] H e cs by simp
  with assms Some q m h H e cs show ?thesis
    by (cases ok) (auto simp: parse_header_block_def Let_def intro!: wf_extras_intros split: if_splits)
qed

lemma parse_target_wf:
  assumes "NUL \<notin> set (p_path out)" "wf_extras (p_extras out)" "p_query_string out = None"
  shows "\<exists>out' al'. parse_target out al = Some (out', al') \<and> wf_extras (p_extras out') \<and>
    CHR ''?'' \<notin> set (p_path_only out') \<and>
    p_path out = p_path_only out' @ (case p_query_string out' of None \<Rightarrow> [] | Some q \<Rightarrow> CHR ''?'' # q) \<and>
    p_method out' = p_method out \<and> p_method_enum out' = p_method_enum out \<and> p_body out' = p_body out \<and>
    p_body_length out' = p_body_length out \<and> p_body_heap out' = p_body_heap out \<and> p_path out' = p_path out \<and>
    p_keep_alive out' = p_keep_alive out \<and> ex_header_names (p_extras out') = ex_header_names (p_extras out) \<and>
    ex_header_values (p_extras out') = ex_header_values (p_extras out) \<and>
    ex_header_count (p_extras out') = ex_header_count (p_extras out)"
proof (cases "strchr (p_path out) CHR ''?''")
  case None
  then have "CHR ''?'' \<notin> set (p_path out)" by simp
  with None assms show ?thesis by (simp add: parse_target_def del: strchr_None)
next
  case (Some k)
  let ?q = "drop (k + 1) (p_path out)"
  have k: "k < length (p_path out)" "p_path out ! k = CHR ''?''" "CHR ''?'' \<notin> set (take k (p_path out))"
    using strchr_Some [OF Some] by auto
  then have split: "p_path out = take k (p_path out) @ CHR ''?'' # ?q" using id_take_nth_drop [OF k(1)] by simp
  have "NUL \<notin> set ?q" using assms(1) by (auto dest: in_set_dropD)
  then obtain rc ns vs n al' where
    "parse_query_string (Some ?q) al = Some ((rc, ns, vs, n), al')" "arrays_ok ns vs n" "n \<le> 16"
    by (rule parse_query_facts [where al = al])
  with Some k split assms show ?thesis
    by (auto simp: parse_target_def Let_def wf_set_query) (simp_all add: set_query_def)
qed

text \<open>What holds of every request that is accepted.\<close>

definition parsed_ok :: "parsed_request \<Rightarrow> bool" where
  "parsed_ok out \<longleftrightarrow>
     p_method_enum out = mnet_parse_method (p_method out) \<and> p_method_enum out \<noteq> None \<and>
     CHR ''?'' \<notin> set (p_path_only out) \<and> length (p_path out) \<le> 2047 \<and>
     p_path out = p_path_only out @ (case p_query_string out of None \<Rightarrow> [] | Some q \<Rightarrow> CHR ''?'' # q) \<and>
     (\<exists>body. p_body out = Some body \<and> p_body_length out = length body)"

text \<open>The part of the parser that follows the body.\<close>

lemma parse_after_body:
  assumes "NUL \<notin> set s" "wf_extras (p_extras out)" "p_query_string out = None" "NUL \<notin> set (p_path out)"
    and "length (p_path out) \<le> 2047" "p_method_enum out = mnet_parse_method (p_method out)" "p_method_enum out \<noteq> None"
    and "p_body out = Some body" "p_body_length out = length body"
  shows "\<exists>st out' al'. (case parse_header_block s out al of
      ((st, out1), al2) \<Rightarrow>
        if st \<noteq> MNET_PARSE_OK then Some ((st, out1), c, al2)
        else (case parse_target out1 al2 of None \<Rightarrow> None | Some (out2, al3) \<Rightarrow> Some ((MNET_PARSE_OK, out2), c, al3))) =
      Some ((st, out'), c, al') \<and> wf_extras (p_extras out') \<and> (st = MNET_PARSE_OK \<longrightarrow> parsed_ok out')"
proof -
  obtain st o2 al2 where h: "parse_header_block s out al = ((st, o2), al2)" by (metis surj_pair)
  note hw = parse_header_block_wf [OF assms(1,2) h]
  show ?thesis
  proof (cases "st = MNET_PARSE_OK")
    case True
    obtain o3 al3 where t: "parse_target o2 al2 = Some (o3, al3)" "wf_extras (p_extras o3)"
      "CHR ''?'' \<notin> set (p_path_only o3)"
      "p_path o2 = p_path_only o3 @ (case p_query_string o3 of None \<Rightarrow> [] | Some q \<Rightarrow> CHR ''?'' # q)"
      "p_method o3 = p_method o2" "p_method_enum o3 = p_method_enum o2" "p_body o3 = p_body o2"
      "p_body_length o3 = p_body_length o2" "p_path o3 = p_path o2"
      using parse_target_wf [of o2 al2] hw assms(3,4) by auto
    moreover have "parsed_ok o3" unfolding parsed_ok_def using t hw assms by auto
    ultimately show ?thesis using h True by auto
  next
    case False
    with h hw show ?thesis by auto
  qed
qed

lemma parse_request_outcome:
  assumes "0 \<le> timeout"
  shows "\<exists>st out c' al'. parse_request buffer mx timeout c al = Some ((st, out), c', al') \<and>
    wf_extras (p_extras out) \<and> c_sent c' = c_sent c \<and> c_clock c \<le> c_clock c' \<and> c_clock c' \<le> c_clock c + timeout \<and>
    inbox_bytes c' \<le> inbox_bytes c \<and> (st = MNET_PARSE_OK \<longrightarrow> parsed_ok out)"
proof -
  let ?s = "c_string buffer"
  obtain rc m p where raw: "parse_raw_request ?s = (rc, m, p)" by (metis surj_pair)
  let ?o = "empty_parsed\<lparr>p_method := m, p_path := p, p_method_enum := mnet_parse_method m\<rparr>"
  have e: "wf_extras (p_extras empty_parsed)" "p_query_string empty_parsed = None"
    by (simp_all add: empty_parsed_def)
  obtain r c' al1 where b: "read_full_body buffer mx timeout c al = (r, c', al1)" by (metis surj_pair)
  note f = read_full_body_frame [OF b assms]
  consider (line) "rc \<noteq> 0 \<or> mnet_parse_method m = None"
    | (body) "rc = 0" "mnet_parse_method m \<noteq> None" "br_code r \<noteq> 0"
    | (ok) "rc = 0" "mnet_parse_method m \<noteq> None" "br_code r = 0" by blast
  then show ?thesis
  proof cases
    case line
    then have "\<exists>st. parse_request buffer mx timeout c al =
        Some ((st, empty_parsed\<lparr>p_method := m, p_path := p\<rparr>), c, al) \<and> st \<noteq> MNET_PARSE_OK"
      using raw by (cases "rc = 0") (auto simp: parse_request_def Let_def)
    with e assms show ?thesis by fastforce
  next
    case body
    then have "br_code r \<in> {-1, -2, -3, -4}" using f by blast
    then have "\<exists>st. parse_request buffer mx timeout c al = Some ((st, ?o), c', al1) \<and> st \<noteq> MNET_PARSE_OK"
      using raw b body by (auto simp: parse_request_def)
    with f e show ?thesis by fastforce
  next
    case ok
    let ?o1 = "?o\<lparr>p_body := br_body r, p_body_length := br_length r, p_body_heap := br_heap r\<rparr>"
    obtain bd where "br_body r = Some bd" "br_length r = length bd" using f ok by blast
    moreover have "NUL \<notin> set p" "length p \<le> 2047"
      using parse_raw_props [of ?s m p] raw ok c_string_no_NUL [of buffer] by auto
    ultimately obtain st out al' where "(case parse_header_block ?s ?o1 al1 of
        ((st, out1), al2) \<Rightarrow>
          if st \<noteq> MNET_PARSE_OK then Some ((st, out1), c', al2)
          else (case parse_target out1 al2 of None \<Rightarrow> None | Some (out2, al3) \<Rightarrow> Some ((MNET_PARSE_OK, out2), c', al3))) =
        Some ((st, out), c', al')" "wf_extras (p_extras out)" "st = MNET_PARSE_OK \<longrightarrow> parsed_ok out"
      using parse_after_body [where s = ?s and out = ?o1 and body = bd and al = al1 and c = c'] c_string_no_NUL [of buffer] ok e by auto
    moreover from this(1) have "parse_request buffer mx timeout c al = Some ((st, out), c', al')"
      using raw b ok by (auto simp: parse_request_def Let_def)
    ultimately show ?thesis using f by blast
  qed
qed

text \<open>
  C17. \<open>parse_request\<close> is defined on every buffer: no input makes the parser read or write outside
  its memory, it always returns, and it does so within the timeout. What it returns is well
  formed: the arrays of query parameters, headers and cookies hold their counts (at most 16 and
  100 of the first two), and a request it accepts has a known method, a path without query
  string, and a body of the stated length.
\<close>

theorem parse_request_wf:
  assumes "0 \<le> timeout"
  shows "\<exists>st out c' al'. parse_request buffer mx timeout c al = Some ((st, out), c', al') \<and>
    wf_extras (p_extras out) \<and> c_sent c' = c_sent c \<and> c_clock c' \<le> c_clock c + timeout \<and>
    (st = MNET_PARSE_OK \<longrightarrow>
       p_method_enum out = mnet_parse_method (p_method out) \<and> p_method_enum out \<noteq> None \<and>
       CHR ''?'' \<notin> set (p_path_only out) \<and> length (p_path out) \<le> 2047 \<and>
       p_path out = p_path_only out @ (case p_query_string out of None \<Rightarrow> [] | Some q \<Rightarrow> CHR ''?'' # q) \<and>
       (\<exists>body. p_body out = Some body \<and> p_body_length out = length body))"
  using parse_request_outcome [OF assms, of buffer mx c al] unfolding parsed_ok_def by blast

theorem parse_request_wf_witness:
  "\<exists>st out c' al'. parse_request (''GET /a?b=c HTTP/1.1'' @ CRLF @ ''Host: x'' @ CRLF2) 1000 100
      \<lparr>c_clock = 0, c_inbox = [], c_sent = []\<rparr> [] = Some ((st, out), c', al') \<and> wf_extras (p_extras out)"
  using parse_request_wf [of 100 "''GET /a?b=c HTTP/1.1'' @ CRLF @ ''Host: x'' @ CRLF2" 1000
      "\<lparr>c_clock = 0, c_inbox = [], c_sent = []\<rparr>" "[]"] by fastforce

section \<open>The lines of a header block\<close>

lemma strstr_skip: "c \<notin> set l \<Longrightarrow> strstr (l @ r) (c # n) = map_option ((+) (length l)) (strstr r (c # n))"
proof (induction l)
  case Nil
  then show ?case by (simp add: option.map_ident)
next
  case (Cons x l)
  then have "x \<noteq> c" by auto
  with Cons show ?case by (simp add: option.map_comp comp_def)
qed

definition plain_line :: "string \<Rightarrow> bool" where
  "plain_line l \<longleftrightarrow> l \<noteq> [] \<and> set l \<inter> {CR, LF, NUL} = {}"

lemma strstr_block:
  "ls \<noteq> [] \<Longrightarrow> \<forall>l\<in>set ls. plain_line l \<Longrightarrow>
   strstr (join_lines ls @ CRLF2 @ q) CRLF2 = Some (length (join_lines ls))"
proof (induction ls rule: join_lines.induct)
  case (2 l)
  then have "CR \<notin> set l" by (auto simp: plain_line_def)
  with strstr_skip [of CR l "CRLF2 @ q" "[LF, CR, LF]"] show ?case by simp
next
  case (3 l m ls)
  then have "CR \<notin> set l" by (auto simp: plain_line_def)
  obtain x xs where m: "m = x # xs" "x \<noteq> CR" using 3(3) by (cases m) (auto simp: plain_line_def)
  have j: "\<exists>ys. join_lines (m # ls) = x # ys" using m by (cases ls) auto
  have "strstr (CR # LF # join_lines (m # ls) @ CRLF2 @ q) CRLF2 =
      map_option (\<lambda>k. Suc (Suc k)) (strstr (join_lines (m # ls) @ CRLF2 @ q) CRLF2)"
    using j m(2) by (auto simp: option.map_comp comp_def)
  with 3 \<open>CR \<notin> set l\<close> strstr_skip [of CR l "CR # LF # join_lines (m # ls) @ CRLF2 @ q" "[LF, CR, LF]"]
  show ?case by simp
qed simp

lemma join_lines_no_NUL: "\<forall>l\<in>set ls. plain_line l \<Longrightarrow> NUL \<notin> set (join_lines ls)"
  by (induction ls rule: join_lines.induct) (auto simp: plain_line_def)

lemma c_string_append: "NUL \<notin> set p \<Longrightarrow> c_string (p @ q) = p @ c_string q"
  by (simp add: c_string_def takeWhile_append2 takeWhile_append)

text \<open>Where the lines of a block that start with a needle are.\<close>

definition crlf_free :: "string \<Rightarrow> bool" where
  "crlf_free s \<longleftrightarrow> CR \<notin> set (map to_lower s) \<and> LF \<notin> set (map to_lower s)"

definition ci_prefix :: "string \<Rightarrow> string \<Rightarrow> bool" where
  "ci_prefix needle l \<longleftrightarrow> prefix (map to_lower needle) (map to_lower l)"

lemma prefix_before: "c \<notin> set n \<Longrightarrow> prefix n (a @ c # b) \<longleftrightarrow> prefix n a"
  by (auto simp: prefix_append prefix_Cons)

lemma plain_line_nth: "plain_line l \<Longrightarrow> k < length l \<Longrightarrow> l ! k \<noteq> LF"
  using nth_mem [of k l] by (auto simp: plain_line_def simp del: nth_mem)

lemma line_hits_last:
  assumes "plain_line l" "crlf_free needle"
  shows "line_hits needle (l @ CRLF2 @ q) (length l) = (if ci_prefix needle l then {0} else {})"
proof -
  have "to_lower CR = CR" by code_simp
  then have "ci_prefix_at needle (l @ CRLF2 @ q) 0 \<longleftrightarrow> ci_prefix needle l"
    using assms(2) by (simp add: ci_prefix_at_def ci_prefix_def prefix_before crlf_free_def)
  moreover have "at_line_start (l @ CRLF2 @ q) p \<longleftrightarrow> p = 0" if "p < length l" for p
    using plain_line_nth [OF assms(1), of "p - 1"] that by (auto simp: at_line_start_def nth_append)
  moreover have "0 < length l" using assms(1) by (simp add: plain_line_def)
  ultimately show ?thesis by (auto simp: line_hits_def)
qed

lemma line_hits_next:
  assumes "plain_line l" "crlf_free needle"
  shows "line_hits needle (l @ CRLF @ r) (length l + 2 + e) =
    (if ci_prefix needle l then {0} else {}) \<union> (+) (length l + 2) ` line_hits needle r e"
proof -
  have "to_lower CR = CR" by code_simp
  then have first: "ci_prefix_at needle (l @ CRLF @ r) 0 \<longleftrightarrow> ci_prefix needle l"
    using assms(2) by (simp add: ci_prefix_at_def ci_prefix_def prefix_before crlf_free_def)
  have inside: "\<not> at_line_start (l @ CRLF @ r) p" if "0 < p" "p < length l + 2" for p
  proof (cases "p - 1 < length l")
    case True
    with plain_line_nth [OF assms(1) this] that show ?thesis
      by (auto simp: at_line_start_def nth_append)
  next
    case False
    with that have "p = Suc (length l)" by simp
    then show ?thesis by (simp add: at_line_start_def nth_append)
  qed
  have later: "at_line_start (l @ CRLF @ r) (length l + 2 + k) \<longleftrightarrow> at_line_start r k" for k
    by (cases k) (auto simp: at_line_start_def nth_append)
  have prefix_later: "ci_prefix_at needle (l @ CRLF @ r) (length l + 2 + k) \<longleftrightarrow> ci_prefix_at needle r k" for k
    by (simp add: ci_prefix_at_def)
  have "p \<in> line_hits needle (l @ CRLF @ r) (length l + 2 + e) \<longleftrightarrow>
      (p = 0 \<and> ci_prefix needle l) \<or> (\<exists>k\<in>line_hits needle r e. p = length l + 2 + k)" for p
  proof (cases "p < length l + 2")
    case True
    then show ?thesis
      using first inside [of p] by (cases "p = 0") (auto simp: line_hits_def at_line_start_def)
  next
    case False
    then obtain k where "p = length l + 2 + k" by (metis le_add_diff_inverse not_less)
    then show ?thesis using later prefix_later by (auto simp: line_hits_def)
  qed
  then show ?thesis by (auto simp: image_iff)
qed

lemma block_Cons:
  "ls \<noteq> [] \<Longrightarrow> join_lines (l # ls) @ r = l @ CRLF @ (join_lines ls @ r)"
  "ls \<noteq> [] \<Longrightarrow> length (join_lines (l # ls)) = length l + 2 + length (join_lines ls)"
  by (cases ls; simp)+

lemma block_hits_none:
  assumes "ls \<noteq> []" "\<forall>l\<in>set ls. plain_line l \<and> \<not> ci_prefix needle l" "crlf_free needle"
  shows "line_hits needle (join_lines ls @ CRLF2 @ q) (length (join_lines ls)) = {}"
  using assms
proof (induction ls)
  case (Cons l ls)
  show ?case
  proof (cases "ls = []")
    case True
    with Cons show ?thesis using line_hits_last [of l needle q] by simp
  next
    case False
    with Cons show ?thesis
      using line_hits_next [of l needle "join_lines ls @ CRLF2 @ q" "length (join_lines ls)"]
      by (simp add: block_Cons)
  qed
qed simp

lemma block_hits_one:
  assumes "\<forall>l\<in>set (as @ bs). plain_line l \<and> \<not> ci_prefix needle l" "plain_line l" "ci_prefix needle l"
    and "crlf_free needle"
  shows "\<exists>h t. line_hits needle (join_lines (as @ l # bs) @ CRLF2 @ q) (length (join_lines (as @ l # bs))) = {h} \<and>
    drop h (join_lines (as @ l # bs) @ CRLF2 @ q) = l @ CR # t"
  using assms
proof (induction as)
  case Nil
  show ?case
  proof (cases "bs = []")
    case True
    with Nil show ?thesis using line_hits_last [of l needle q] by simp
  next
    case False
    with Nil show ?thesis
      using line_hits_next [of l needle "join_lines bs @ CRLF2 @ q" "length (join_lines bs)"]
        block_hits_none [of bs needle q]
      by (simp add: block_Cons)
  qed
next
  case (Cons a as)
  let ?r = "join_lines (as @ l # bs) @ CRLF2 @ q" and ?e = "length (join_lines (as @ l # bs))"
  obtain h t where ht: "line_hits needle ?r ?e = {h}" "drop h ?r = l @ CR # t"
    using Cons by auto
  have "line_hits needle (a @ CRLF @ ?r) (length a + 2 + ?e) = {length a + 2 + h}"
    using line_hits_next [of a needle ?r ?e] Cons.prems ht(1) by simp
  moreover have "drop (length a + 2 + h) (a @ CRLF @ ?r) = l @ CR # t" using ht(2) by simp
  ultimately show ?case by (metis append_Cons append_is_Nil_conv block_Cons list.distinct(1))
qed

section \<open>Reading back a rendered request\<close>

definition request_line :: "string \<Rightarrow> string \<Rightarrow> string" where
  "request_line m target = m @ '' '' @ target @ '' HTTP/1.1''"

definition request_text :: "string \<Rightarrow> string \<Rightarrow> (string \<times> string) list \<Rightarrow> bytes \<Rightarrow> bytes" where
  "request_text m target hs body =
     join_lines (request_line m target # map header_line hs) @ CRLF2 @ body"

text \<open>The headers announce the body: one \<open>Content-Length\<close> of its length, or none and no body.\<close>

definition framed :: "(string \<times> string) list \<Rightarrow> bytes \<Rightarrow> bool" where
  "framed hs body \<longleftrightarrow>
     (\<forall>h\<in>set hs. \<not> strcaseeq (fst h) ''transfer-encoding'') \<and>
     (body = [] \<and> (\<forall>h\<in>set hs. \<not> strcaseeq (fst h) ''content-length'') \<or>
      (\<exists>as n bs. hs = as @ (n, show_nat (length body)) # bs \<and> strcaseeq n ''content-length'' \<and>
         (\<forall>h\<in>set (as @ bs). \<not> strcaseeq (fst h) ''content-length'')))"

definition wf_target :: "string \<Rightarrow> bool" where
  "wf_target t \<longleftrightarrow> t \<noteq> [] \<and> length t \<le> 2047 \<and> NUL \<notin> set t \<and> (\<forall>c\<in>set t. \<not> isspace c)"

lemma to_lower_colon: "to_lower x = CHR '':'' \<longleftrightarrow> x = CHR '':''"
proof -
  have "uchar (to_lower x) = uchar CHR '':'' \<longleftrightarrow> uchar x = uchar CHR '':''"
    by (simp add: uchar_to_lower)
  then show ?thesis by (simp only: uchar_eq_iff)
qed

lemma prefix_delimited:
  "x \<notin> set a \<Longrightarrow> x \<notin> set b \<Longrightarrow> prefix (a @ [x]) (b @ x # r) \<longleftrightarrow> a = b"
proof (induction a arbitrary: b)
  case Nil
  then show ?case by (cases b) auto
next
  case (Cons y a)
  then show ?case by (cases b) auto
qed

lemma ci_prefix_header:
  assumes "wf_header h" "CHR '':'' \<notin> set w"
  shows "ci_prefix (w @ '':'') (header_line h) \<longleftrightarrow> strcaseeq (fst h) w"
proof -
  have "CHR '':'' \<notin> set (fst h)"
    using assms(1) header_name_valid_chars [of "fst h"] unfolding wf_header_def by blast
  then have "CHR '':'' \<notin> set (map to_lower w)" "CHR '':'' \<notin> set (map to_lower (fst h))"
    using assms(2) to_lower_colon by (simp_all only: set_map image_iff) metis+
  from prefix_delimited [OF this] show ?thesis
    by (auto simp: ci_prefix_def header_line_def strcaseeq_def to_lower_colon [THEN iffD2])
qed

lemma method_props:
  assumes "mnet_parse_method m = Some me"
  shows "m \<noteq> []" "length m \<le> 15" "\<forall>c\<in>set m. \<not> isspace c" "set m \<inter> {CR, LF, NUL, CHR '':''} = {}"
    "\<not> ci_prefix ''content-length:'' (m @ SP # r)" "\<not> ci_prefix ''transfer-encoding:'' (m @ SP # r)"
proof -
  have "m \<in> {''GET'', ''POST'', ''PUT'', ''PATCH'', ''DELETE'', ''HEAD'', ''OPTIONS''}"
    using assms by (auto simp: mnet_parse_method_def split: if_splits)
  then show "m \<noteq> []" "length m \<le> 15" "\<forall>c\<in>set m. \<not> isspace c" "set m \<inter> {CR, LF, NUL, CHR '':''} = {}"
    "\<not> ci_prefix ''content-length:'' (m @ SP # r)" "\<not> ci_prefix ''transfer-encoding:'' (m @ SP # r)"
    by (auto simp: isspace_def ci_prefix_def to_lower_def)
qed

lemma isspace_seps: "isspace CR" "isspace LF" "isspace SP"
  by (simp_all add: isspace_def)

lemma target_chars: "wf_target t \<Longrightarrow> set t \<inter> {CR, LF, NUL} = {}"
  using isspace_seps unfolding wf_target_def by blast

text \<open>A request that is written as HTTP prescribes, with at least one header.\<close>

definition rendered ::
  "string \<Rightarrow> mnet_http_method \<Rightarrow> string \<Rightarrow> (string \<times> string) list \<Rightarrow> bytes \<Rightarrow> bool" where
  "rendered m me target hs body \<longleftrightarrow>
     mnet_parse_method m = Some me \<and> wf_target target \<and>
     hs \<noteq> [] \<and> (\<forall>h\<in>set hs. wf_header h) \<and> length hs \<le> 100 \<and> framed hs body"

definition block :: "string \<Rightarrow> string \<Rightarrow> (string \<times> string) list \<Rightarrow> string" where
  "block m target hs = join_lines (request_line m target # map header_line hs)"

lemma request_line_props:
  assumes meth: "mnet_parse_method m = Some me" and target: "wf_target target"
  shows "plain_line (request_line m target)" "length (request_line m target) < 4096"
    "header_of (request_line m target) = None"
proof -
  show "plain_line (request_line m target)"
    using method_props(1,4) [OF meth] target_chars [OF target] by (auto simp: plain_line_def request_line_def)
  show "length (request_line m target) < 4096"
    using method_props(2) [OF meth] target by (simp add: request_line_def wf_target_def)
  show "header_of (request_line m target) = None"
  proof (cases "strchr (request_line m target) CHR '':''")
    case None
    then show ?thesis by (simp add: header_of_def del: strchr_None)
  next
    case (Some k)
    have "k > length m"
    proof (rule ccontr)
      assume "\<not> length m < k"
      then have "(m @ [SP]) ! k = CHR '':''" "k < length (m @ [SP])"
        using strchr_Some [OF Some] by (auto simp: request_line_def nth_append split: if_splits)
      then have "CHR '':'' \<in> set (m @ [SP])" by (metis nth_mem)
      then show False using method_props(4) [OF meth] by auto
    qed
    then have "SP \<in> set (take k (request_line m target))"
      by (cases "k - length m") (auto simp: request_line_def)
    then have "\<not> mnet_header_name_valid (Some (take k (request_line m target)))"
      using header_name_valid_chars by blast
    with Some show ?thesis by (simp add: header_of_def del: strchr_None)
  qed
qed

lemma rendered_lines:
  "rendered m me target hs body \<Longrightarrow> \<forall>l\<in>set (request_line m target # map header_line hs). plain_line l"
  using request_line_props(1) header_line_chars by (fastforce simp: plain_line_def rendered_def)

lemma rendered_text:
  assumes "rendered m me target hs body"
  shows "c_string (block m target hs @ CRLF2 @ q) = block m target hs @ CRLF2 @ c_string q"
    and "end_of_headers (block m target hs @ CRLF2 @ q) = Some (length (block m target hs), 4)"
proof -
  note L = rendered_lines [OF assms]
  have "NUL \<notin> set (block m target hs @ CRLF2)"
    using join_lines_no_NUL [OF L] by (simp add: block_def)
  then show "c_string (block m target hs @ CRLF2 @ q) = block m target hs @ CRLF2 @ c_string q"
    by (metis append.assoc c_string_append)
  show "end_of_headers (block m target hs @ CRLF2 @ q) = Some (length (block m target hs), 4)"
    using strstr_block [OF _ L, of q] by (simp add: end_of_headers_def block_def)
qed

lemma rendered_raw:
  assumes "rendered m me target hs body"
  shows "parse_raw_request (block m target hs @ CRLF2 @ q) = (0, m, target)"
proof -
  have meth: "mnet_parse_method m = Some me" and target: "wf_target target" and ne: "map header_line hs \<noteq> []"
    using assms by (auto simp: rendered_def)
  have b: "block m target hs @ r = request_line m target @ CRLF @ join_lines (map header_line hs) @ r" for r
    unfolding block_def by (rule block_Cons(1) [OF ne])
  have "LF \<in> set (block m target hs @ [])" unfolding b by simp
  then have LF: "LF \<in> set (take (length (block m target hs)) (block m target hs @ CRLF2 @ q))" by simp
  obtain r where r: "block m target hs @ CRLF2 @ q = m @ SP # target @ SP # r"
    using b [of "CRLF2 @ q"] by (simp add: request_line_def)
  have w: "scan_word 15 (m @ SP # target @ SP # r) = Some (m, SP # target @ SP # r)"
    using method_props(1-3) [OF meth] isspace_seps(3) by (intro scan_word_front)
  have "scan_word 2047 (target @ SP # r) = Some (target, SP # r)"
    using target isspace_seps(3) by (intro scan_word_front) (simp_all add: wf_target_def)
  then have "scan_word 2047 (SP # target @ SP # r) = Some (target, SP # r)"
    by (simp only: scan_word_skip [OF isspace_seps(3)])
  note w2 = this
  from LF show ?thesis
    unfolding parse_raw_request_def rendered_text(2) [OF assms] option.case prod.case w [folded r] w2
    by (simp only: not_True_eq_False if_False)
qed

lemma needle_split:
  "''content-length:'' = ''content-length'' @ '':''" "''transfer-encoding:'' = ''transfer-encoding'' @ '':''"
  by simp_all

lemma needle_crlf_free: "crlf_free ''content-length:''" "crlf_free ''transfer-encoding:''"
  by code_simp+

lemma ci_prefix_needle:
  assumes "wf_header h"
  shows "ci_prefix ''content-length:'' (header_line h) \<longleftrightarrow> strcaseeq (fst h) ''content-length''"
    and "ci_prefix ''transfer-encoding:'' (header_line h) \<longleftrightarrow> strcaseeq (fst h) ''transfer-encoding''"
  unfolding needle_split by (rule ci_prefix_header [OF assms], simp)+

lemma rendered_no_te:
  assumes "rendered m me target hs body"
  shows "line_hits ''transfer-encoding:'' (block m target hs @ CRLF2 @ q) (length (block m target hs)) = {}"
proof -
  have "\<forall>l\<in>set (request_line m target # map header_line hs). \<not> ci_prefix ''transfer-encoding:'' l"
    using assms method_props(6) ci_prefix_needle(2)
    by (auto simp: rendered_def framed_def request_line_def)
  with rendered_lines [OF assms] show ?thesis
    unfolding block_def by (intro block_hits_none needle_crlf_free) auto
qed

lemma announced_digits:
  assumes "drop (h + 15) s = SP # show_nat n @ CR # t"
  shows "announced s h = Some n"
proof -
  have "\<not> isdigit CR" by (simp add: isdigit_def)
  then have "takeWhile isdigit (show_nat n @ CR # t) = show_nat n"
    "dropWhile isdigit (show_nat n @ CR # t) = CR # t"
    using show_nat_isdigit by (simp_all add: takeWhile_stop dropWhile_stop)
  moreover have "dropWhile (\<lambda>c. c = SP \<or> c = TAB) (SP # show_nat n @ CR # t) = show_nat n @ CR # t"
  proof (cases "show_nat n")
    case (Cons c cs)
    have "isdigit c" using show_nat_isdigit [of c n] Cons by simp
    then have "c \<noteq> SP" "c \<noteq> TAB" by (auto simp: isdigit_def)
    with Cons show ?thesis by simp
  qed simp
  ultimately show ?thesis by (simp add: announced_def assms Let_def)
qed

lemma rendered_cl:
  assumes "rendered m me target hs body"
  shows "(line_hits ''content-length:'' (block m target hs @ CRLF2 @ q) (length (block m target hs)) = {} \<and> body = []) \<or>
    (\<exists>h. line_hits ''content-length:'' (block m target hs @ CRLF2 @ q) (length (block m target hs)) = {h} \<and>
      announced (block m target hs @ CRLF2 @ q) h = Some (length body))"
proof -
  let ?r = "request_line m target"
  have r: "plain_line ?r" "\<not> ci_prefix ''content-length:'' ?r"
    using assms request_line_props(1) method_props(5) by (auto simp: rendered_def request_line_def)
  have hd: "plain_line (header_line h)" "ci_prefix ''content-length:'' (header_line h) \<longleftrightarrow> strcaseeq (fst h) ''content-length''"
    if "h \<in> set hs" for h
    using that assms rendered_lines [OF assms] ci_prefix_needle(1) by (auto simp: rendered_def)
  consider "body = []" "\<forall>h\<in>set hs. \<not> strcaseeq (fst h) ''content-length''"
    | as n bs where "hs = as @ (n, show_nat (length body)) # bs" "strcaseeq n ''content-length''"
      "\<forall>h\<in>set (as @ bs). \<not> strcaseeq (fst h) ''content-length''"
    using assms unfolding rendered_def framed_def by blast
  then show ?thesis
  proof cases
    case 1
    then have "\<forall>l\<in>set (?r # map header_line hs). plain_line l \<and> \<not> ci_prefix ''content-length:'' l"
      using r hd by auto
    then have "line_hits ''content-length:'' (block m target hs @ CRLF2 @ q) (length (block m target hs)) = {}"
      unfolding block_def by (intro block_hits_none needle_crlf_free) auto
    with 1 show ?thesis by simp
  next
    case (2 as n bs)
    let ?l = "header_line (n, show_nat (length body))"
    let ?as = "?r # map header_line as" and ?bs = "map header_line bs"
    have eq: "?r # map header_line hs = ?as @ ?l # ?bs" using 2(1) by simp
    have "plain_line (header_line h) \<and> \<not> ci_prefix ''content-length:'' (header_line h)" if "h \<in> set (as @ bs)" for h
      using hd [of h] bspec [OF 2(3) that] that 2(1) by auto
    then have "\<forall>l\<in>set (?as @ ?bs). plain_line l \<and> \<not> ci_prefix ''content-length:'' l"
      using r by (auto simp del: split_paired_All)
    moreover have "plain_line ?l" "ci_prefix ''content-length:'' ?l" using hd [of "(n, show_nat (length body))"] 2 by auto
    ultimately obtain h t where h:
      "line_hits ''content-length:'' (block m target hs @ CRLF2 @ q) (length (block m target hs)) = {h}"
      "drop h (block m target hs @ CRLF2 @ q) = ?l @ CR # t"
      using block_hits_one [of ?as ?bs "''content-length:''" ?l q] needle_crlf_free(1) unfolding block_def eq by auto
    have "length n = length ''content-length''"
      using 2(2) unfolding strcaseeq_def by (metis length_map)
    then have "drop 15 (?l @ CR # t) = SP # show_nat (length body) @ CR # t"
      by (simp add: header_line_def)
    then have "drop (h + 15) (block m target hs @ CRLF2 @ q) = SP # show_nat (length body) @ CR # t"
      using h(2) by (metis add.commute drop_drop)
    then show ?thesis using h(1) announced_digits by blast
  qed
qed

text \<open>
  The body may already be in the buffer or still be on its way: \<open>pre\<close> is what follows the header
  block there, and the peer's stream has the rest.
\<close>

definition arrives :: "bytes \<Rightarrow> bytes \<Rightarrow> bytes \<Rightarrow> int \<Rightarrow> conn \<Rightarrow> bool" where
  "arrives pre body rest timeout c \<longleftrightarrow>
     pre @ stream c = body @ rest \<and>
     (length pre < length body \<longrightarrow> data_only (c_inbox c) \<and> int (total_delay (c_inbox c)) < timeout)"

lemma rendered_body:
  assumes "rendered m me target hs body" "room_for_digit mx" "length body \<le> unat mx" "arrives pre body rest timeout c"
  shows "\<exists>r c'. read_full_body (block m target hs @ CRLF2 @ pre) mx timeout c [] = (r, c', []) \<and>
    br_code r = 0 \<and> br_body r = Some body \<and> br_length r = length body \<and> c_sent c' = c_sent c \<and>
    (if length pre < length body then stream c' = rest else c' = c)"
proof -
  let ?s = "block m target hs @ CRLF2 @ c_string pre" and ?i = "length (block m target hs)"
  note T = rendered_text [OF assms(1)]
  have d: "drop (?i + 4) (block m target hs @ CRLF2 @ pre) = pre" by simp
  have te: "\<not> te_search ?s ?i 0" using rendered_no_te [OF assms(1)] by (simp add: te_search_spec)
  consider (none) "cl_search ?s ?i 0 None 0 = (None, 0)" "body = []"
    | (one) h where "cl_search ?s ?i 0 None 0 = (Some h, 1)" "announced ?s h = Some (length body)"
    using rendered_cl [OF assms(1), of "c_string pre"] by (auto simp: cl_search_spec Let_def)
  then show ?thesis
  proof cases
    case none
    with te show ?thesis
      unfolding read_full_body_def Let_def T option.case prod.case by (simp add: content_length_of_def)
  next
    case (one h)
    have w: "unat (word_of_nat (length body) :: size_t) = length body" using assms(3) by (rule unat_size_le)
    have cl: "content_length_of ?s (Some h) mx = Inr (word_of_nat (length body))"
      using one(2) assms(3) by (simp add: content_length_spec [OF assms(2)] del: One_nat_def)
    note R = read_full_body_def [of "block m target hs @ CRLF2 @ pre" mx timeout c "[]",
        unfolded Let_def T option.case prod.case one(1) d]
    show ?thesis
    proof (cases "length pre < length body")
      case False
      have "take (length body) (pre @ stream c) = take (length body) (body @ rest)"
        using assms(4) by (simp only: arrives_def)
      with False have "take (length body) pre = body" by simp
      with False te w cl size_of_le [OF assms(3)] show ?thesis unfolding R by simp
    next
      case True
      have "length (pre @ stream c) = length (body @ rest)" using assms(4) by (simp only: arrives_def)
      with True obtain body' c' where l: "body_loop (c_clock c + timeout) (length body) pre c = (Some body', c')"
        using assms(4) body_loop_progress [of c pre "length body" "c_clock c + timeout"] by (auto simp: arrives_def)
      from body_loop_facts [OF l] True assms(4) have "body' = body" "stream c' = rest" "c_sent c' = c_sent c"
        by (auto simp: arrives_def)
      with l True te w cl size_of_le [OF assms(3)] show ?thesis unfolding R by auto
    qed
  qed
qed

lemma rendered_headers:
  assumes "rendered m me target hs body" "wf_extras (p_extras out)"
  shows "\<exists>out' al'. parse_header_block (block m target hs @ CRLF2 @ q) out [] = ((MNET_PARSE_OK, out'), al') \<and>
    pairs_of (ex_header_names (p_extras out')) (ex_header_values (p_extras out')) (ex_header_count (p_extras out')) = hs \<and>
    (p_keep_alive out' \<longleftrightarrow> (\<exists>(h, v)\<in>set hs. strcaseeq h ''Connection'' \<and> strcaseeq v ''keep-alive''))"
proof -
  have R: "header_of (request_line m target) = None" "request_line m target \<noteq> []"
    "set (request_line m target) \<inter> {CR, LF, NUL} = {}" "length (request_line m target) < 4096"
    using request_line_props [of m me target] assms(1) by (auto simp: rendered_def plain_line_def)
  have "fst (parse_headers (block m target hs) []) = (0, arrays_of hs)"
    unfolding block_def using assms(1) by (intro parse_headers_lines R) (auto simp: rendered_def)
  then obtain al2 where h: "parse_headers (block m target hs) [] = ((0, arrays_of hs), al2)"
    by (metis prod.collapse)
  obtain cs keep al3 where e: "header_effects hs no_pairs False al2 = ((cs, keep), al3)" by (metis surj_pair)
  have pairs: "pairs_of (fst (arrays_of hs)) (fst (snd (arrays_of hs))) (snd (snd (arrays_of hs))) = hs"
    by (simp add: arrays_of_def pairs_of_def zip_map_fst_snd)
  show ?thesis
    using keep_alive_effects [OF e] e h pairs
    by (cases cs) (simp add: parse_header_block_def rendered_text(2) [OF assms(1), unfolded append_Cons append_Nil]
        set_headers_def set_cookies_def arrays_of_def)
qed

text \<open>An allocator that never fails stays one through every parser.\<close>

lemma strdup_ample [simp]: "strdup s [] = (Some s, [])"
  by (simp add: strdup_def)

lemma query_loop_ample: "query_loop count s names vals [] = Some (r, al) \<Longrightarrow> al = []"
proof (induction s arbitrary: names vals rule: strtok_induct [of "''&''"])
  case (stop s)
  then show ?case by (simp add: query_loop.simps [of count s])
next
  case (token s t rest)
  then show ?case
    by (auto simp: query_loop.simps [of count s] split: if_splits option.splits prod.splits)
qed

lemma headers_loop_ample: "snd (headers_loop s names vals []) = []"
proof (induction s arbitrary: names vals rule: strtok_induct [of CRLF])
  case (stop s)
  then show ?case by (simp add: headers_loop.simps [of s])
next
  case (token s t rest)
  then show ?case by (simp add: headers_loop.simps [of s] Let_def split: option.splits)
qed

lemma cookies_loop_ample: "snd (cookies_loop count s names vals []) = []"
proof (induction s arbitrary: names vals rule: strtok_induct [of "'';''"])
  case (stop s)
  then show ?case by (simp add: cookies_loop.simps [of count s])
next
  case (token s t rest)
  then show ?case by (simp add: cookies_loop.simps [of count s] Let_def split: prod.splits)
qed

lemma parse_cookies_ample: "snd (parse_cookies s []) = []"
  by (simp add: parse_cookies_def cookies_loop_ample)

lemma header_effects_ample: "snd (header_effects hs cs keep []) = []"
proof (induction hs arbitrary: cs keep)
  case (Cons h hs)
  obtain cs' al where p: "parse_cookies (snd h) [] = (cs', al)" by fastforce
  with parse_cookies_ample [of "snd h"] Cons show ?case by (cases h) (auto simp: Let_def)
qed simp

lemma parse_header_block_ample: "snd (parse_header_block s out []) = []"
proof -
  have "snd (parse_headers t []) = []" for t by (simp add: parse_headers_def headers_loop_ample)
  then show ?thesis
    using header_effects_ample
    by (auto simp: parse_header_block_def Let_def split: option.splits prod.splits) (metis snd_conv)+
qed

lemma parse_target_ample: "parse_target out [] = Some (out', al) \<Longrightarrow> al = []"
  by (auto simp: parse_target_def parse_query_string_def Let_def dest: query_loop_ample
      split: option.splits if_splits prod.splits)

text \<open>
  The query parameters of a target, decoded; none when a name or a value is too long, because the
  parser then goes on without them.
\<close>

definition query_of :: "string \<Rightarrow> (string \<times> string) list" where
  "query_of target =
     (case strchr target CHR ''?'' of
        None \<Rightarrow> []
      | Some i \<Rightarrow> let q = drop (i + 1) target in if query_too_long q then [] else query_pairs q)"

lemma parse_header_block_query:
  "parse_header_block s out al = ((st, out'), al') \<Longrightarrow>
   ex_query_names (p_extras out') = ex_query_names (p_extras out) \<and>
   ex_query_values (p_extras out') = ex_query_values (p_extras out) \<and>
   ex_query_count (p_extras out') = ex_query_count (p_extras out)"
  by (auto simp: parse_header_block_def set_headers_def set_cookies_def Let_def
      split: option.splits prod.splits bool.splits if_splits)

lemma parse_target_query:
  assumes "NUL \<notin> set (p_path out)" "ex_query_names (p_extras out) = None" "parse_target out [] = Some (out', al')"
  shows "pairs_of (ex_query_names (p_extras out')) (ex_query_values (p_extras out')) (ex_query_count (p_extras out')) =
    query_of (p_path out)"
proof (cases "strchr (p_path out) CHR ''?''")
  case None
  then have "p_extras out' = p_extras out" using assms(3) by (auto simp: parse_target_def simp del: strchr_None)
  with None assms(2) show ?thesis by (simp add: query_of_def pairs_of_def del: strchr_None)
next
  case (Some k)
  let ?q = "drop (k + 1) (p_path out)"
  have "NUL \<notin> set ?q" using assms(1) by (auto dest: in_set_dropD)
  then obtain rc ns vs n al1 where r: "parse_query_string (Some ?q) [] = Some ((rc, ns, vs, n), al1)"
    "?q \<noteq> [] \<longrightarrow> (if rc = 0 then \<not> query_too_long ?q \<and> pairs_of ns vs n = query_pairs ?q
       else rc = -1 \<and> (ns, vs, n) = no_pairs \<and> (query_too_long ?q \<or> False \<in> set []))"
    by (rule parse_query_facts [where al = "[]"])
  then have "p_extras out' = set_query (ns, vs, n) (p_extras out)"
    using assms(3) Some by (auto simp: parse_target_def Let_def)
  moreover have "pairs_of ns vs n = (if query_too_long ?q then [] else query_pairs ?q)"
  proof (cases "?q = []")
    case True
    then have "(ns, vs, n) = no_pairs" using r(1) by (auto simp: parse_query_string_def)
    moreover have "query_pairs [] = []" by code_simp
    ultimately show ?thesis using True by (simp add: pairs_of_def)
  next
    case False
    with r(2) show ?thesis by (auto simp: pairs_of_def split: if_splits)
  qed
  ultimately show ?thesis using Some by (simp add: query_of_def set_query_def)
qed

text \<open>What parsing finds in a request as it was written.\<close>

definition reads_back ::
  "string \<Rightarrow> mnet_http_method \<Rightarrow> string \<Rightarrow> (string \<times> string) list \<Rightarrow> bytes \<Rightarrow> parsed_request \<Rightarrow> bool" where
  "reads_back m me target hs body out \<longleftrightarrow>
     p_method out = m \<and> p_method_enum out = Some me \<and> p_path out = target \<and>
     target = p_path_only out @ (case p_query_string out of None \<Rightarrow> [] | Some q \<Rightarrow> CHR ''?'' # q) \<and>
     CHR ''?'' \<notin> set (p_path_only out) \<and> p_body out = Some body \<and> p_body_length out = length body \<and>
     pairs_of (ex_header_names (p_extras out)) (ex_header_values (p_extras out)) (ex_header_count (p_extras out)) = hs \<and>
     pairs_of (ex_query_names (p_extras out)) (ex_query_values (p_extras out)) (ex_query_count (p_extras out)) = query_of target \<and>
     (p_keep_alive out \<longleftrightarrow> (\<exists>(h, v)\<in>set hs. strcaseeq h ''Connection'' \<and> strcaseeq v ''keep-alive''))"

lemma parse_rendered:
  assumes "rendered m me target hs body" "room_for_digit mx" "length body \<le> unat mx" "arrives pre body rest timeout c"
  shows "\<exists>out c'. parse_request (block m target hs @ CRLF2 @ pre) mx timeout c [] = Some ((MNET_PARSE_OK, out), c', []) \<and>
    reads_back m me target hs body out \<and> wf_extras (p_extras out) \<and> c_sent c' = c_sent c \<and>
    (if length pre < length body then stream c' = rest else c' = c)"
proof -
  let ?t = "block m target hs @ CRLF2 @ pre" and ?s = "block m target hs @ CRLF2 @ c_string pre"
  have R: "mnet_parse_method m = Some me" "wf_target target" using assms(1) by (auto simp: rendered_def)
  obtain r c' where b: "read_full_body ?t mx timeout c [] = (r, c', [])" "br_code r = 0" "br_body r = Some body"
    "br_length r = length body" "c_sent c' = c_sent c" "if length pre < length body then stream c' = rest else c' = c"
    using rendered_body [OF assms] by blast
  let ?o = "empty_parsed\<lparr>p_method := m, p_path := target, p_method_enum := Some me,
      p_body := br_body r, p_body_length := br_length r, p_body_heap := br_heap r\<rparr>"
  have w: "wf_extras (p_extras ?o)" "p_query_string ?o = None" by (simp_all add: empty_parsed_def)
  obtain o2 where h: "parse_header_block ?s ?o [] = ((MNET_PARSE_OK, o2), [])"
    "pairs_of (ex_header_names (p_extras o2)) (ex_header_values (p_extras o2)) (ex_header_count (p_extras o2)) = hs"
    "p_keep_alive o2 \<longleftrightarrow> (\<exists>(h, v)\<in>set hs. strcaseeq h ''Connection'' \<and> strcaseeq v ''keep-alive'')"
    using rendered_headers [OF assms(1) w(1), of "c_string pre"] parse_header_block_ample [of ?s ?o]
    by (metis snd_conv)
  have "NUL \<notin> set ?s" using rendered_text(1) [OF assms(1)] c_string_no_NUL [of ?t] by simp
  note f = parse_header_block_wf [OF this w(1) h(1)]
  obtain o3 al3 where t: "parse_target o2 [] = Some (o3, al3)" "CHR ''?'' \<notin> set (p_path_only o3)"
    "p_path o2 = p_path_only o3 @ (case p_query_string o3 of None \<Rightarrow> [] | Some q \<Rightarrow> CHR ''?'' # q)"
    "p_method o3 = p_method o2" "p_method_enum o3 = p_method_enum o2" "p_body o3 = p_body o2"
    "p_body_length o3 = p_body_length o2" "p_path o3 = p_path o2" "p_keep_alive o3 = p_keep_alive o2"
    "ex_header_names (p_extras o3) = ex_header_names (p_extras o2)"
    "ex_header_values (p_extras o3) = ex_header_values (p_extras o2)"
    "ex_header_count (p_extras o3) = ex_header_count (p_extras o2)" "wf_extras (p_extras o3)"
    using parse_target_wf [of o2 "[]"] f w(2) R(2) by (auto simp: wf_target_def)
  have "parse_request ?t mx timeout c [] = Some ((MNET_PARSE_OK, o3), c', [])"
    unfolding parse_request_def Let_def rendered_text(1) [OF assms(1)] rendered_raw [OF assms(1)] prod.case
    using R(1) b(1,2) h(1) t(1) parse_target_ample [OF t(1)] by simp
  moreover have "pairs_of (ex_query_names (p_extras o3)) (ex_query_values (p_extras o3)) (ex_query_count (p_extras o3)) = query_of target"
    using parse_target_query [OF _ _ t(1)] parse_header_block_query [OF h(1)] f R(2)
    by (simp add: empty_parsed_def no_extras_def wf_target_def)
  ultimately show ?thesis using t f h(2,3) b(3-6) by (auto simp: reads_back_def)
qed

lemma reads_back_split:
  assumes "buffer @ stream c = request_text m target hs body @ rest" "length (block m target hs @ CRLF2) \<le> length buffer"
  obtains pre where "buffer = block m target hs @ CRLF2 @ pre" "pre @ stream c = body @ rest"
proof
  let ?b = "block m target hs @ CRLF2"
  let ?n = "length ?b"
  have eq: "buffer @ stream c = ?b @ body @ rest"
    using assms(1) by (simp add: request_text_def block_def)
  have "take ?n (buffer @ stream c) = take ?n buffer" using assms(2) by simp
  moreover have "take ?n (?b @ body @ rest) = ?b" by (rule append_eq_conv_conj [THEN iffD1, THEN conjunct1, symmetric, OF refl])
  ultimately have "take ?n buffer = ?b" using eq by simp
  then show b: "buffer = block m target hs @ CRLF2 @ drop ?n buffer" by (metis append.assoc append_take_drop_id)
  show "drop ?n buffer @ stream c = body @ rest"
    using arg_cong [OF eq, of "drop ?n"] assms(2) by simp
qed



text \<open>
  The requirement of at least one header is needed: the end of the request line is looked for
  before the blank line, so a request that has no header lines is refused as malformed.
\<close>

theorem parse_request_no_headers:
  "map_option (fst \<circ> fst) (parse_request (''GET / HTTP/1.0'' @ CRLF2) 1000 100
     \<lparr>c_clock = 0, c_inbox = [], c_sent = []\<rparr> []) = Some MNET_PARSE_BAD_REQUEST"
  by code_simp

end
