(* ===== verification/Dispatch.thy ===== *)
theory Dispatch
  imports App Parse_Request
begin

text \<open>
  Routing a parsed request to its handler and writing responses, from \<^verbatim>\<open>src/mnet_dispatch.c\<close>. The
  outer \<open>None\<close> of \<open>find_loop\<close>, \<open>mnet_find_route\<close> and \<open>dispatch\<close> is undefined behaviour (an
  unwritten route, a slot outside the array or a slot freed twice).
\<close>

section \<open>Finding a route\<close>

fun find_loop ::
  "'w mnet_route option list \<Rightarrow> mnet_http_method \<Rightarrow> string \<Rightarrow> slot list \<Rightarrow> nat \<Rightarrow> alloc \<Rightarrow>
   (('w mnet_route \<times> nat) option \<times> slot list \<times> alloc) option" where
  "find_loop [] meth path out max_params al = Some (None, out, al)"
| "find_loop (None # rs) meth path out max_params al = None"
| "find_loop (Some r # rs) meth path out max_params al =
     (if rt_method r \<noteq> meth then find_loop rs meth path out max_params al
      else
        (case mnet_route_match r (Some path) out max_params al of
           None \<Rightarrow> None
         | Some ((n, out'), al') \<Rightarrow>
             if n \<ge> 0 then Some (Some (r, nat n), out', al')
             else find_loop rs meth path out' max_params al'))"

definition mnet_find_route ::
  "'w mnet_app \<Rightarrow> mnet_http_method \<Rightarrow> string \<Rightarrow> slot list \<Rightarrow> nat \<Rightarrow> alloc \<Rightarrow>
   (('w mnet_route \<times> nat) option \<times> slot list \<times> alloc) option" where
  "mnet_find_route app meth path out max_params al =
     (let rs = take (app_route_count app) (app_routes app)
      in case find_loop rs meth path out max_params al of
           Some (None, out', al') \<Rightarrow>
             if meth = MNET_HTTP_HEAD then find_loop rs MNET_HTTP_GET path out' max_params al'
             else Some (None, out', al')
         | res \<Rightarrow> res)"

section \<open>Writing responses\<close>

definition status_text :: "int \<Rightarrow> string" where
  "status_text status =
     (if status = 200 then ''OK''
      else if status = 201 then ''Created''
      else if status = 204 then ''No Content''
      else if status = 301 then ''Moved Permanently''
      else if status = 302 then ''Found''
      else if status = 400 then ''Bad Request''
      else if status = 401 then ''Unauthorized''
      else if status = 403 then ''Forbidden''
      else if status = 404 then ''Not Found''
      else if status = 405 then ''Method Not Allowed''
      else if status = 413 then ''Payload Too Large''
      else if status = 429 then ''Too Many Requests''
      else if status = 431 then ''Request Header Fields Too Large''
      else if status = 500 then ''Internal Server Error''
      else if status = 503 then ''Service Unavailable''
      else ''Unknown'')"

definition connection_value :: "bool \<Rightarrow> string" where
  "connection_value keep_alive = (if keep_alive then ''keep-alive'' else ''close'')"

definition response_header :: "mnet_response \<Rightarrow> string \<Rightarrow> bool \<Rightarrow> string" where
  "response_header r ct keep_alive =
     (if r_chunked r then
        ''HTTP/1.1 '' @ show_int (r_status r) @ '' '' @ status_text (r_status r) @ CRLF @
        ''Transfer-Encoding: chunked'' @ CRLF @
        ''Content-Type: '' @ ct @ CRLF @
        ''Connection: '' @ connection_value keep_alive @ CRLF @ CRLF
      else
        ''HTTP/1.1 '' @ show_int (r_status r) @ '' '' @ status_text (r_status r) @ CRLF @
        ''Content-Length: '' @ show_nat (r_body_length r) @ CRLF @
        ''Content-Type: '' @ ct @ CRLF @
        ''Connection: '' @ connection_value keep_alive @ CRLF @ CRLF)"

text \<open>The bytes sent for a body; \<open>body_length\<close> of them are read from \<open>body\<close>.\<close>

definition send_response ::
  "mnet_response \<Rightarrow> bool \<Rightarrow> bool \<Rightarrow> conn \<Rightarrow> alloc \<Rightarrow> conn \<times> alloc" where
  "send_response r head_only keep_alive c al =
     (let ct = (case r_content_type r of Some t \<Rightarrow> t | None \<Rightarrow> ''application/octet-stream'')
      in if \<not> mnet_header_value_valid (Some ct) then (c, al)
         else
           let header = response_header r ct keep_alive
           in if length header \<ge> 1024 then (c, al)
              else if \<not> head_only \<and> \<not> r_chunked r \<and> r_body r \<noteq> None \<and> r_body_length r > 0 then
                (case malloc al of
                   (False, al') \<Rightarrow> (c, al')
                 | (True, al') \<Rightarrow>
                     (mnet_send (header @ take (r_body_length r) (the (r_body r))) c, al'))
              else
                let c1 = mnet_send header c
                in if head_only \<or> \<not> r_chunked r then (c1, al)
                   else
                     let chunk_header = show_hex (r_body_length r) @ CRLF;
                         c2 = (case r_body r of
                                 Some b \<Rightarrow>
                                   if r_body_length r > 0 then
                                     mnet_send CRLF
                                       (mnet_send (take (r_body_length r) b)
                                         (if length chunk_header < 32 then mnet_send chunk_header c1 else c1))
                                   else c1
                               | None \<Rightarrow> c1)
                     in (mnet_send (''0'' @ CRLF2) c2, al))"

definition log_stderr :: "bool \<Rightarrow> string \<Rightarrow> 'w host \<Rightarrow> 'w host" where
  "log_stderr debug line h = (if debug then h\<lparr>h_stderr := h_stderr h @ [line]\<rparr> else h)"

definition error_page :: "int \<Rightarrow> string \<Rightarrow> string \<Rightarrow> string" where
  "error_page status text message =
     ''<!doctype html><html><head><title>'' @ show_int status @ '' '' @ text @
     ''</title></head><body><h1>'' @ show_int status @ '' '' @ text @ ''</h1><p>'' @ message @
     ''</p></body></html>''"

definition send_simple_error ::
  "int \<Rightarrow> string \<Rightarrow> string \<Rightarrow> bool \<Rightarrow> conn \<Rightarrow> 'w host \<Rightarrow> conn \<times> 'w host" where
  "send_simple_error status text message debug c h =
     (let h' = log_stderr debug (''[mnet] '' @ show_int status @ '' '' @ message) h;
          full = error_page status text message;
          blen = (if length full \<ge> 256 then 255 else length full);
          header = ''HTTP/1.1 '' @ show_int status @ '' '' @ text @ CRLF @
            ''Content-Length: '' @ show_nat blen @ CRLF @
            ''Content-Type: text/html; charset=utf-8'' @ CRLF @ ''Connection: close'' @ CRLF @ CRLF
      in if length header \<ge> 512 then (c, h')
         else (mnet_send (take blen (snprintf_out 256 full)) (mnet_send header c), h'))"

definition fixed_page :: "string \<Rightarrow> string \<Rightarrow> bool \<Rightarrow> conn \<Rightarrow> conn" where
  "fixed_page status_line body keep_alive c =
     (let header = ''HTTP/1.1 '' @ status_line @ CRLF @ ''Content-Length: '' @ show_nat (length body) @ CRLF @
            ''Content-Type: text/html; charset=utf-8'' @ CRLF @
            ''Connection: '' @ connection_value keep_alive @ CRLF @ CRLF
      in if 0 < length header \<and> length header < 512 then mnet_send body (mnet_send header c) else c)"

definition send_not_found :: "string \<Rightarrow> bool \<Rightarrow> bool \<Rightarrow> conn \<Rightarrow> 'w host \<Rightarrow> conn \<times> 'w host" where
  "send_not_found path debug keep_alive c h =
     (fixed_page ''404 Not Found''
        (''<!doctype html><html><head><title>404 Not Found</title></head><body>'' @
         ''<h1>404 Not Found</h1><p>The requested URL was not found on this server.</p></body></html>'')
        keep_alive c,
      log_stderr debug (''[mnet] 404  '' @ path) h)"

definition send_method_not_allowed :: "string \<Rightarrow> bool \<Rightarrow> bool \<Rightarrow> conn \<Rightarrow> 'w host \<Rightarrow> conn \<times> 'w host" where
  "send_method_not_allowed meth debug keep_alive c h =
     (fixed_page ''405 Method Not Allowed''
        (''<!doctype html><html><head><title>405 Method Not Allowed</title></head><body>'' @
         ''<h1>405 Method Not Allowed</h1><p>The method is not allowed for this URL.</p></body></html>'')
        keep_alive c,
      log_stderr debug (''[mnet] 405  '' @ meth) h)"

section \<open>Dispatch\<close>

definition null_request :: mnet_request where
  "null_request =
     \<lparr>rq_method = [], rq_path = [], rq_query_string = None, rq_body = None, rq_body_length = 0,
      rq_path_param_count = 0, rq_path_param_names = None, rq_path_param_values = None,
      rq_query_count = 0, rq_query_names = None, rq_query_values = None,
      rq_header_count = 0, rq_header_names = None, rq_header_values = None,
      rq_cookie_count = 0, rq_cookie_names = None, rq_cookie_values = None,
      rq_extras = None, rq_user_data = None\<rparr>"

definition not_found_request :: "parsed_request \<Rightarrow> mnet_request" where
  "not_found_request parsed =
     null_request\<lparr>rq_method := p_method parsed, rq_path := p_path_only parsed, rq_extras := Some (p_extras parsed)\<rparr>"

text \<open>The request a matched route's handler gets.\<close>

definition handler_request :: "parsed_request \<Rightarrow> 'w mnet_route \<Rightarrow> nat \<Rightarrow> slot list \<Rightarrow> mnet_request" where
  "handler_request parsed route param_count param_values =
     (let e = (p_extras parsed)\<lparr>ex_param_names := rt_param_names route, ex_param_count := param_count,
                ex_param_values := Some param_values\<rparr>
      in \<lparr>rq_method = p_method parsed, rq_path = p_path_only parsed,
          rq_query_string = Some (case p_query_string parsed of Some q \<Rightarrow> q | None \<Rightarrow> []),
          rq_body = p_body parsed, rq_body_length = p_body_length parsed,
          rq_path_param_count = param_count, rq_path_param_names = rt_param_names route,
          rq_path_param_values = Some param_values,
          rq_query_count = ex_query_count e, rq_query_names = ex_query_names e,
          rq_query_values = ex_query_values e,
          rq_header_count = ex_header_count e, rq_header_names = ex_header_names e,
          rq_header_values = ex_header_values e,
          rq_cookie_count = ex_cookie_count e, rq_cookie_names = ex_cookie_names e,
          rq_cookie_values = ex_cookie_values e,
          rq_extras = Some e, rq_user_data = rt_user_data route\<rparr>)"

text \<open>The response, the captured values with their count, and the host afterwards.\<close>

definition dispatch ::
  "environment \<Rightarrow> 'w mnet_app \<Rightarrow> parsed_request \<Rightarrow> slot list \<Rightarrow> nat \<Rightarrow> 'w host \<Rightarrow>
   (mnet_response \<times> slot list \<times> nat \<times> 'w host) option" where
  "dispatch env app parsed param_values max_params h =
     (case p_method_enum parsed of
        None \<Rightarrow> None
      | Some me \<Rightarrow>
          (case mnet_find_route app me (p_path_only parsed) param_values max_params (h_alloc h) of
             None \<Rightarrow> None
           | Some (found, vals, al) \<Rightarrow>
               let h1 = h\<lparr>h_alloc := al\<rparr>;
                   count = (case found of Some (r, n) \<Rightarrow> n | None \<Rightarrow> 0)
               in if app_route_count app = 0 then
                    let (resp, h2) =
                      (if p_path_only parsed = ''/'' \<or> p_path_only parsed = ''/index.html''
                       then with_alloc (welcome_response env app) h1
                       else with_alloc (mnet_error 404 (Some ''not found'')) h1)
                    in Some (resp, vals, count, h2)
                  else
                    (case found of
                       None \<Rightarrow>
                         (case app_not_found_handler app of
                            Some f \<Rightarrow>
                              let (resp, h2) = f (not_found_request parsed) h1 in Some (resp, vals, count, h2)
                          | None \<Rightarrow> Some (zero_response, vals, count, h1))
                     | Some (route, n) \<Rightarrow>
                         let req = handler_request parsed route n vals;
                             (resp, h2) =
                               (case app_middleware app of
                                  Some mw \<Rightarrow> mw req (rt_handler route) h1
                                | None \<Rightarrow> rt_handler route req h1)
                         in Some (resp, vals, count, h2))))"

section \<open>The route that is found\<close>

text \<open>The slots above \<open>n\<close> hold nothing that was allocated meanwhile.\<close>

definition no_live_from :: "nat \<Rightarrow> slot list \<Rightarrow> slot list \<Rightarrow> bool" where
  "no_live_from n out out' \<longleftrightarrow>
     length out' = length out \<and> (\<forall>k. n \<le> k \<and> k < length out \<longrightarrow> out' ! k \<in> {Freed, Null} \<or> out' ! k = out ! k)"

definition serves :: "mnet_http_method \<Rightarrow> string \<Rightarrow> 'w mnet_route \<Rightarrow> bool" where
  "serves meth path r \<longleftrightarrow> rt_method r = meth \<and> route_result path r \<noteq> None"

text \<open>
  What a search through routes promises: a route that serves the request, with its values in the
  first slots, or none and nothing left allocated; and with no allocation failure it is the first
  such route in the order of registration.
\<close>

definition find_outcome ::
  "'w mnet_route list \<Rightarrow> mnet_http_method \<Rightarrow> string \<Rightarrow> bool \<Rightarrow> slot list \<Rightarrow>
   ('w mnet_route \<times> nat) option \<times> slot list \<times> alloc \<Rightarrow> bool" where
  "find_outcome rs meth path oom out res \<longleftrightarrow>
     (case res of (found, out', al') \<Rightarrow>
        (case found of
           None \<Rightarrow> no_live_from 0 out out' \<and> (oom \<or> find (serves meth path) rs = None)
         | Some (r, n) \<Rightarrow>
             r \<in> set rs \<and> serves meth path r \<and> n = length (the (route_result path r)) \<and> n \<le> length out \<and>
             take n out' = map Val (the (route_result path r)) \<and> no_live_from n out out' \<and>
             (oom \<or> find (serves meth path) rs = Some r)))"

lemma no_live_trans: "no_live_from 0 out out1 \<Longrightarrow> no_live_from n out1 out2 \<Longrightarrow> no_live_from n out out2"
  by (fastforce simp: no_live_from_def)

lemma route_match_cases:
  assumes "route_fits mx r" "mx \<le> length out"
  obtains (hit) vs out' al' where "mnet_route_match r (Some path) out mx al = Some ((int (length vs), out'), al')"
      "route_result path r = Some vs" "length vs \<le> length out" "take (length vs) out' = map Val vs"
      "no_live_from (length vs) out out'" "set al' \<subseteq> set al"
  | (miss) out' al' where "mnet_route_match r (Some path) out mx al = Some ((-1, out'), al')"
      "route_result path r = None \<or> False \<in> set al" "no_live_from 0 out out'" "set al' \<subseteq> set al"
proof -
  obtain n out' al' where m: "mnet_route_match r (Some path) out mx al = Some ((n, out'), al')" "length out' = length out"
    and c: "(n = -1 \<and> (route_result path r = None \<or> False \<in> set al) \<and>
            (\<forall>k<length out. out' ! k \<in> {Freed, Null} \<or> 0 \<le> k \<and> out' ! k = out ! k)) \<or>
         (\<exists>vs. route_result path r = Some vs \<and> n = int (0 + length vs) \<and>
            out' = take 0 out @ map Val vs @ drop (0 + length vs) out)"
    using mnet_route_match_outcome [OF assms, of path al] by (auto simp: match_outcome_def)
  note sub = mnet_route_match_alloc [OF m(1)]
  from c show thesis
  proof
    assume "n = -1 \<and> (route_result path r = None \<or> False \<in> set al) \<and>
      (\<forall>k<length out. out' ! k \<in> {Freed, Null} \<or> 0 \<le> k \<and> out' ! k = out ! k)"
    with m sub show thesis by (intro miss [of out' al']) (auto simp: no_live_from_def)
  next
    assume "\<exists>vs. route_result path r = Some vs \<and> n = int (0 + length vs) \<and>
      out' = take 0 out @ map Val vs @ drop (0 + length vs) out"
    then obtain vs where v: "route_result path r = Some vs" "n = int (length vs)"
      "out' = map Val vs @ drop (length vs) out" by auto
    with m have "length vs \<le> length out" by simp
    moreover from this v m have "no_live_from (length vs) out out'"
      by (auto simp: no_live_from_def nth_append)
    ultimately show thesis using m v sub by (intro hit [of vs out' al']) simp_all
  qed
qed

lemma find_loop_outcome:
  assumes "\<forall>r\<in>set rs. route_fits mx r" "mx \<le> length out"
  shows "\<exists>res. find_loop (map Some rs) meth path out mx al = Some res \<and>
    find_outcome rs meth path (False \<in> set al) out res \<and> set (snd (snd res)) \<subseteq> set al"
  using assms
proof (induction rs arbitrary: out al)
  case Nil
  then show ?case by (simp add: find_outcome_def no_live_from_def)
next
  case (Cons r rs)
  show ?case
  proof (cases "rt_method r = meth")
    case False
    obtain res where res: "find_loop (map Some rs) meth path out mx al = Some res"
      "find_outcome rs meth path (False \<in> set al) out res" "set (snd (snd res)) \<subseteq> set al"
      using Cons.IH [of out al] Cons.prems by (meson list.set_intros(2))
    with False show ?thesis by (cases res) (auto simp: find_outcome_def serves_def split: option.splits)
  next
    case meth: True
    have "route_fits mx r" "mx \<le> length out" using Cons.prems by auto
    then show ?thesis
    proof (cases rule: route_match_cases [where path = path and al = al])
      case (hit vs out' al')
      with meth show ?thesis by (simp add: find_outcome_def serves_def)
    next
      case (miss out' al')
      have "mx \<le> length out'" using miss(3) Cons.prems(2) by (simp add: no_live_from_def)
      then obtain res where res: "find_loop (map Some rs) meth path out' mx al' = Some res"
        "find_outcome rs meth path (False \<in> set al') out' res" "set (snd (snd res)) \<subseteq> set al'"
        using Cons.IH [of out' al'] Cons.prems by (meson list.set_intros(2))
      have "length out' = length out" using miss(3) by (simp add: no_live_from_def)
      then have "find_outcome (r # rs) meth path (False \<in> set al) out res"
        using res(2) miss(2-4) no_live_trans [OF miss(3)]
        by (cases res) (auto simp: find_outcome_def serves_def split: option.splits)
      with res miss meth show ?thesis by auto
    qed
  qed
qed

lemma written_routes: "wf_app app \<Longrightarrow> take (app_route_count app) (app_routes app) = map Some (registered app)"
  by (rule nth_equalityI) (auto simp: wf_app_def registered_def dest!: spec)

text \<open>The route that serves a request: its own method first, and GET for HEAD.\<close>

definition resolve :: "'w mnet_route list \<Rightarrow> mnet_http_method \<Rightarrow> string \<Rightarrow> 'w mnet_route option" where
  "resolve rs meth path =
     (case find (serves meth path) rs of
        Some r \<Rightarrow> Some r
      | None \<Rightarrow> if meth = MNET_HTTP_HEAD then find (serves MNET_HTTP_GET path) rs else None)"

definition found_ok ::
  "'w mnet_app \<Rightarrow> mnet_http_method \<Rightarrow> string \<Rightarrow> alloc \<Rightarrow> slot list \<Rightarrow> ('w mnet_route \<times> nat) option \<Rightarrow> slot list \<Rightarrow> bool" where
  "found_ok app meth path al out found out' \<longleftrightarrow>
     (case found of
        None \<Rightarrow> no_live_from 0 out out' \<and> (False \<notin> set al \<longrightarrow> resolve (registered app) meth path = None)
      | Some (r, n) \<Rightarrow>
          r \<in> set (registered app) \<and>
          (\<exists>vs. route_result path r = Some vs \<and> n = length vs \<and> n \<le> length out \<and> take n out' = map Val vs) \<and>
          no_live_from n out out' \<and> (False \<notin> set al \<longrightarrow> resolve (registered app) meth path = Some r))"

definition routes_fit :: "'w mnet_app \<Rightarrow> bool" where
  "routes_fit app \<longleftrightarrow> (\<forall>r\<in>set (registered app). route_fits MNET_MAX_PARAMS r)"

lemma find_route_outcome:
  assumes "wf_app app" "routes_fit app" "length out = 16"
  shows "\<exists>found out' al'. mnet_find_route app meth path out 16 al = Some (found, out', al') \<and>
    found_ok app meth path al out found out' \<and> set al' \<subseteq> set al"
proof -
  let ?rs = "registered app"
  have fit: "\<forall>r\<in>set ?rs. route_fits 16 r" using assms(2) by (simp add: routes_fit_def)
  obtain found out1 al1 where r: "find_loop (map Some ?rs) meth path out 16 al = Some (found, out1, al1)"
    "find_outcome ?rs meth path (False \<in> set al) out (found, out1, al1)" "set al1 \<subseteq> set al"
    using find_loop_outcome [OF fit, of out meth path al] assms(3) by fastforce
  show ?thesis
  proof (cases "found = None \<and> meth = MNET_HTTP_HEAD")
    case False
    with r show ?thesis
      by (auto simp: mnet_find_route_def written_routes [OF assms(1)] find_outcome_def found_ok_def resolve_def
          serves_def split: option.splits)
  next
    case True
    then have nl: "no_live_from 0 out out1" and none: "False \<in> set al \<or> find (serves meth path) ?rs = None"
      using r(2) by (auto simp: find_outcome_def)
    then have l: "length out1 = 16" using assms(3) by (simp add: no_live_from_def)
    obtain found2 out2 al2 where r2: "find_loop (map Some ?rs) MNET_HTTP_GET path out1 16 al1 = Some (found2, out2, al2)"
      "find_outcome ?rs MNET_HTTP_GET path (False \<in> set al1) out1 (found2, out2, al2)" "set al2 \<subseteq> set al1"
      using find_loop_outcome [OF fit, of out1 MNET_HTTP_GET path al1] l by fastforce
    have "mnet_find_route app meth path out 16 al = Some (found2, out2, al2)"
      using True r(1) r2(1) by (simp add: mnet_find_route_def written_routes [OF assms(1)])
    moreover have "found_ok app meth path al out found2 out2"
      using r2(2) none r(3) no_live_trans [OF nl] True l assms(3)
      by (auto simp: find_outcome_def found_ok_def resolve_def serves_def split: option.splits)
    ultimately show ?thesis using r(3) r2(3) by blast
  qed
qed

text \<open>
  Routing is deterministic and clean. On a well-formed application whose patterns ask for at
  most sixteen captures, the search for a route never touches memory it must not; it finds the
  first route in the order of registration whose method and pattern fit (for HEAD, failing that,
  the first such GET route), with the captured values in the first slots; and whatever earlier
  attempts had allocated is released. Only a failed allocation can make it miss a route.
\<close>

theorem mnet_find_route_correct:
  assumes "wf_app app" "routes_fit app" "length out = 16"
  shows "\<exists>found out' al'. mnet_find_route app meth path out 16 al = Some (found, out', al') \<and>
    (case found of
       None \<Rightarrow> no_live_from 0 out out' \<and> (False \<notin> set al \<longrightarrow> resolve (registered app) meth path = None)
     | Some (r, n) \<Rightarrow>
         r \<in> set (registered app) \<and>
         (\<exists>vs. route_result path r = Some vs \<and> n = length vs \<and> n \<le> 16 \<and> take n out' = map Val vs) \<and>
         no_live_from n out out' \<and> (False \<notin> set al \<longrightarrow> resolve (registered app) meth path = Some r))"
  using find_route_outcome [OF assms, of meth path al] unfolding found_ok_def assms(3) by blast

definition sample_app :: "unit mnet_app" where
  "sample_app = zero_app\<lparr>app_routes := [Some (sample_route ''/u/:id''), Some (sample_route ''/u/7'')],
     app_route_count := 2, app_route_capacity := 2\<rparr>"

lemma sample_app_ok: "wf_app sample_app" "routes_fit sample_app"
  "registered sample_app = [sample_route ''/u/:id'', sample_route ''/u/7'']"
proof -
  show r: "registered sample_app = [sample_route ''/u/:id'', sample_route ''/u/7'']"
    by (simp add: registered_def sample_app_def zero_app_def)
  show "wf_app sample_app"
    by (auto simp: wf_app_def sample_app_def zero_app_def sample_route_def less_Suc_eq numeral_2_eq_2)
  have "pattern_params ''/u/:id'' \<le> 16" "pattern_params ''/u/7'' \<le> 16" by code_simp+
  then show "routes_fit sample_app" by (simp add: routes_fit_def r route_fits_def sample_route_def)
qed

theorem mnet_find_route_correct_witness:
  "\<exists>r n out' al'. mnet_find_route sample_app MNET_HTTP_HEAD ''/u/7'' (replicate 16 Null) 16 [] =
     Some (Some (r, n), out', al') \<and> rt_path r = Some ''/u/:id'' \<and> take n out' = [Val ''7'']"
proof -
  let ?r = "sample_route ''/u/:id''"
  have v: "route_values ''u/:id'' ''u/7'' = Some [''7'']" by code_simp
  then have rr: "route_result ''/u/7'' ?r = Some [''7'']" by (simp add: route_result_def sample_route_def)
  then have "serves MNET_HTTP_GET ''/u/7'' ?r" by (simp add: serves_def sample_route_def)
  moreover have "\<not> serves MNET_HTTP_HEAD ''/u/7'' (sample_route p)" for p by (simp add: serves_def sample_route_def)
  ultimately have "resolve (registered sample_app) MNET_HTTP_HEAD ''/u/7'' = Some ?r"
    by (simp add: resolve_def sample_app_ok(3))
  with mnet_find_route_correct [OF sample_app_ok(1,2), of "replicate 16 Null" MNET_HTTP_HEAD "''/u/7''" "[]"] rr
  show ?thesis by (auto simp: sample_route_def split: option.splits)
qed

section \<open>What the handler gets\<close>

lemma route_values_length: "route_values pat req = Some vs \<Longrightarrow> length vs \<le> pattern_params pat"
proof (induction pat req arbitrary: vs rule: route_values.induct)
  case (1 pat req)
  show ?case
  proof (cases "\<exists>pc ps rc rs. pat = pc # ps \<and> req = rc # rs")
    case False
    with 1(4) show ?thesis by (cases pat; cases req) auto
  next
    case True
    then obtain pc ps rc rs where pr: "pat = pc # ps" "req = rc # rs" by blast
    note R = 1(4) [unfolded pr route_values.simps [of "pc # ps"]]
    consider (star) "pc = CHR ''*''" | (colon) "pc \<noteq> CHR ''*''" "pc = CHR '':''"
      | (lit) "pc \<noteq> CHR ''*''" "pc \<noteq> CHR '':''" by blast
    then show ?thesis
    proof cases
      case star
      then obtain us where "route_values ps [] = Some us" "vs = (rc # rs) # us" using R by auto
      with 1(1) [OF refl pr star] star show ?thesis by (auto simp: pr pattern_params_Cons)
    next
      case colon
      then obtain us where
        "route_values (skip_slash (after_seg ps)) (skip_slash (after_seg req)) = Some us"
        "vs = path_decode (seg_of (rc # rs)) # us" using R pr by auto
      with 1(2) [OF refl pr colon] colon show ?thesis by (auto simp: pr pattern_params_Cons)
    next
      case lit
      then have "pc = rc" "route_values ps rs = Some vs" using R by (auto split: if_splits)
      with 1(3) [OF refl pr lit] lit show ?thesis by (auto simp: pr pattern_params_Cons)
    qed
  qed
qed

lemma route_result_length:
  "route_result path r = Some vs \<Longrightarrow> rt_path r = Some p \<Longrightarrow> length vs \<le> pattern_params p"
  using route_values_length
  by (fastforce simp: route_result_def pattern_params_Cons split: option.splits list.splits if_splits)

text \<open>Every route with parameter names has one for each capture.\<close>

definition route_named :: "'w mnet_route \<Rightarrow> bool" where
  "route_named r \<longleftrightarrow>
     (\<forall>ns p. rt_param_names r = Some ns \<and> rt_path r = Some p \<longrightarrow> pattern_params p \<le> length ns)"

definition routes_named :: "'w mnet_app \<Rightarrow> bool" where
  "routes_named app \<longleftrightarrow> (\<forall>r\<in>set (registered app). route_named r)"

lemma handler_request_wf:
  assumes "wf_extras (p_extras parsed)" "route_named r" "route_result (p_path_only parsed) r = Some vs"
    and "length vs \<le> length vals"
  shows "wf_request (handler_request parsed r (length vs) vals)"
proof -
  have "length vs \<le> length ns" if "rt_param_names r = Some ns" for ns
  proof -
    obtain p where p: "rt_path r = Some p" using assms(3) by (auto simp: route_result_def split: option.splits)
    with route_result_length [OF assms(3) p] assms(2) that show ?thesis by (fastforce simp: route_named_def)
  qed
  then have "arrays_ok (rt_param_names r) (Some vals) (length vs)"
    using assms(4) by (auto simp: arrays_ok_def split: option.splits)
  with assms(1) show ?thesis by (simp add: wf_request_def handler_request_def wf_extras_def Let_def)
qed

text \<open>Freeing what a search left in the slots: defined, and nothing stays allocated.\<close>

lemma free_found:
  assumes "found_ok app meth path al (replicate 16 Null) found vals"
    and "n = (case found of None \<Rightarrow> 0 | Some (r, n) \<Rightarrow> n)"
  shows "\<exists>vals'. mnet_match_params_free vals n = Some vals' \<and> (\<forall>v\<in>set vals'. \<forall>b. v \<noteq> Val b)"
proof -
  have len: "length vals = 16" and n: "n \<le> 16"
    and live: "\<And>k. n \<le> k \<Longrightarrow> k < 16 \<Longrightarrow> vals ! k \<in> {Freed, Null}"
    and pre: "\<And>k. k < n \<Longrightarrow> vals ! k \<noteq> Freed"
  proof -
    show "length vals = 16" "n \<le> 16" "\<And>k. n \<le> k \<Longrightarrow> k < 16 \<Longrightarrow> vals ! k \<in> {Freed, Null}"
      using assms by (auto simp: found_ok_def no_live_from_def split: option.splits)
    fix k
    assume "k < n"
    then have "take n vals ! k = vals ! k" "\<exists>vs. take n vals = map Val vs \<and> k < length vs"
      using assms by (auto simp: found_ok_def split: option.splits)
    then show "vals ! k \<noteq> Freed" by auto
  qed
  have "mnet_match_params_free vals n = Some (map freed (take n vals) @ drop n vals)"
    using len n pre by (intro params_free_spec) auto
  moreover have "v \<noteq> Val b" if "v \<in> set (map freed (take n vals) @ drop n vals)" for v b
  proof -
    have "v \<in> {Freed, Null}"
    proof (cases "v \<in> set (drop n vals)")
      case True
      then obtain i where i: "i < 16 - n" "v = vals ! (n + i)" using len by (auto simp: in_set_conv_nth)
      then have "n + i < 16" by simp
      with live [of "n + i"] i(2) show ?thesis by simp
    next
      case False
      with that freed_no_Val show ?thesis by auto
    qed
    then show ?thesis by auto
  qed
  ultimately show ?thesis by blast
qed

lemma dispatch_freed:
  assumes "wf_app app" "routes_fit app" "p_method_enum parsed = Some me"
  shows "\<exists>resp vals n h'. dispatch env app parsed (replicate 16 Null) 16 h = Some (resp, vals, n, h') \<and>
    (\<exists>vals'. mnet_match_params_free vals n = Some vals' \<and> (\<forall>v\<in>set vals'. \<forall>b. v \<noteq> Val b))"
proof -
  obtain found vals al where f: "mnet_find_route app me (p_path_only parsed) (replicate 16 Null) 16 (h_alloc h) =
      Some (found, vals, al)" "found_ok app me (p_path_only parsed) (h_alloc h) (replicate 16 Null) found vals"
    using find_route_outcome [OF assms(1,2), of "replicate 16 Null" me "p_path_only parsed" "h_alloc h"] by auto
  let ?n = "case found of None \<Rightarrow> 0 | Some (r, n) \<Rightarrow> n"
  have "\<exists>resp h'. dispatch env app parsed (replicate 16 Null) 16 h = Some (resp, vals, ?n, h')"
    by (auto simp: dispatch_def assms(3) f(1) Let_def split: prod.splits option.splits)
  with free_found [OF f(2) refl] show ?thesis by blast
qed


text \<open>The call of a matched route's handler, through the middleware when there is one.\<close>

definition call_handler :: "'w mnet_app \<Rightarrow> 'w mnet_route \<Rightarrow> mnet_request \<Rightarrow> 'w host \<Rightarrow> mnet_response \<times> 'w host" where
  "call_handler app route req h =
     (case app_middleware app of Some mw \<Rightarrow> mw req (rt_handler route) h | None \<Rightarrow> rt_handler route req h)"

lemma dispatch_serves:
  assumes "wf_app app" "routes_fit app" "routes_named app" "wf_extras (p_extras parsed)"
    and "p_method_enum parsed = Some me" "False \<notin> set (h_alloc h)"
    and "resolve (registered app) me (p_path_only parsed) = Some r"
  obtains vs vals al resp h2 where
    "call_handler app r (handler_request parsed r (length vs) vals) (h\<lparr>h_alloc := al\<rparr>) = (resp, h2)"
    "dispatch env app parsed (replicate 16 Null) 16 h = Some (resp, vals, length vs, h2)"
    "set al \<subseteq> set (h_alloc h)" "route_result (p_path_only parsed) r = Some vs"
    "take (length vs) vals = map Val vs" "wf_request (handler_request parsed r (length vs) vals)"
    "mnet_match_params_free vals (length vs) \<noteq> None"
proof -
  obtain found vals al where f: "mnet_find_route app me (p_path_only parsed) (replicate 16 Null) 16 (h_alloc h) =
      Some (found, vals, al)" "found_ok app me (p_path_only parsed) (h_alloc h) (replicate 16 Null) found vals"
      "set al \<subseteq> set (h_alloc h)"
    using find_route_outcome [OF assms(1,2), of "replicate 16 Null" me "p_path_only parsed" "h_alloc h"] by auto
  obtain n vs where n: "found = Some (r, n)" "r \<in> set (registered app)"
    "route_result (p_path_only parsed) r = Some vs" "n = length vs" "take n vals = map Val vs" "n \<le> length vals"
    using f(2) assms(6,7) by (auto simp: found_ok_def no_live_from_def split: option.splits)
  have "app_route_count app \<noteq> 0" using n(2) by (cases "app_route_count app = 0") (auto simp: registered_def)
  let ?req = "handler_request parsed r n vals" and ?h1 = "h\<lparr>h_alloc := al\<rparr>"
  obtain resp h2 where c: "call_handler app r ?req ?h1 = (resp, h2)" by fastforce
  then have "dispatch env app parsed (replicate 16 Null) 16 h = Some (resp, vals, n, h2)"
    using \<open>app_route_count app \<noteq> 0\<close>
    by (auto simp: dispatch_def call_handler_def assms(5) f(1) n(1) split: option.splits prod.splits)
  moreover have "wf_request ?req"
    using handler_request_wf [OF assms(4) _ n(3)] assms(3) n by (simp add: routes_named_def)
  moreover have "mnet_match_params_free vals n \<noteq> None" using free_found [OF f(2)] n(1) by fastforce
  ultimately show thesis using that [of vs vals al resp h2] c f(3) n(3-5) by simp
qed

lemma handler_request_carries [simp]:
  "rq_path (handler_request parsed r n vals) = p_path_only parsed"
  "rq_body (handler_request parsed r n vals) = p_body parsed"
  "rq_body_length (handler_request parsed r n vals) = p_body_length parsed"
  "rq_method (handler_request parsed r n vals) = p_method parsed"
  "rq_path_param_names (handler_request parsed r n vals) = rt_param_names r"
  "rq_path_param_values (handler_request parsed r n vals) = Some vals"
  "rq_path_param_count (handler_request parsed r n vals) = n"
  "rq_query_names (handler_request parsed r n vals) = ex_query_names (p_extras parsed)"
  "rq_query_values (handler_request parsed r n vals) = ex_query_values (p_extras parsed)"
  "rq_query_count (handler_request parsed r n vals) = ex_query_count (p_extras parsed)"
  "rq_header_names (handler_request parsed r n vals) = ex_header_names (p_extras parsed)"
  "rq_header_values (handler_request parsed r n vals) = ex_header_values (p_extras parsed)"
  "rq_header_count (handler_request parsed r n vals) = ex_header_count (p_extras parsed)"
  by (simp_all add: handler_request_def Let_def)


definition sample_parsed :: parsed_request where
  "sample_parsed = empty_parsed\<lparr>p_method := ''GET'', p_path := ''/u/7'', p_path_only := ''/u/7'',
     p_method_enum := Some MNET_HTTP_GET, p_body := Some []\<rparr>"



end
