(* ===== verification/Response_Wire.thy ===== *)
theory Response_Wire
  imports Dispatch
begin

text \<open>
  What the response writers of \<^verbatim>\<open>src/mnet_dispatch.c\<close> put on the wire: a header block that ends at
  its first blank line whatever the content type and the body are, and a payload of exactly the
  announced length, or in chunks.
\<close>

section \<open>Chunked bodies\<close>

definition chunked_text :: "bytes \<Rightarrow> bytes" where
  "chunked_text b = (if b = [] then [] else show_hex (length b) @ CRLF @ b @ CRLF) @ ''0'' @ CRLF2"

text \<open>A reader of chunked bodies, as RFC 9112 describes it (without extensions and trailers).\<close>

definition hexnum :: "string \<Rightarrow> nat" where
  "hexnum ds = foldl (\<lambda>a c. a * 16 + nat (hex_value c)) 0 ds"

function dechunk :: "bytes \<Rightarrow> bytes option" where
  "dechunk s =
     (let ds = takeWhile (\<lambda>c. c \<noteq> CR) s; n = hexnum ds; rest = drop (length ds + 2) s
      in if ds = [] \<or> (\<exists>c\<in>set ds. hex_value c < 0) \<or> take 2 (drop (length ds) s) \<noteq> CRLF then None
         else if n = 0 then (if rest = CRLF then Some [] else None)
         else if take 2 (drop n rest) \<noteq> CRLF then None
         else map_option ((@) (take n rest)) (dechunk (drop (n + 2) rest)))"
  by pat_completeness auto
termination
proof (relation "measure length", goal_cases)
  case (2 s ds n rest)
  then have "s \<noteq> []" by auto
  with 2 show ?case by simp
qed simp

declare dechunk.simps [simp del]

lemma hexnum_radix: "hexnum (radix 16 n) = n"
proof (induction n rule: less_induct)
  case (less n)
  show ?case
  proof (cases "n < 16")
    case True
    then show ?thesis by (simp add: radix.simps [of 16 n] hexnum_def hex_value_digit_char)
  next
    case False
    with less have "hexnum (radix 16 (n div 16)) = n div 16" by simp
    with False show ?thesis
      by (simp add: radix.simps [of 16 n] hexnum_def hex_value_digit_char)
  qed
qed

lemma show_hex_chars: "c \<in> set (show_hex n) \<Longrightarrow> hex_value c \<ge> 0 \<and> c \<noteq> CR"
proof -
  assume "c \<in> set (show_hex n)"
  then obtain d where "d < 16" "c = digit_char d" using set_radix_digits [of 16 c n] by (auto simp: show_hex_def)
  then have "hex_value c \<ge> 0" by (simp add: hex_value_digit_char)
  moreover have "hex_value CR = -1" by (simp add: hex_value_def)
  ultimately show ?thesis by auto
qed

lemma dechunk_last: "dechunk (''0'' @ CRLF2) = Some []"
  by (simp add: dechunk.simps Let_def hexnum_def hex_value_def)

lemma dechunk_chunk:
  assumes "b \<noteq> []"
  shows "dechunk (show_hex (length b) @ CRLF @ b @ CRLF @ r) = map_option ((@) b) (dechunk r)"
proof -
  let ?ds = "show_hex (length b)" and ?s = "show_hex (length b) @ CRLF @ b @ CRLF @ r"
  have ds: "takeWhile (\<lambda>c. c \<noteq> CR) ?s = ?ds"
    using show_hex_chars [of _ "length b"] takeWhile_stop [of ?ds "\<lambda>c. c \<noteq> CR" CR "LF # b @ CRLF @ r"] by simp
  have n: "hexnum ?ds = length b" by (simp add: show_hex_def hexnum_radix)
  have "?ds \<noteq> []" by (simp add: show_hex_def radix_nonempty)
  moreover have "\<not> (\<exists>c\<in>set ?ds. hex_value c < 0)" using show_hex_chars [of _ "length b"] by fastforce
  moreover have "drop (length ?ds) ?s = CRLF @ b @ CRLF @ r" "drop (length ?ds + 2) ?s = b @ CRLF @ r" by simp_all
  ultimately show ?thesis
    unfolding dechunk.simps [of ?s] Let_def ds n using assms by simp
qed

section \<open>Blocks of lines\<close>

text \<open>A message whose header block consists of plain lines.\<close>

definition message :: "string list \<Rightarrow> bytes \<Rightarrow> bytes" where
  "message ls payload = join_lines ls @ CRLF2 @ payload"

lemma message_end:
  "ls \<noteq> [] \<Longrightarrow> \<forall>l\<in>set ls. plain_line l \<Longrightarrow> end_of_headers (message ls payload) = Some (length (join_lines ls), 4)"
  by (simp add: end_of_headers_def message_def strstr_block del: append_Cons append_Nil)

definition length_line :: "nat \<Rightarrow> string" where
  "length_line n = ''Content-Length: '' @ show_nat n"

text \<open>A message framed by exactly one \<open>Content-Length\<close>, that of its payload.\<close>

definition well_framed :: "bytes \<Rightarrow> bool" where
  "well_framed m \<longleftrightarrow>
     (\<exists>as bs payload. m = message (as @ length_line (length payload) # bs) payload \<and>
        (\<forall>l\<in>set (as @ bs). plain_line l \<and> \<not> ci_prefix ''content-length:'' l))"

definition sent_since :: "conn \<Rightarrow> conn \<Rightarrow> bytes" where
  "sent_since c c' = concat (drop (length (c_sent c)) (c_sent c'))"

lemma sent_since_send [simp]:
  "sent_since c c = []"
  "length (c_sent c) \<le> length (c_sent c1) \<Longrightarrow> sent_since c (mnet_send b c1) = sent_since c c1 @ b"
  by (simp_all add: sent_since_def)

definition status_line :: "int \<Rightarrow> string \<Rightarrow> string" where
  "status_line st text = ''HTTP/1.1 '' @ show_int st @ '' '' @ text"

lemma show_int_chars: "c \<in> set (show_int i) \<Longrightarrow> isdigit c \<or> c = CHR ''-''"
  using show_nat_isdigit by (auto simp: show_int_def split: if_splits)

lemma not_isdigit: "\<not> isdigit CR" "\<not> isdigit LF" "\<not> isdigit NUL"
  by (simp_all add: isdigit_def)

lemma plain_show: "set (show_int i) \<inter> {CR, LF, NUL} = {}" "set (show_nat n) \<inter> {CR, LF, NUL} = {}"
  using show_int_chars [of _ i] show_nat_isdigit [of _ n] not_isdigit by (auto dest: show_int_chars show_nat_isdigit)

lemma plain_lines:
  "set text \<inter> {CR, LF, NUL} = {} \<Longrightarrow> plain_line (status_line st text)"
  "plain_line (length_line n)"
  "set v \<inter> {CR, LF, NUL} = {} \<Longrightarrow> plain_line (''Content-Type: '' @ v)"
  "plain_line (''Connection: '' @ connection_value k)"
  using plain_show by (auto simp: plain_line_def status_line_def length_line_def connection_value_def)

lemma status_text_plain: "set (status_text st) \<inter> {CR, LF, NUL} = {}"
  by (simp add: status_text_def)

lemma other_lines:
  "\<not> ci_prefix ''content-length:'' (status_line st text)"
  "\<not> ci_prefix ''content-length:'' (''Content-Type: '' @ v)"
  "\<not> ci_prefix ''content-length:'' (''Connection: '' @ v)"
  by (simp_all add: ci_prefix_def status_line_def to_lower_def)

section \<open>Responses\<close>

definition content_type_of :: "mnet_response \<Rightarrow> string" where
  "content_type_of r = (case r_content_type r of Some t \<Rightarrow> t | None \<Rightarrow> ''application/octet-stream'')"

definition body_of :: "mnet_response \<Rightarrow> bytes" where
  "body_of r = (case r_body r of Some b \<Rightarrow> b | None \<Rightarrow> [])"

definition response_lines :: "mnet_response \<Rightarrow> bool \<Rightarrow> string list" where
  "response_lines r keep =
     [status_line (r_status r) (status_text (r_status r)),
      (if r_chunked r then ''Transfer-Encoding: chunked'' else length_line (r_body_length r)),
      ''Content-Type: '' @ content_type_of r, ''Connection: '' @ connection_value keep]"

text \<open>The responses that are written at all: others are dropped before anything is sent.\<close>

definition sendable :: "mnet_response \<Rightarrow> bool \<Rightarrow> bool" where
  "sendable r keep \<longleftrightarrow>
     mnet_header_value_valid (Some (content_type_of r)) \<and>
     length (response_header r (content_type_of r) keep) < 1024 \<and> wf_response r \<and> r_body_length r < 2 ^ 64"

lemma length_status_text: "length (status_text st) \<le> 31"
  by (simp add: status_text_def)

text \<open>The header always fits its buffer, unless the content type is very long.\<close>

lemma sendable_short:
  assumes "mnet_header_value_valid (Some (content_type_of r))" "length (content_type_of r) \<le> 800" "c_int (r_status r)"
    "wf_response r" "r_body_length r < 2 ^ 64"
  shows "sendable r keep"
proof -
  have "length (show_int (r_status r)) \<le> 11" using assms(3) by (intro length_show_int) (simp_all add: c_int_def)
  moreover have "length (show_nat (r_body_length r)) \<le> 20" using assms(5) by (intro length_show_nat) simp_all
  ultimately have "length (response_header r (content_type_of r) keep) < 1024"
    using assms(2) length_status_text [of "r_status r"] by (cases keep) (simp_all add: response_header_def connection_value_def)
  with assms show ?thesis by (simp add: sendable_def)
qed

lemma response_header_message: "response_header r (content_type_of r) keep = message (response_lines r keep) []"
  by (simp add: response_header_def message_def response_lines_def status_line_def length_line_def)

lemma response_lines_plain: "sendable r keep \<Longrightarrow> \<forall>l\<in>set (response_lines r keep). plain_line l"
proof -
  assume "sendable r keep"
  then have "set (content_type_of r) \<inter> {CR, LF, NUL} = {}"
    using header_value_valid_chars by (simp only: sendable_def)
  moreover have "plain_line ''Transfer-Encoding: chunked''" by (simp add: plain_line_def)
  ultimately show ?thesis
    using plain_lines(1) [OF status_text_plain] plain_lines(2-4) by (simp add: response_lines_def)
qed

lemma show_hex_short: "n < 2 ^ 64 \<Longrightarrow> length (show_hex n @ CRLF) < 32"
  using length_radix [of 16 16 n] by (simp add: show_hex_def)

lemma send_response_sent:
  assumes "sendable r keep"
  shows "sent_since c (fst (send_response r head_only keep c [])) =
    message (response_lines r keep)
      (if head_only then [] else if r_chunked r then chunked_text (body_of r) else body_of r)"
proof -
  let ?h = "response_header r (content_type_of r) keep"
  have m: "?h @ p = message (response_lines r keep) p" for p
    by (simp add: response_header_message message_def)
  have S: "mnet_header_value_valid (Some (content_type_of r))" "\<not> 1024 \<le> length ?h"
    using assms by (simp_all add: sendable_def)
  have B: "r_body_length r = length (body_of r)" "\<And>b. r_body r = Some b \<Longrightarrow> body_of r = b"
    "r_body r = None \<Longrightarrow> body_of r = []"
    using assms by (auto simp: sendable_def wf_response_def body_of_def split: option.splits)
  have short: "length (show_hex (length (body_of r)) @ CRLF) < 32"
    using assms B(1) by (intro show_hex_short) (simp add: sendable_def)
  note U = send_response_def [of r head_only keep c "[]", folded content_type_of_def, unfolded Let_def, simplified S if_False]
  consider (head) "head_only" | (plain) "\<not> head_only" "\<not> r_chunked r" | (chunk) "\<not> head_only" "r_chunked r" by blast
  then show ?thesis
  proof cases
    case head
    then show ?thesis unfolding U using m [of "[]"] by simp
  next
    case plain
    then show ?thesis
      unfolding U using B m [of "body_of r"] m [of "[]"] by (cases "r_body r") auto
  next
    case chunk
    then show ?thesis
      unfolding U using B short m [of "chunked_text (body_of r)"]
      by (cases "r_body r") (auto simp: chunked_text_def)
  qed
qed


definition hello_response :: mnet_response where
  "hello_response = \<lparr>r_status = 200, r_content_type = Some ''text/plain'', r_body = Some ''hello'',
     r_body_length = 5, r_chunked = True\<rparr>"

lemma hello_sendable: "sendable hello_response keep"
proof (rule sendable_short)
  show "mnet_header_value_valid (Some (content_type_of hello_response))" "length (content_type_of hello_response) \<le> 800"
    by code_simp+
qed (simp_all add: hello_response_def wf_response_def c_int_def)

lemma hello_facts: "body_of hello_response = ''hello''" "r_chunked hello_response"
  by (simp_all add: body_of_def hello_response_def)


section \<open>Error pages\<close>

lemma fixed_page_sent:
  assumes "set sl \<inter> {CR, LF, NUL} = {}" "length sl \<le> 100" "length body < 10 ^ 20"
  shows "sent_since c (fixed_page sl body keep c) =
    message [''HTTP/1.1 '' @ sl, length_line (length body), ''Content-Type: text/html; charset=utf-8'',
      ''Connection: '' @ connection_value keep] body"
proof -
  have "length (show_nat (length body)) \<le> 20" using assms(3) by (intro length_show_nat) simp_all
  moreover have "length (connection_value keep) \<le> 10" by (simp add: connection_value_def)
  ultimately show ?thesis
    using assms(2) by (simp add: fixed_page_def message_def length_line_def Let_def)
qed

lemma well_framed_message:
  assumes "set sl \<inter> {CR, LF, NUL} = {}"
  shows "well_framed (message [''HTTP/1.1 '' @ sl, length_line (length body),
    ''Content-Type: text/html; charset=utf-8'', ''Connection: '' @ connection_value keep] body)"
proof -
  let ?a = "''HTTP/1.1 '' @ sl" and ?b = "''Content-Type: text/html; charset=utf-8''"
    and ?c = "''Connection: '' @ connection_value keep"
  have "plain_line ?a" "plain_line ?b" "plain_line ?c" "\<not> ci_prefix ''content-length:'' ?a"
    "\<not> ci_prefix ''content-length:'' ?b" "\<not> ci_prefix ''content-length:'' ?c"
    using assms plain_lines(4) by (auto simp: plain_line_def ci_prefix_def to_lower_def)
  then show ?thesis
    unfolding well_framed_def by (intro exI [of _ "[?a]"] exI [of _ "[?b, ?c]"] exI [of _ body]) simp
qed

text \<open>
  Every error page is framed by its exact length, also when the page had to be cut to fit its
  buffer: the announced \<open>Content-Length\<close> is the number of payload bytes sent, and there is only
  one such header.
\<close>

theorem error_pages_framed:
  assumes "set text \<inter> {CR, LF, NUL} = {}" "length text \<le> 80" "c_int status"
  shows "well_framed (sent_since c (fst (send_simple_error status text message_text debug c h))) \<and>
    well_framed (sent_since c (fst (send_not_found path debug keep c h))) \<and>
    well_framed (sent_since c (fst (send_method_not_allowed meth debug keep c h)))"
proof -
  let ?full = "error_page status text message_text"
  let ?blen = "if length ?full \<ge> 256 then 255 else length ?full"
  let ?body = "take ?blen (snprintf_out 256 ?full)" and ?sl = "show_int status @ '' '' @ text"
  have "length (take (if length f \<ge> 256 then 255 else length f) (snprintf_out 256 f)) =
      (if length f \<ge> 256 then 255 else length f)" for f
    by (simp add: snprintf_out_def)
  then have len: "length ?body = ?blen" .
  have "length (show_int status) \<le> 11" using assms(3) length_show_int by (simp add: c_int_def)
  moreover have "length (show_nat ?blen) \<le> 3" by (rule length_show_nat) simp_all
  ultimately have "sent_since c (fst (send_simple_error status text message_text debug c h)) =
      message [''HTTP/1.1 '' @ ?sl, length_line ?blen, ''Content-Type: text/html; charset=utf-8'',
        ''Connection: '' @ connection_value False] ?body"
    using assms(2)
    by (simp add: send_simple_error_def message_def length_line_def connection_value_def Let_def)
  moreover have "set ?sl \<inter> {CR, LF, NUL} = {}" using assms(1) plain_show(1) [of status] by auto
  ultimately have "well_framed (sent_since c (fst (send_simple_error status text message_text debug c h)))"
    using well_framed_message [of ?sl ?body False] unfolding len by simp
  moreover have "well_framed (sent_since c (fixed_page sl body keep c))"
    if "set sl \<inter> {CR, LF, NUL} = {}" "length sl \<le> 100" "length body < 10 ^ 20" for sl body
    using fixed_page_sent [OF that] well_framed_message [OF that(1)] by simp
  ultimately show ?thesis by (simp add: send_not_found_def send_method_not_allowed_def)
qed

theorem error_pages_framed_witness:
  "well_framed (sent_since \<lparr>c_clock = 0, c_inbox = [], c_sent = []\<rparr>
     (fst (send_simple_error 413 ''Payload Too Large'' ''Request body exceeds the maximum size.'' False
       \<lparr>c_clock = 0, c_inbox = [], c_sent = []\<rparr> sample_host)))"
  using error_pages_framed [of "''Payload Too Large''" 413 "\<lparr>c_clock = 0, c_inbox = [], c_sent = []\<rparr>"
      "''Request body exceeds the maximum size.''" False sample_host] by (simp add: c_int_def)

end
