(* ===== verification/Server.thy ===== *)
theory Server
  imports Response_Wire
begin

text \<open>
  Serving one connection, from \<^verbatim>\<open>src/mnet_server.c\<close>: \<open>mnet_handle_client\<close> reads a request within
  its deadline, parses, dispatches and answers it, and goes on while the connection is kept alive.
  The buffer is the list of the bytes received (\<open>used\<close> is its length). \<open>None\<close> is undefined
  behaviour.
\<close>

section \<open>Definitions\<close>

text \<open>The deadline in milliseconds; the product must fit a C \<open>int\<close>.\<close>

definition request_timeout :: "'w mnet_app \<Rightarrow> bool \<Rightarrow> int option" where
  "request_timeout app keep_alive =
     (let t0 = (if app_timeout_seconds app > 0 then app_timeout_seconds app * 1000 else 30000);
          t = (if keep_alive \<and> app_keep_alive_timeout app > 0 then app_keep_alive_timeout app * 1000 else t0)
      in if c_int t0 \<and> c_int t then Some t else None)"

definition complete :: "bytes \<Rightarrow> bool" where
  "complete buf \<longleftrightarrow> strstr (c_string buf) CRLF2 \<noteq> None \<or> strstr (c_string buf) LF2 \<noteq> None"

abbreviation buffer_room :: nat where "buffer_room \<equiv> MNET_REQUEST_BUFFER_SIZE - 1"

function header_loop :: "int \<Rightarrow> bytes \<Rightarrow> conn \<Rightarrow> bool \<times> bytes \<times> conn" where
  "header_loop deadline buf c =
     (if length buf < buffer_room then
        let left = deadline - c_clock c
        in if left \<le> 0 then (False, buf, c)
           else
             case mnet_poll left c of
               (pr, c1) \<Rightarrow>
                 if pr \<le> 0 then (False, buf, c1)
                 else
                   (case mnet_recv (buffer_room - length buf) c1 of
                      (None, c2) \<Rightarrow> (False, buf, c2)
                    | (Some xs, c2) \<Rightarrow>
                        if xs = [] then (False, buf, c2)
                        else if complete (buf @ xs) then (True, buf @ xs, c2)
                        else header_loop deadline (buf @ xs) c2)
      else (False, buf, c))"
  by pat_completeness auto
termination
  by (relation "measure (\<lambda>(deadline, buf, c). buffer_room - length buf)") (auto intro!: diff_less_mono2)

declare header_loop.simps [simp del]

definition read_request :: "int \<Rightarrow> bytes \<Rightarrow> conn \<Rightarrow> bool \<times> bytes \<times> conn" where
  "read_request timeout_ms buf c =
     (if buf \<noteq> [] \<and> complete buf then (True, buf, c)
      else header_loop (c_clock c + timeout_ms) buf c)"

text \<open>The answer to a header block that does not fit the buffer.\<close>

definition reject_headers :: "'w mnet_app \<Rightarrow> conn \<Rightarrow> 'w host \<Rightarrow> conn \<times> 'w host" where
  "reject_headers app c h =
     send_simple_error 431 ''Request Header Fields Too Large'' ''Request headers exceed the maximum size.''
       (app_debug app) c
       (mnet_app_log (Some app) 1
         (''rejected request: header block exceeds '' @ show_nat buffer_room @ '' bytes'') h)"

text \<open>The answers to a request that could not be parsed.\<close>

definition reject :: "'w mnet_app \<Rightarrow> parse_status \<Rightarrow> parsed_request \<Rightarrow> conn \<Rightarrow> 'w host \<Rightarrow> conn \<times> 'w host" where
  "reject app st parsed c h =
     (let warn = (\<lambda>msg. mnet_app_log (Some app) 1 (''rejected request: '' @ msg) h)
      in case st of
           MNET_PARSE_UNSUPPORTED_METHOD \<Rightarrow>
             send_method_not_allowed (p_method parsed) (app_debug app) False c
               (warn (''unsupported method '' @ [CHR 0x27] @ p_method parsed @ [CHR 0x27]))
         | MNET_PARSE_TOO_LARGE \<Rightarrow>
             send_simple_error 413 ''Payload Too Large'' ''Request body exceeds the maximum size.'' (app_debug app) c
               (warn ''body exceeds the configured limit'')
         | MNET_PARSE_BAD_CONTENT_LENGTH \<Rightarrow>
             send_simple_error 400 ''Bad Request'' ''The Content-Length header is malformed.'' (app_debug app) c
               (warn ''malformed Content-Length'')
         | MNET_PARSE_DUPLICATE_CONTENT_LENGTH \<Rightarrow>
             send_simple_error 400 ''Bad Request'' ''Duplicate Content-Length headers.'' (app_debug app) c
               (warn ''duplicate Content-Length'')
         | MNET_PARSE_HEADERS_TOO_LARGE \<Rightarrow>
             send_simple_error 431 ''Request Header Fields Too Large''
               ''Request headers exceed the maximum size.'' (app_debug app) c
               (warn ''header count or line length exceeds the limit'')
         | MNET_PARSE_UNSUPPORTED_TRANSFER_ENCODING \<Rightarrow>
             send_simple_error 501 ''Not Implemented'' ''Transfer-Encoding is not supported.'' (app_debug app) c
               (warn ''Transfer-Encoding not supported'')
         | _ \<Rightarrow>
             send_simple_error 400 ''Bad Request'' ''The request could not be parsed.'' (app_debug app) c
               (warn ''could not parse the request line''))"

text \<open>
  The blocks of a parsed request that are passed to \<open>free\<close> when it is finished with: the strings
  of its arrays, and its body if that was allocated.
\<close>

definition release_parsed :: "parsed_request \<Rightarrow> bytes list" where
  "release_parsed parsed =
     snd (free_extras (p_extras parsed)) @
     (if p_body_heap parsed then (case p_body parsed of Some b \<Rightarrow> [b] | None \<Rightarrow> []) else [])"

text \<open>
  Dispatching a parsed request, writing its response and releasing the response, the captured
  values and the request. The last result lists the blocks passed to \<open>free\<close> (the captured values
  are accounted for in their slots).
\<close>

definition answer ::
  "environment \<Rightarrow> 'w mnet_app \<Rightarrow> parsed_request \<Rightarrow> conn \<Rightarrow> 'w host \<Rightarrow> (conn \<times> 'w host \<times> bytes list) option" where
  "answer env app parsed c h =
     (case dispatch env app parsed (replicate MNET_MAX_PARAMS Null) MNET_MAX_PARAMS h of
        None \<Rightarrow> None
      | Some (resp, vals, count, h1) \<Rightarrow>
          let (c2, h2, fr) =
            (if r_status resp = 0 \<and> app_not_found_handler app = None then
               let (c', h') = send_not_found (p_path_only parsed) (app_debug app) (p_keep_alive parsed) c h1
               in (c', h', [])
             else
               let h' = log_stderr (app_debug app)
                     (''[mnet] '' @ show_int (r_status resp) @ '' '' @ p_method parsed @ '' '' @ p_path_only parsed) h1;
                   (c', al) = send_response resp (p_method_enum parsed = Some MNET_HTTP_HEAD)
                     (p_keep_alive parsed) c (h_alloc h')
               in (c', h'\<lparr>h_alloc := al\<rparr>,
                   (case snd (mnet_response_free (Some resp)) of Some b \<Rightarrow> [b] | None \<Rightarrow> [])))
          in (case mnet_match_params_free vals count of
                None \<Rightarrow> None
              | Some _ \<Rightarrow> Some (c2, h2, fr @ release_parsed parsed)))"

text \<open>What stays in the buffer for the next request of a kept-alive connection.\<close>

definition next_buffer :: "bytes \<Rightarrow> bytes" where
  "next_buffer buf =
     (case end_of_headers (c_string buf) of
        None \<Rightarrow> []
      | Some (i, sep) \<Rightarrow>
          if i + sep < length buf \<and> strstr (c_string (drop (i + sep) buf)) CRLF2 \<noteq> None
          then drop (i + sep) buf else [])"

text \<open>
  One turn of the loop ends it or goes on with a buffer; the list has the blocks passed to
  \<open>free\<close> in the turn.
\<close>

datatype 'w outcome =
    Stop conn "'w host" "bytes list"
  | Again bytes conn "'w host" "bytes list"

definition handle_one ::
  "environment \<Rightarrow> 'w mnet_app \<Rightarrow> bool \<Rightarrow> bytes \<Rightarrow> conn \<Rightarrow> 'w host \<Rightarrow> 'w outcome option" where
  "handle_one env app keep_alive buf c h =
     (case request_timeout app keep_alive of
        None \<Rightarrow> None
      | Some timeout_ms \<Rightarrow>
          (case read_request timeout_ms buf c of
             (False, buf1, c1) \<Rightarrow>
               if length buf1 \<ge> buffer_room then
                 let (c2, h2) = reject_headers app c1 h
                 in Some (Stop c2 h2 [])
               else Some (Stop c1 h [])
           | (True, buf1, c1) \<Rightarrow>
               let max_body = (if app_max_body_size app > 0 then app_max_body_size app else MNET_MAX_BODY_SIZE)
               in (case parse_request buf1 max_body timeout_ms c1 (h_alloc h) of
                     None \<Rightarrow> None
                   | Some ((st, parsed), c2, al) \<Rightarrow>
                       let h1 = h\<lparr>h_alloc := al\<rparr>
                       in if st \<noteq> MNET_PARSE_OK then
                            let (c3, h3) = reject app st parsed c2 h1 in Some (Stop c3 h3 (release_parsed parsed))
                          else
                            (case answer env app parsed c2 h1 of
                               None \<Rightarrow> None
                             | Some (c3, h3, fr) \<Rightarrow>
                                 if p_keep_alive parsed then Some (Again (next_buffer buf1) c3 h3 fr)
                                 else Some (Stop c3 h3 fr)))))"

section \<open>Reading a request\<close>

text \<open>
  What reading the header block leaves: nothing is sent, the deadline is kept, no byte is lost or
  made up, the buffer does not overflow, and a request that is reported is there.
\<close>

definition read_ok :: "int \<Rightarrow> bytes \<Rightarrow> conn \<Rightarrow> bool \<Rightarrow> bytes \<Rightarrow> conn \<Rightarrow> bool" where
  "read_ok deadline buf c found buf' c' \<longleftrightarrow>
     c_sent c' = c_sent c \<and> c_clock c \<le> c_clock c' \<and> c_clock c' \<le> max (c_clock c) deadline \<and>
     length buf' + inbox_bytes c' = length buf + inbox_bytes c \<and> length buf' \<le> max (length buf) buffer_room \<and>
     (found \<longrightarrow> complete buf' \<and> buf' \<noteq> [] \<and> buf @ stream c = buf' @ stream c')"

lemma recv_facts:
  "mnet_recv room c = (x, c') \<Longrightarrow> c_sent c' = c_sent c \<and> c_clock c' = c_clock c"
  using mnet_recv_None mnet_recv_facts(1,2) by (cases x) blast+

lemma recv_bytes_all: "mnet_recv room c = (x, c') \<Longrightarrow> inbox_bytes c = (case x of Some xs \<Rightarrow> length xs | None \<Rightarrow> 0) + inbox_bytes c'"
  using recv_bytes mnet_recv_None by (cases x) fastforce+

lemma header_loop_ok:
  "header_loop deadline buf c = (found, buf', c') \<Longrightarrow> read_ok deadline buf c found buf' c'"
proof (induction deadline buf c rule: header_loop.induct)
  case (1 deadline buf c)
  note U = 1(2) [unfolded header_loop.simps [of deadline buf c] Let_def]
  show ?case
  proof (cases "length buf < buffer_room \<and> \<not> deadline - c_clock c \<le> 0")
    case False
    with U show ?thesis by (auto simp: read_ok_def split: if_splits)
  next
    case True
    let ?left = "deadline - c_clock c" and ?room = "buffer_room - length buf"
    obtain pr c1 where P: "mnet_poll ?left c = (pr, c1)" by fastforce
    obtain x c2 where R: "mnet_recv ?room c1 = (x, c2)" by fastforce
    have p: "stream c1 = stream c" "c_sent c1 = c_sent c" "c_clock c \<le> c_clock c1" "c_clock c1 \<le> deadline"
      "inbox_bytes c1 = inbox_bytes c"
      using mnet_poll_facts [OF P] poll_bytes [OF P] True by auto
    note r = recv_facts [OF R] recv_bytes_all [OF R]
    consider (poll) "pr \<le> 0" | (recv) "\<not> pr \<le> 0" "x = None \<or> x = Some []"
      | (data) xs where "\<not> pr \<le> 0" "x = Some xs" "xs \<noteq> []" by (cases x) auto
    then show ?thesis
    proof cases
      case poll
      then have "(found, buf', c') = (False, buf, c1)" using U True P by simp
      with p show ?thesis by (simp add: read_ok_def)
    next
      case recv
      then have "(found, buf', c') = (False, buf, c2)" using U True P R by auto
      with p r recv(2) show ?thesis by (auto simp: read_ok_def)
    next
      case (data xs)
      have x: "length xs \<le> ?room" "stream c1 = xs @ stream c2"
        using mnet_recv_facts(3,4) [OF R [unfolded data(2)]] data(3) by auto
      show ?thesis
      proof (cases "complete (buf @ xs)")
        case full: True
        then have "(found, buf', c') = (True, buf @ xs, c2)" using U True P R data by simp
        with p r x data full True show ?thesis by (auto simp: read_ok_def)
      next
        case False
        then have "header_loop deadline (buf @ xs) c2 = (found, buf', c')" using U True P R data by simp
        then have "read_ok deadline (buf @ xs) c2 found buf' c'"
          using 1(1) [OF _ refl _ P [symmetric] _ R [symmetric] data(2,3) False] True data(1) by simp
        with p r x data True show ?thesis by (auto simp: read_ok_def)
      qed
    qed
  qed
qed

lemma read_request_ok:
  assumes "read_request timeout_ms buf c = (found, buf', c')"
  shows "read_ok (c_clock c + timeout_ms) buf c found buf' c'"
proof (cases "buf \<noteq> [] \<and> complete buf")
  case True
  with assms show ?thesis by (auto simp: read_request_def read_ok_def)
next
  case False
  then have "header_loop (c_clock c + timeout_ms) buf c = (found, buf', c')"
    using assms by (simp add: read_request_def split: if_splits)
  then show ?thesis by (rule header_loop_ok)
qed

section \<open>One turn\<close>

text \<open>Writing an answer takes no time in the model and reads nothing.\<close>

definition only_sends :: "conn \<Rightarrow> conn \<Rightarrow> bool" where
  "only_sends c c' \<longleftrightarrow> c_clock c' = c_clock c \<and> c_inbox c' = c_inbox c \<and> prefix (c_sent c) (c_sent c')"

lemma only_sends_send: "only_sends c c1 \<Longrightarrow> only_sends c (mnet_send b c1)"
  by (auto simp: only_sends_def intro: prefix_order.trans)

lemma only_sends_refl [simp]: "only_sends c c"
  by (simp add: only_sends_def)

lemma send_response_only_sends: "only_sends c (fst (send_response r head keep c al))"
  by (auto simp: send_response_def Let_def intro!: only_sends_send split: prod.splits option.splits bool.splits)

lemma writers_only_send:
  "only_sends c (fst (send_simple_error st text msg dbg c h))"
  "only_sends c (fst (send_not_found path dbg keep c h))"
  "only_sends c (fst (send_method_not_allowed meth dbg keep c h))"
  by (auto simp: send_simple_error_def send_not_found_def send_method_not_allowed_def
      fixed_page_def Let_def intro!: only_sends_send split: prod.splits)

lemma reject_headers_only_sends: "only_sends c (fst (reject_headers app c h))"
  unfolding reject_headers_def by (rule writers_only_send(1))

lemma reject_only_sends: "only_sends c (fst (reject app st parsed c h))"
  by (cases st) (simp_all add: reject_def Let_def writers_only_send(1,3))

lemma answer_only_sends:
  assumes "answer env app parsed c h = Some (c', h', fr)"
  shows "only_sends c c'"
proof -
  obtain resp vals n h1 where d: "dispatch env app parsed (replicate 16 Null) 16 h = Some (resp, vals, n, h1)"
    using assms by (auto simp: answer_def split: option.splits)
  have "only_sends c c1" if "send_not_found p dbg keep c h1 = (c1, h2)" for p dbg keep c1 h2
    using writers_only_send(2) [of c p dbg keep h1] that by simp
  moreover have "only_sends c c1" if "send_response resp head keep c al = (c1, al')" for head keep al c1 al'
    using send_response_only_sends [of c resp head keep al] that by simp
  ultimately show ?thesis using assms d
    by (auto simp: answer_def Let_def split: if_splits option.splits prod.splits)
qed

lemma answer_defined:
  assumes "wf_app app" "routes_fit app" "p_method_enum parsed = Some me"
  shows "answer env app parsed c h \<noteq> None"
  using dispatch_freed [OF assms, of env h] by (auto simp: answer_def Let_def split: prod.splits option.splits)

lemma end_of_headers_sep: "end_of_headers s = Some (i, sep) \<Longrightarrow> 2 \<le> sep"
  by (auto simp: end_of_headers_def split: option.splits)

lemma next_buffer_shorter: "buf \<noteq> [] \<Longrightarrow> length (next_buffer buf) < length buf"
  using end_of_headers_sep by (fastforce simp: next_buffer_def split: option.splits)

lemma request_timeout_pos: "request_timeout app keep = Some t \<Longrightarrow> 0 < t"
  by (auto simp: request_timeout_def Let_def split: if_splits)

text \<open>What a turn leaves, whether the connection goes on or not.\<close>

definition turn_ok :: "int \<Rightarrow> bytes \<Rightarrow> conn \<Rightarrow> 'w outcome \<Rightarrow> bool" where
  "turn_ok t buf c out \<longleftrightarrow>
     (case out of
        Stop c' h' fr \<Rightarrow> prefix (c_sent c) (c_sent c') \<and> c_clock c \<le> c_clock c' \<and> c_clock c' \<le> c_clock c + 2 * t
      | Again buf' c' h' fr \<Rightarrow>
          prefix (c_sent c) (c_sent c') \<and> c_clock c \<le> c_clock c' \<and> c_clock c' \<le> c_clock c + 2 * t \<and>
          length buf' + inbox_bytes c' < length buf + inbox_bytes c \<and> length buf' \<le> max (length buf) buffer_room)"

lemma handle_one_turn:
  assumes "handle_one env app keep buf c h = Some out" "request_timeout app keep = Some t"
  shows "turn_ok t buf c out"
proof -
  have t: "0 < t" using request_timeout_pos [OF assms(2)] .
  obtain found buf1 c1 where R: "read_request t buf c = (found, buf1, c1)" by (metis surj_pair)
  note r = read_request_ok [OF R, unfolded read_ok_def]
  show ?thesis
  proof (cases found)
    case False
    obtain c2 h2 where "reject_headers app c1 h = (c2, h2)" by fastforce
    with False have "\<exists>c' h'. out = Stop c' h' [] \<and> only_sends c1 c'"
      using assms R reject_headers_only_sends [of c1 app h] by (auto simp: handle_one_def Let_def split: if_splits)
    with r t show ?thesis by (auto simp: turn_ok_def only_sends_def)
  next
    case True
    let ?mx = "if app_max_body_size app > 0 then app_max_body_size app else MNET_MAX_BODY_SIZE"
    obtain st parsed c2 al where P: "parse_request buf1 ?mx t c1 (h_alloc h) = Some ((st, parsed), c2, al)"
      "c_sent c2 = c_sent c1" "c_clock c1 \<le> c_clock c2" "c_clock c2 \<le> c_clock c1 + t" "inbox_bytes c2 \<le> inbox_bytes c1"
      using parse_request_outcome [of t buf1 ?mx c1 "h_alloc h"] t by auto
    let ?h = "h\<lparr>h_alloc := al\<rparr>"
    note H = assms(1) [unfolded handle_one_def Let_def assms(2) R option.case prod.case bool.case P(1)]
    show ?thesis
    proof (cases "st = MNET_PARSE_OK")
      case False
      obtain c3 h3 where j: "reject app st parsed c2 ?h = (c3, h3)" by fastforce
      then have "only_sends c2 c3" using reject_only_sends [of c2 app st parsed ?h] by simp
      moreover have "out = Stop c3 h3 (release_parsed parsed)" using H True False j by simp
      ultimately show ?thesis using r P t True by (auto simp: turn_ok_def only_sends_def)
    next
      case ok: True
      obtain c3 h3 fr where a: "answer env app parsed c2 ?h = Some (c3, h3, fr)"
        using H True ok by (auto split: option.splits)
      then have s: "only_sends c2 c3" by (rule answer_only_sends)
      have "out = Stop c3 h3 fr \<or> out = Again (next_buffer buf1) c3 h3 fr" using H True ok a by (auto split: if_splits)
      with s r P t True next_buffer_shorter [of buf1] show ?thesis
        by (auto simp: turn_ok_def only_sends_def inbox_bytes_def)
    qed
  qed
qed

text \<open>
  The application is ready to serve: its routes are well formed and ask for at most sixteen
  captures, and its timeouts in milliseconds fit an \<open>int\<close>.
\<close>

definition app_ready :: "'w mnet_app \<Rightarrow> bool" where
  "app_ready app \<longleftrightarrow> wf_app app \<and> routes_fit app \<and> (\<forall>keep. request_timeout app keep \<noteq> None)"

lemma handle_one_defined:
  assumes "app_ready app"
  shows "handle_one env app keep buf c h \<noteq> None"
proof -
  obtain t where t: "request_timeout app keep = Some t" "0 < t"
    using assms request_timeout_pos by (fastforce simp: app_ready_def)
  obtain found buf1 c1 where R: "read_request t buf c = (found, buf1, c1)" by (metis surj_pair)
  let ?mx = "if app_max_body_size app > 0 then app_max_body_size app else MNET_MAX_BODY_SIZE"
  obtain st parsed c2 al where P: "parse_request buf1 ?mx t c1 (h_alloc h) = Some ((st, parsed), c2, al)"
    "st = MNET_PARSE_OK \<longrightarrow> parsed_ok parsed"
    using parse_request_outcome [of t buf1 ?mx c1 "h_alloc h"] t by auto
  have "st = MNET_PARSE_OK \<Longrightarrow> answer env app parsed c2 (h\<lparr>h_alloc := al\<rparr>) \<noteq> None"
    using P(2) assms answer_defined by (fastforce simp: parsed_ok_def app_ready_def)
  then show ?thesis
    by (cases found)
      (auto simp: handle_one_def Let_def t(1) R P(1) split: prod.splits option.splits if_splits)
qed

section \<open>The whole connection\<close>

text \<open>
  The loop of \<open>mnet_handle_client\<close>. A turn that goes on has used up at least one byte of what the
  peer sends, so the loop ends whatever the peer does. The result lists all blocks freed.
\<close>

function handle_client ::
  "environment \<Rightarrow> 'w mnet_app \<Rightarrow> bool \<Rightarrow> bytes \<Rightarrow> conn \<Rightarrow> 'w host \<Rightarrow> (conn \<times> 'w host \<times> bytes list) option" where
  "handle_client env app keep_alive buf c h =
     (case handle_one env app keep_alive buf c h of
        None \<Rightarrow> None
      | Some (Stop c' h' fr) \<Rightarrow> Some (c', h', fr)
      | Some (Again buf' c' h' fr) \<Rightarrow>
          (case handle_client env app True buf' c' h' of
             None \<Rightarrow> None
           | Some (c2, h2, fr2) \<Rightarrow> Some (c2, h2, fr @ fr2)))"
  by pat_completeness auto
termination
proof (relation "measure (\<lambda>(env, app, keep, buf, c, h). length buf + inbox_bytes c)")
  fix env :: environment and app :: "'w mnet_app" and keep buf c h out buf' c' h' fr
  assume "handle_one env app keep buf c h = Some out" "out = Again buf' c' h' fr"
  moreover from this(1) obtain t where "request_timeout app keep = Some t"
    by (auto simp: handle_one_def split: option.splits)
  ultimately show "((env, app, True, buf', c', h'), (env, app, keep, buf, c, h))
      \<in> measure (\<lambda>(env, app, keep, buf, c, h). length buf + inbox_bytes c)"
    using handle_one_turn by (fastforce simp: turn_ok_def)
qed simp

declare handle_client.simps [simp del]

definition mnet_handle_client ::
  "environment \<Rightarrow> 'w mnet_app \<Rightarrow> conn \<Rightarrow> 'w host \<Rightarrow> (conn \<times> 'w host \<times> bytes list) option" where
  "mnet_handle_client env app c h = handle_client env app False [] c h"

end
