(* ===== verification/Serving.thy ===== *)
theory Serving
  imports Server
begin

text \<open>
  What a client of the server sees, from the first byte it sends to the last byte it gets: every
  connection ends (\<open>handle_client_ends\<close>), no peer can hold it longer than its timeouts allow
  (\<open>handle_one_bounded\<close>), a request written as HTTP prescribes and delivered in any number of
  pieces gets the response of the handler of its route (\<open>handle_client_serves\<close>), and requests
  sent in one go are answered in their order (\<open>pipelining_in_order\<close>).
\<close>

section \<open>Every connection ends\<close>

lemma handle_client_outcome:
  assumes "app_ready app" "\<forall>keep t. request_timeout app keep = Some t \<longrightarrow> t \<le> T"
  shows "\<exists>c' h' fr. handle_client env app keep buf c h = Some (c', h', fr) \<and> prefix (c_sent c) (c_sent c') \<and>
    c_clock c \<le> c_clock c' \<and> c_clock c' \<le> c_clock c + 2 * T * (1 + int (length buf + inbox_bytes c))"
  using assms
proof (induction env app keep buf c h rule: handle_client.induct)
  case (1 env app keep buf c h)
  note U = handle_client.simps [of env app keep buf c h]
  obtain out where o: "handle_one env app keep buf c h = Some out"
    using handle_one_defined [OF 1(2), of env keep buf c h] by blast
  obtain t where t: "request_timeout app keep = Some t" "0 < t" "t \<le> T"
    using 1(2,3) request_timeout_pos by (fastforce simp: app_ready_def)
  note k = handle_one_turn [OF o t(1)]
  show ?case
  proof (cases out)
    case (Stop c' h' fr)
    have "2 * T * 1 \<le> 2 * T * (1 + int (length buf + inbox_bytes c))"
      using t by (intro mult_left_mono) auto
    with Stop k t(3) show ?thesis by (simp add: U o turn_ok_def)
  next
    case (Again buf' c' h' fr)
    obtain c2 h2 fr2 where r: "handle_client env app True buf' c' h' = Some (c2, h2, fr2)"
      "prefix (c_sent c') (c_sent c2)" "c_clock c' \<le> c_clock c2"
      "c_clock c2 \<le> c_clock c' + 2 * T * (1 + int (length buf' + inbox_bytes c'))"
      using 1(1) [OF o Again 1(2,3)] by blast
    have "2 * T * (1 + int (length buf' + inbox_bytes c')) + 2 * T \<le> 2 * T * (1 + int (length buf + inbox_bytes c))"
    proof -
      have "2 * T * (2 + int (length buf' + inbox_bytes c')) \<le> 2 * T * (1 + int (length buf + inbox_bytes c))"
        using t k Again by (intro mult_left_mono) (auto simp: turn_ok_def)
      then show ?thesis by (simp add: algebra_simps)
    qed
    with Again k r t(3) show ?thesis by (auto simp: U o turn_ok_def intro: prefix_order.trans)
  qed
qed


lemma sample_app_timeout: "request_timeout sample_app keep = Some 30000"
  by (simp add: request_timeout_def sample_app_def zero_app_def c_int_def)

lemma sample_app_ready: "app_ready sample_app"
  using sample_app_ok by (simp add: app_ready_def sample_app_timeout)




section \<open>A request that arrives in pieces\<close>

text \<open>No blank line stands inside a header block, in either of the two forms the server looks for.\<close>

lemma strstr_LF2_step: "x \<noteq> LF \<Longrightarrow> strstr (LF # x # r) LF2 = map_option Suc (strstr (x # r) LF2)"
  by simp

lemma strstr_LF2_block:
  "ls \<noteq> [] \<Longrightarrow> \<forall>l\<in>set ls. plain_line l \<Longrightarrow> strstr (join_lines ls @ CRLF2) LF2 = None"
proof (induction ls rule: join_lines.induct)
  case (2 l)
  then have "LF \<notin> set (l @ [CR])" by (auto simp: plain_line_def)
  from strstr_skip [OF this, of "[LF, CR, LF]" "[LF]"] show ?case by simp
next
  case (3 l m ls)
  then have "LF \<notin> set (l @ [CR])" by (auto simp: plain_line_def)
  moreover obtain x r where x: "join_lines (m # ls) @ CRLF2 = x # r" "x \<noteq> LF"
    using 3(3) by (cases ls; cases m) (auto simp: plain_line_def)
  ultimately show ?case
    using strstr_skip [of LF "l @ [CR]" "LF # x # r" "[LF]"] 3 by (simp add: strstr_LF2_step)
qed simp

lemma strstr_prefix_None: "strstr s n = None \<Longrightarrow> prefix p s \<Longrightarrow> strstr p n = None"
  using strstr_None_iff prefix_imp_sublist sublist_order.order.trans by blast

lemma strstr_early:
  assumes "strstr (b @ n) n = Some (length b)" "prefix p (b @ n)" "length p < length (b @ n)"
  shows "strstr p n = None"
proof (cases "strstr p n")
  case (Some i)
  then have i: "i + length n \<le> length p" "prefix n (drop i p)" by (rule strstr_bound, rule strstr_prefix)
  from assms(2) obtain q where "b @ n = p @ q" by (auto simp: prefix_def)
  with i have "prefix n (drop i (b @ n))" by (simp add: prefix_prefix)
  with strstr_least [OF assms(1), of i] i(1) assms(3) show ?thesis by auto
qed

lemma complete_block:
  assumes "rendered m me target hs body"
  shows "prefix p (block m target hs @ CRLF2 @ q) \<Longrightarrow> complete p \<longleftrightarrow> length (block m target hs @ CRLF2) \<le> length p"
proof -
  let ?b = "block m target hs"
  note L = rendered_lines [OF assms]
  assume p: "prefix p (?b @ CRLF2 @ q)"
  show ?thesis
  proof (cases "length (?b @ CRLF2) \<le> length p")
    case True
    then have "prefix (?b @ CRLF2) p"
      using p prefix_length_prefix [of "?b @ CRLF2" "(?b @ CRLF2) @ q" p] by simp
    then obtain r where "p = ?b @ CRLF2 @ r" by (auto simp: prefix_def)
    then have "c_string p = ?b @ CRLF2 @ c_string r" using rendered_text(1) [OF assms] by simp
    moreover have "strstr (?b @ CRLF2 @ c_string r) CRLF2 = Some (length ?b)"
      using strstr_block [OF _ L] by (simp add: block_def)
    ultimately show ?thesis using True by (simp add: complete_def)
  next
    case False
    then have p': "prefix p (?b @ CRLF2)"
      using p prefix_length_prefix [of p "(?b @ CRLF2) @ q" "?b @ CRLF2"] by simp
    have "NUL \<notin> set (?b @ CRLF2)" using join_lines_no_NUL [OF L] by (simp add: block_def)
    with set_mono_prefix [OF p'] have "c_string p = p" by (intro c_string_id) blast
    moreover have "strstr (?b @ CRLF2) CRLF2 = Some (length ?b)"
      using strstr_block [OF _ L, of "[]"] by (simp add: block_def)
    then have "strstr p CRLF2 = None" using False p' by (intro strstr_early) auto
    moreover have "strstr p LF2 = None"
      using strstr_LF2_block [OF list.distinct(2) L, folded block_def] p' by (rule strstr_prefix_None)
    ultimately show ?thesis using False by (simp add: complete_def)
  qed
qed

lemma header_loop_arrives:
  assumes "rendered m me target hs body" "length (block m target hs @ CRLF2) \<le> buffer_room"
  shows "buf @ stream c = block m target hs @ CRLF2 @ q \<Longrightarrow> length buf < length (block m target hs @ CRLF2) \<Longrightarrow>
    data_only (c_inbox c) \<Longrightarrow> c_clock c + int (total_delay (c_inbox c)) < deadline \<Longrightarrow>
    \<exists>pre c'. header_loop deadline buf c = (True, block m target hs @ CRLF2 @ pre, c') \<and>
      data_only (c_inbox c') \<and> total_delay (c_inbox c') \<le> total_delay (c_inbox c)"
proof (induction deadline buf c rule: header_loop.induct)
  case (1 deadline buf c)
  let ?n = "length (block m target hs @ CRLF2)"
  have room: "length buf < buffer_room" and left: "0 < deadline - c_clock c" using 1(3,5) assms(2) by auto
  have "stream c \<noteq> []"
  proof
    assume "stream c = []"
    with 1(2) have "length buf = length (block m target hs @ CRLF2 @ q)" by simp
    with 1(3) show False by simp
  qed
  then obtain c1 where P: "mnet_poll (deadline - c_clock c) c = (1, c1)" "data_only (c_inbox c1)" "c_inbox c1 \<noteq> []"
    "c_clock c1 + int (total_delay (c_inbox c1)) = c_clock c + int (total_delay (c_inbox c))" "stream c1 = stream c"
    using mnet_poll_data [OF 1(4), of "deadline - c_clock c"] 1(5) by auto
  obtain xs c2 where R: "mnet_recv (buffer_room - length buf) c1 = (Some xs, c2)" "xs \<noteq> []" "data_only (c_inbox c2)"
    "total_delay (c_inbox c2) \<le> total_delay (c_inbox c1)" "c_clock c2 = c_clock c1" "stream c1 = xs @ stream c2"
    using mnet_recv_data [OF P(2,3), of "buffer_room - length buf"] room by auto
  have d: "total_delay (c_inbox c1) \<le> total_delay (c_inbox c)"
    using P(4) mnet_poll_facts(3) [OF P(1)] left by simp
  have eq: "(buf @ xs) @ stream c2 = block m target hs @ CRLF2 @ q" using 1(2) P(5) R(6) by simp
  then have "prefix (buf @ xs) (block m target hs @ CRLF2 @ q)" by (metis prefixI)
  note full = complete_block [OF assms(1) this]
  have U: "header_loop deadline buf c =
      (if complete (buf @ xs) then (True, buf @ xs, c2) else header_loop deadline (buf @ xs) c2)"
    using room left P(1) R(1,2) by (simp add: header_loop.simps [of deadline buf c])
  show ?case
  proof (cases "complete (buf @ xs)")
    case True
    then have "prefix (block m target hs @ CRLF2) (buf @ xs)"
      using full prefix_length_prefix [of "block m target hs @ CRLF2" "(buf @ xs) @ stream c2" "buf @ xs"] eq by simp
    then obtain pre where "buf @ xs = block m target hs @ CRLF2 @ pre" by (auto simp: prefix_def)
    with True U R(3,4) d show ?thesis by auto
  next
    case False
    then have "\<exists>pre c'. header_loop deadline (buf @ xs) c2 = (True, block m target hs @ CRLF2 @ pre, c') \<and>
        data_only (c_inbox c') \<and> total_delay (c_inbox c') \<le> total_delay (c_inbox c2)"
      using 1(1) [OF _ refl _ P(1) [symmetric] _ R(1) [symmetric] refl R(2) False] room left full eq R P 1(5) by simp
    with False U R(4) d show ?thesis by auto
  qed
qed

section \<open>The answer to a request\<close>

text \<open>The path of a target, and whether a request asks for the connection to be kept.\<close>

definition path_part :: "string \<Rightarrow> string" where
  "path_part target = takeWhile (\<lambda>c. c \<noteq> CHR ''?'') target"

definition persistent :: "(string \<times> string) list \<Rightarrow> bool" where
  "persistent hs \<longleftrightarrow> (\<exists>(h, v)\<in>set hs. strcaseeq h ''Connection'' \<and> strcaseeq v ''keep-alive'')"

definition max_body :: "'w mnet_app \<Rightarrow> size_t" where
  "max_body app = (if app_max_body_size app > 0 then app_max_body_size app else MNET_MAX_BODY_SIZE)"

text \<open>What the handler of route \<open>r\<close> is given: the request as it was written, and the captured values.\<close>

definition carries ::
  "'w mnet_route \<Rightarrow> string \<Rightarrow> string \<Rightarrow> (string \<times> string) list \<Rightarrow> bytes \<Rightarrow> mnet_request \<Rightarrow> bool" where
  "carries r m target hs body req \<longleftrightarrow>
     wf_request req \<and> rq_method req = m \<and> rq_path req = path_part target \<and>
     rq_body req = Some body \<and> rq_body_length req = length body \<and>
     pairs_of (rq_header_names req) (rq_header_values req) (rq_header_count req) = hs \<and>
     pairs_of (rq_query_names req) (rq_query_values req) (rq_query_count req) = query_of target \<and>
     (\<exists>vs vals. route_result (path_part target) r = Some vs \<and> rq_path_param_names req = rt_param_names r \<and>
        rq_path_param_count req = length vs \<and> rq_path_param_values req = Some vals \<and>
        take (length vs) vals = map Val vs)"

text \<open>The bytes of a response on the wire.\<close>

definition reply :: "mnet_response \<Rightarrow> mnet_http_method \<Rightarrow> bool \<Rightarrow> bytes" where
  "reply resp me keep =
     message (response_lines resp keep)
       (if me = MNET_HTTP_HEAD then [] else if r_chunked resp then chunked_text (body_of resp) else body_of resp)"

text \<open>
  A handler that answers every well-formed request with a response that can be sent, and leaves
  the allocator as it is. (The server sends the 404 page for a response with status 0.)
\<close>

definition answers :: "'w mnet_app \<Rightarrow> 'w mnet_route \<Rightarrow> bool" where
  "answers app r \<longleftrightarrow>
     (\<forall>req h. wf_request req \<and> h_alloc h = [] \<longrightarrow>
        (let (resp, h') = call_handler app r req h
         in h_alloc h' = [] \<and> r_status resp \<noteq> 0 \<and> (\<forall>keep. sendable resp keep)))"

lemma path_part_eq: "target = p @ (case q of None \<Rightarrow> [] | Some t \<Rightarrow> CHR ''?'' # t) \<Longrightarrow> CHR ''?'' \<notin> set p \<Longrightarrow> path_part target = p"
  by (cases q) (auto simp: path_part_def intro!: takeWhile_all takeWhile_stop)

lemma reads_back_path: "reads_back m me target hs body out \<Longrightarrow> p_path_only out = path_part target"
  using path_part_eq by (fastforce simp: reads_back_def)

lemma send_response_ample: "snd (send_response r head keep c []) = []"
  by (simp add: send_response_def Let_def)

lemma log_stderr_alloc [simp]: "h_alloc (log_stderr dbg line h) = h_alloc h" "h_world (log_stderr dbg line h) = h_world h"
  by (simp_all add: log_stderr_def)

lemma answer_serves:
  assumes "app_ready app" "routes_named app" "answers app r" "h_alloc h = []"
    and "reads_back m me target hs body parsed" "wf_extras (p_extras parsed)"
    and "resolve (registered app) me (path_part target) = Some r"
  shows "\<exists>req resp h2 c' h' fr. answer env app parsed c h = Some (c', h', fr) \<and> h_alloc h' = [] \<and>
    carries r m target hs body req \<and> call_handler app r req h = (resp, h2) \<and>
    h_world h' = h_world h2 \<and> sendable resp (persistent hs) \<and> sent_since c c' = reply resp me (persistent hs)"
proof -
  let ?head = "p_method_enum parsed = Some MNET_HTTP_HEAD" and ?keep = "p_keep_alive parsed"
  note R = assms(5) [unfolded reads_back_def] reads_back_path [OF assms(5)]
  have A: "wf_app app" "routes_fit app" using assms(1) by (simp_all add: app_ready_def)
  have me: "p_method_enum parsed = Some me" "False \<notin> set (h_alloc h)"
    "resolve (registered app) me (p_path_only parsed) = Some r" using R assms(4,7) by simp_all
  obtain vs vals al resp h2 where d:
    "call_handler app r (handler_request parsed r (length vs) vals) (h\<lparr>h_alloc := al\<rparr>) = (resp, h2)"
    "dispatch env app parsed (replicate 16 Null) 16 h = Some (resp, vals, length vs, h2)"
    "set al \<subseteq> set (h_alloc h)" "route_result (p_path_only parsed) r = Some vs"
    "take (length vs) vals = map Val vs" "wf_request (handler_request parsed r (length vs) vals)"
    "mnet_match_params_free vals (length vs) \<noteq> None"
    by (rule dispatch_serves [OF A assms(2,6) me, of env])
  let ?req = "handler_request parsed r (length vs) vals"
  have "al = []" using d(3) assms(4) by simp
  then have h: "h\<lparr>h_alloc := al\<rparr> = h" using assms(4) by simp
  have "h_alloc h2 = [] \<and> r_status resp \<noteq> 0 \<and> sendable resp ?keep"
    using assms(3) [unfolded answers_def, rule_format, of ?req h] assms(4) d(1,6) h by simp
  then have H: "h_alloc h2 = []" "r_status resp \<noteq> 0" "sendable resp ?keep" by blast+
  let ?h = "log_stderr (app_debug app)
    (''[mnet] '' @ show_int (r_status resp) @ '' '' @ p_method parsed @ '' '' @ p_path_only parsed) h2"
  obtain c' where s: "send_response resp ?head ?keep c [] = (c', [])"
    using send_response_ample [of resp ?head ?keep c] by (metis prod.collapse)
  obtain vals' where "mnet_match_params_free vals (length vs) = Some vals'" using d(7) by blast
  then have "\<exists>fr. answer env app parsed c h = Some (c', ?h\<lparr>h_alloc := []\<rparr>, fr)"
    using d(2) H(1,2) s by (simp add: answer_def Let_def)
  moreover have "carries r m target hs body ?req" using R d(4-6) by (auto simp: carries_def)
  moreover have "sendable resp (persistent hs)" using H(3) R by (simp add: persistent_def)
  moreover have "sent_since c c' = reply resp me (persistent hs)"
    using send_response_sent [OF H(3), of c ?head] s R by (auto simp: reply_def persistent_def)
  ultimately show ?thesis
    using d(1) h by (intro exI [of _ ?req] exI [of _ resp] exI [of _ h2]
        exI [of _ c'] exI [of _ "?h\<lparr>h_alloc := []\<rparr>"]) simp
qed

lemma read_request_rendered:
  assumes "rendered m me target hs body" "length (block m target hs @ CRLF2) \<le> buffer_room"
    and "buf @ stream c = block m target hs @ CRLF2 @ q" "data_only (c_inbox c)" "int (total_delay (c_inbox c)) < t"
  shows "\<exists>pre c1. read_request t buf c = (True, block m target hs @ CRLF2 @ pre, c1) \<and> pre @ stream c1 = q \<and>
    c_sent c1 = c_sent c \<and> data_only (c_inbox c1) \<and> int (total_delay (c_inbox c1)) < t \<and>
    (length (block m target hs @ CRLF2) \<le> length buf \<longrightarrow> c1 = c)"
proof (cases "length (block m target hs @ CRLF2) \<le> length buf")
  case True
  then have b: "take (length (block m target hs @ CRLF2)) buf = block m target hs @ CRLF2"
    using arg_cong [OF assms(3), of "take (length (block m target hs @ CRLF2))"]
    by (simp del: append_assoc add: append_assoc [symmetric])
  define pre where "pre = drop (length (block m target hs @ CRLF2)) buf"
  have buf: "buf = block m target hs @ CRLF2 @ pre" using b pre_def by (metis append.assoc append_take_drop_id)
  then have "complete buf" "buf \<noteq> []"
    using complete_block [OF assms(1), of buf pre] True by auto
  with buf assms show ?thesis by (auto simp: read_request_def)
next
  case False
  have "prefix buf (block m target hs @ CRLF2 @ q)" using assms(3) by (metis prefixI)
  with False have n: "\<not> complete buf" using complete_block [OF assms(1)] by blast
  obtain pre c1 where h: "header_loop (c_clock c + t) buf c = (True, block m target hs @ CRLF2 @ pre, c1)"
    "data_only (c_inbox c1)" "total_delay (c_inbox c1) \<le> total_delay (c_inbox c)"
    using header_loop_arrives [OF assms(1,2,3) _ assms(4), of "c_clock c + t"] False assms(5) by auto
  with n have R: "read_request t buf c = (True, block m target hs @ CRLF2 @ pre, c1)" by (simp add: read_request_def)
  from read_request_ok [OF R] assms(3) have "pre @ stream c1 = q" "c_sent c1 = c_sent c" by (simp_all add: read_ok_def)
  with R h(2,3) False assms(5) show ?thesis by auto
qed

lemma handle_one_serves:
  assumes "app_ready app" "routes_named app" "answers app r" "h_alloc h = []" "request_timeout app keep = Some t"
    and "rendered m me target hs body" "length (block m target hs @ CRLF2) \<le> buffer_room"
    and "room_for_digit (max_body app)" "length body \<le> unat (max_body app)"
    and "buf @ stream c = request_text m target hs body @ rest" "data_only (c_inbox c)" "int (total_delay (c_inbox c)) < t"
    and "resolve (registered app) me (path_part target) = Some r"
  shows "\<exists>req resp h2 c' h' fr pre. handle_one env app keep buf c h =
      Some (if persistent hs then Again (next_buffer (block m target hs @ CRLF2 @ pre)) c' h' fr else Stop c' h' fr) \<and>
    h_alloc h' = [] \<and> carries r m target hs body req \<and>
    call_handler app r req h = (resp, h2) \<and> h_world h' = h_world h2 \<and> sendable resp (persistent hs) \<and>
    sent_since c c' = reply resp me (persistent hs) \<and> prefix (c_sent c) (c_sent c') \<and>
    (length (block m target hs @ CRLF2) \<le> length buf \<longrightarrow>
       block m target hs @ CRLF2 @ pre = buf \<and> (body = [] \<longrightarrow> c_inbox c' = c_inbox c))"
proof -
  have "buf @ stream c = block m target hs @ CRLF2 @ body @ rest"
    using assms(10) by (simp add: request_text_def block_def)
  from read_request_rendered [OF assms(6,7) this assms(11,12)]
  obtain pre c1 where r: "read_request t buf c = (True, block m target hs @ CRLF2 @ pre, c1)" "pre @ stream c1 = body @ rest"
    "c_sent c1 = c_sent c" "data_only (c_inbox c1)" "int (total_delay (c_inbox c1)) < t"
    "length (block m target hs @ CRLF2) \<le> length buf \<longrightarrow> c1 = c" by blast
  have ar: "arrives pre body rest t c1" using r by (simp add: arrives_def)
  obtain out c2 where p: "parse_request (block m target hs @ CRLF2 @ pre) (max_body app) t c1 [] = Some ((MNET_PARSE_OK, out), c2, [])"
    "reads_back m me target hs body out" "wf_extras (p_extras out)" "c_sent c2 = c_sent c1"
    "if length pre < length body then stream c2 = rest else c2 = c1"
    using parse_rendered [OF assms(6,8,9) ar] by blast
  obtain req resp h2 c' h' fr where a: "answer env app out c2 h = Some (c', h', fr)" "h_alloc h' = []"
    "carries r m target hs body req" "call_handler app r req h = (resp, h2)"
    "h_world h' = h_world h2" "sendable resp (persistent hs)" "sent_since c2 c' = reply resp me (persistent hs)"
    using answer_serves [OF assms(1-4) p(2,3) assms(13), of env c2] by blast
  have k: "p_keep_alive out = persistent hs" using p(2) by (simp add: reads_back_def persistent_def)
  have h: "h\<lparr>h_alloc := []\<rparr> = h" using assms(4) by simp
  have H: "handle_one env app keep buf c h =
      Some (if persistent hs then Again (next_buffer (block m target hs @ CRLF2 @ pre)) c' h' fr else Stop c' h' fr)"
    using p(1) a(1) k
    unfolding handle_one_def assms(5) option.case r(1) prod.case bool.case max_body_def [symmetric] Let_def assms(4)
    by (simp add: h)
  have "body = [] \<Longrightarrow> c2 = c1" using p(5) by simp
  moreover have "length (block m target hs @ CRLF2) \<le> length buf \<Longrightarrow> block m target hs @ CRLF2 @ pre = buf"
    using r(1,6) read_request_ok [OF r(1)] by (simp add: read_ok_def)
  moreover have "sent_since c c' = sent_since c2 c'" using p(4) r(3) by (simp add: sent_since_def)
  moreover have "only_sends c2 c'" using answer_only_sends [OF a(1)] .
  ultimately show ?thesis
    using H a(2-7) r(3,6) p(4)
    by (intro exI [of _ req] exI [of _ resp] exI [of _ h2] exI [of _ c'] exI [of _ h'] exI [of _ fr] exI [of _ pre])
      (auto simp: only_sends_def)
qed

text \<open>A request that the application can take and has a route for.\<close>

definition acceptable ::
  "'w mnet_app \<Rightarrow> string \<Rightarrow> mnet_http_method \<Rightarrow> string \<Rightarrow> (string \<times> string) list \<Rightarrow> bytes \<Rightarrow> 'w mnet_route \<Rightarrow> bool" where
  "acceptable app m me target hs body r \<longleftrightarrow>
     rendered m me target hs body \<and> length (block m target hs @ CRLF2) \<le> 8191 \<and>
     room_for_digit (max_body app) \<and> length body \<le> unat (max_body app) \<and>
     resolve (registered app) me (path_part target) = Some r \<and> answers app r"

lemma handle_client_reply:
  assumes "app_ready app" "routes_named app" "h_alloc h = []" "acceptable app m me target hs body r" "\<not> persistent hs"
    and "stream c = request_text m target hs body @ rest" "data_only (c_inbox c)"
    and "request_timeout app False = Some t" "int (total_delay (c_inbox c)) < t"
  shows "\<exists>req resp h2 c' h' fr. mnet_handle_client env app c h = Some (c', h', fr) \<and>
    carries r m target hs body req \<and> call_handler app r req h = (resp, h2) \<and>
    h_world h' = h_world h2 \<and> sendable resp False \<and> sent_since c c' = reply resp me False"
proof -
  note A = assms(4) [unfolded acceptable_def]
  have "[] @ stream c = request_text m target hs body @ rest" using assms(6) by simp
  then obtain req resp h2 c' h' fr where o: "handle_one env app False [] c h = Some (Stop c' h' fr)"
    "carries r m target hs body req" "call_handler app r req h = (resp, h2)"
    "h_world h' = h_world h2" "sendable resp False" "sent_since c c' = reply resp me False"
    using handle_one_serves [OF assms(1,2) _ assms(3,8) _ _ _ _ _ assms(7,9), of r m me target hs body "[]" rest env] A assms(5)
    by auto
  then show ?thesis by (auto simp: mnet_handle_client_def handle_client.simps)
qed


section \<open>Requests sent in one go\<close>

text \<open>A request without a body, with the route that serves it.\<close>

type_synonym 'w pipelined = "string \<times> mnet_http_method \<times> string \<times> (string \<times> string) list \<times> 'w mnet_route"

fun text_of :: "'w pipelined \<Rightarrow> bytes" where
  "text_of (m, me, target, hs, r) = request_text m target hs []"

fun served :: "'w mnet_app \<Rightarrow> 'w pipelined \<Rightarrow> mnet_response \<Rightarrow> bool" where
  "served app (m, me, target, hs, r) resp \<longleftrightarrow>
     (\<exists>req h1 h2. carries r m target hs [] req \<and> call_handler app r req h1 = (resp, h2))"

fun reply_to :: "'w pipelined \<Rightarrow> mnet_response \<Rightarrow> bytes" where
  "reply_to (m, me, target, hs, r) resp = reply resp me (persistent hs)"

text \<open>All of them acceptable, and every one but the last asks to keep the connection.\<close>

fun pipeline_ok :: "'w mnet_app \<Rightarrow> 'w pipelined list \<Rightarrow> bool" where
  "pipeline_ok app [] \<longleftrightarrow> False"
| "pipeline_ok app ((m, me, target, hs, r) # qs) \<longleftrightarrow>
     acceptable app m me target hs [] r \<and> (if qs = [] then \<not> persistent hs else persistent hs \<and> pipeline_ok app qs)"

lemma next_buffer_pipelined:
  assumes "rendered m me target hs body" "rendered m' me' target' hs' body'"
  shows "next_buffer (block m target hs @ CRLF2 @ block m' target' hs' @ CRLF2 @ q) = block m' target' hs' @ CRLF2 @ q"
proof -
  let ?pre = "block m' target' hs' @ CRLF2 @ q"
  have "strstr (c_string ?pre) CRLF2 \<noteq> None"
    unfolding rendered_text(1) [OF assms(2)]
    using strstr_block [OF _ rendered_lines [OF assms(2)], of "c_string q"] by (simp add: block_def)
  moreover have "end_of_headers (c_string (block m target hs @ CRLF2 @ ?pre)) = Some (length (block m target hs), 4)"
    unfolding rendered_text(1) [OF assms(1)] by (rule rendered_text(2) [OF assms(1)])
  ultimately show ?thesis by (simp add: next_buffer_def)
qed

lemma pipeline_served:
  assumes "app_ready app" "routes_named app" "pipeline_ok app qs" "h_alloc h = []" "c_inbox c = []"
  shows "\<exists>resps c' h' fr. handle_client env app keep (concat (map text_of qs)) c h = Some (c', h', fr) \<and>
    list_all2 (served app) qs resps \<and> prefix (c_sent c) (c_sent c') \<and>
    sent_since c c' = concat (map2 reply_to qs resps)"
  using assms(3-5)
proof (induction qs arbitrary: keep c h)
  case (Cons q qs)
  obtain m me target hs r where q: "q = (m, me, target, hs, r)" by (cases q) auto
  have A: "acceptable app m me target hs [] r" using Cons(2) q by simp
  let ?b = "block m target hs" and ?rest = "concat (map text_of qs)"
  let ?buf = "concat (map text_of (q # qs))"
  have buf: "?buf = ?b @ CRLF2 @ ?rest" by (simp add: q request_text_def block_def)
  obtain t where t: "request_timeout app keep = Some t" "0 < t"
    using assms(1) request_timeout_pos by (fastforce simp: app_ready_def)
  have s: "?buf @ stream c = request_text m target hs [] @ ?rest" using Cons(4) by (simp add: q stream_def)
  obtain req h1 resp h2 c' h' fr pre where o: "handle_one env app keep ?buf c h =
      Some (if persistent hs then Again (next_buffer (?b @ CRLF2 @ pre)) c' h' fr else Stop c' h' fr)"
    "h_alloc h' = []" "carries r m target hs [] req" "call_handler app r req h1 = (resp, h2)"
    "sent_since c c' = reply resp me (persistent hs)" "prefix (c_sent c) (c_sent c')"
    "?b @ CRLF2 @ pre = ?buf" "c_inbox c' = c_inbox c"
    using handle_one_serves [OF assms(1,2) _ Cons(3) t(1) _ _ _ _ s, of r me env] A t(2) Cons(4) buf
    by (auto simp: acceptable_def)
  have sv: "served app q resp" "reply_to q resp = reply resp me (persistent hs)" using o(3,4) q by auto
  show ?case
  proof (cases qs)
    case Nil
    then have "\<not> persistent hs" using Cons(2) q by simp
    then have "handle_client env app keep ?buf c h = Some (c', h', fr)"
      using o(1) by (simp add: handle_client.simps [of env app keep ?buf] del: concat.simps list.map)
    with Nil o(5,6) sv show ?thesis by (intro exI [of _ "[resp]"] exI [of _ c'] exI [of _ h'] exI [of _ fr]) simp
  next
    case (Cons q' qs')
    then have p: "persistent hs" "pipeline_ok app qs" using \<open>pipeline_ok app (q # qs)\<close> q by auto
    obtain m' me' target' hs' r' where q': "q' = (m', me', target', hs', r')" by (cases q') auto
    have "rendered m' me' target' hs' []" using p(2) Cons q' by (simp add: acceptable_def)
    then have nb: "next_buffer ?buf = ?rest"
      using next_buffer_pipelined [of m me target hs "[]" m' me' target' hs' "[]" "concat (map text_of qs')"] A
      by (simp add: buf Cons q q' request_text_def block_def acceptable_def)
    obtain resps c2 h3 fr2 where r: "handle_client env app True ?rest c' h' = Some (c2, h3, fr2)"
      "list_all2 (served app) qs resps" "prefix (c_sent c') (c_sent c2)" "sent_since c' c2 = concat (map2 reply_to qs resps)"
      using Cons.IH p(2) o(2,8) Cons.prems(3) by metis
    have "handle_client env app keep ?buf c h = Some (c2, h3, fr @ fr2)"
      using o(1,7) p(1) nb r(1) by (simp add: handle_client.simps [of env app keep ?buf] del: concat.simps list.map)
    moreover have "sent_since c c2 = sent_since c c' @ sent_since c' c2"
      using o(6) r(3) by (auto simp: sent_since_def prefix_def)
    ultimately show ?thesis
      using o(5,6) r sv by (intro exI [of _ "resp # resps"]) (auto intro: prefix_order.trans)
  qed
qed simp

lemma handle_one_read:
  "request_timeout app keep = Some t \<Longrightarrow> read_request t buf c = read_request t buf' c' \<Longrightarrow>
   handle_one env app keep buf c h = handle_one env app keep buf' c' h"
  by (simp add: handle_one_def)

lemma handle_client_read:
  "request_timeout app keep = Some t \<Longrightarrow> read_request t buf c = read_request t buf' c' \<Longrightarrow>
   handle_client env app keep buf c h = handle_client env app keep buf' c' h"
  using handle_one_read [of app keep t buf c buf' c' env h]
  by (simp add: handle_client.simps [of env app keep buf c] handle_client.simps [of env app keep buf' c'])

lemma pipeline_complete: "pipeline_ok app qs \<Longrightarrow> complete (concat (map text_of qs)) \<and> concat (map text_of qs) \<noteq> []"
proof (cases qs)
  case (Cons q qs')
  assume "pipeline_ok app qs"
  obtain m me target hs r where q: "q = (m, me, target, hs, r)" by (cases q) auto
  with \<open>pipeline_ok app qs\<close> Cons have "rendered m me target hs []" by (simp add: acceptable_def)
  from complete_block [OF this prefix_order.refl, of "concat (map text_of qs')"] show ?thesis
    by (simp add: Cons q request_text_def block_def)
qed simp


text \<open>
  C34. What a kept connection does with a body. Only the header block of an answered request is
  skipped before the server looks for the next one: when the buffer holds a request that asks to
  keep the connection and whose body is itself the text of a request, the body is answered as part
  of the first request and is then left in the buffer as the next request. A proxy in front of the
  server that relays such a body sees one request where the server serves two.
\<close>

theorem body_becomes_request:
  assumes "app_ready app" "routes_named app" "h_alloc h = []" "request_timeout app keep = Some t"
    and "acceptable app m me target hs (request_text m' target' hs' body') r" "persistent hs"
    and "rendered m' me' target' hs' body'" "c_inbox c = []"
  shows "\<exists>c' h' fr. handle_one env app keep (request_text m target hs (request_text m' target' hs' body')) c h =
    Some (Again (request_text m' target' hs' body') c' h' fr)"
proof -
  let ?body = "request_text m' target' hs' body'"
  let ?buf = "request_text m target hs ?body"
  note A = assms(5) [unfolded acceptable_def]
  have buf: "?buf = block m target hs @ CRLF2 @ block m' target' hs' @ CRLF2 @ body'"
    "?body = block m' target' hs' @ CRLF2 @ body'" by (simp_all add: request_text_def block_def)
  have len: "length (block m target hs @ CRLF2) \<le> length ?buf" unfolding buf(1) by simp
  have "?buf @ stream c = ?buf @ []" using assms(8) by (simp add: stream_def)
  then obtain c' h' fr pre where "handle_one env app keep ?buf c h =
      Some (if persistent hs then Again (next_buffer (block m target hs @ CRLF2 @ pre)) c' h' fr else Stop c' h' fr)"
    "block m target hs @ CRLF2 @ pre = ?buf"
    using handle_one_serves [OF assms(1,2) _ assms(3,4) _ _ _ _ _ , of r m me target hs ?body ?buf c "[]" env]
      A assms(8) request_timeout_pos [OF assms(4)] len by auto
  moreover have "next_buffer ?buf = ?body"
    unfolding buf(1) unfolding buf(2) using A assms(7) by (intro next_buffer_pipelined) blast+
  ultimately show ?thesis using assms(6) by auto
qed

section \<open>A small application\<close>

definition hello_route :: "unit mnet_route" where
  "hello_route = (sample_route ''/u/:id'')\<lparr>rt_handler := \<lambda>req h. (hello_response, h)\<rparr>"

definition hello_app :: "unit mnet_app" where
  "hello_app = zero_app\<lparr>app_routes := [Some hello_route], app_route_count := 1, app_route_capacity := 1\<rparr>"

lemma hello_call: "call_handler hello_app hello_route req h = (hello_response, h)"
  by (simp add: call_handler_def hello_app_def zero_app_def hello_route_def)

lemma hello_app_facts:
  "request_timeout hello_app keep = Some 30000" "registered hello_app = [hello_route]"
  "routes_named hello_app" "answers hello_app hello_route" "room_for_digit (max_body hello_app)" "app_ready hello_app"
proof -
  show t: "request_timeout hello_app keep = Some 30000" for keep
    by (simp add: request_timeout_def hello_app_def zero_app_def c_int_def)
  show r: "registered hello_app = [hello_route]" by (simp add: registered_def hello_app_def zero_app_def)
  show "routes_named hello_app" by (simp add: routes_named_def r route_named_def hello_route_def sample_route_def)
  show "answers hello_app hello_route"
    using hello_sendable by (auto simp: answers_def hello_call) (simp add: hello_response_def)
  show "room_for_digit (max_body hello_app)"
    by (simp add: room_for_digit_def max_body_def hello_app_def zero_app_def)
  have "wf_app hello_app" by (simp add: wf_app_def hello_app_def zero_app_def hello_route_def sample_route_def)
  moreover have "pattern_params ''/u/:id'' \<le> 16" by code_simp
  then have "routes_fit hello_app" by (simp add: routes_fit_def r route_fits_def hello_route_def sample_route_def)
  ultimately show "app_ready hello_app" using t by (simp add: app_ready_def)
qed

lemma hello_acceptable:
  assumes "hs = [(''Host'', ''h'')] \<or> hs = [(''Connection'', ''keep-alive'')]"
  shows "acceptable hello_app ''GET'' MNET_HTTP_GET ''/u/7'' hs [] hello_route"
proof -
  have v: "route_values ''u/:id'' ''u/7'' = Some [''7'']" by code_simp
  then have "route_result ''/u/7'' hello_route = Some [''7'']"
    by (simp add: route_result_def hello_route_def sample_route_def)
  moreover have "path_part ''/u/7'' = ''/u/7''" by (simp add: path_part_def)
  moreover have "rt_method hello_route = MNET_HTTP_GET" by (simp add: hello_route_def sample_route_def)
  ultimately have res: "resolve (registered hello_app) MNET_HTTP_GET (path_part ''/u/7'') = Some hello_route"
    by (simp add: resolve_def hello_app_facts(2) serves_def)
  have "\<forall>h\<in>set hs. \<not> strcaseeq (fst h) ''transfer-encoding'' \<and> \<not> strcaseeq (fst h) ''content-length''"
    using assms by (elim disjE; simp only:; code_simp)
  then have f: "framed hs []" by (auto simp: framed_def)
  have c: "\<forall>h\<in>set hs. wf_header h" "length (block ''GET'' ''/u/7'' hs @ CRLF2) \<le> 8191" "hs \<noteq> []" "length hs \<le> 100"
    using assms by (elim disjE; simp only:; code_simp)+
  have "wf_target ''/u/7''" "mnet_parse_method ''GET'' = Some MNET_HTTP_GET" by code_simp+
  with c f have "rendered ''GET'' MNET_HTTP_GET ''/u/7'' hs []" by (simp add: rendered_def)
  with c(2) res hello_app_facts(4,5) show ?thesis by (simp add: acceptable_def)
qed



theorem body_becomes_request_witness:
  "\<exists>c' h' fr. handle_one sample_env hello_app False
      (request_text ''GET'' ''/u/7'' [(''Connection'', ''keep-alive''), (''Content-Length'', ''32'')]
        (request_text ''GET'' ''/admin'' [(''Host'', ''h'')] []))
      \<lparr>c_clock = 0, c_inbox = [], c_sent = []\<rparr> sample_host =
    Some (Again (request_text ''GET'' ''/admin'' [(''Host'', ''h'')] []) c' h' fr)"
proof -
  let ?hs = "[(''Connection'', ''keep-alive''), (''Content-Length'', ''32'')]" and ?hb = "[(''Host'', ''h'')]"
  let ?body = "request_text ''GET'' ''/admin'' ?hb []"
  have n: "show_nat (length ?body) = ''32''" by code_simp
  have "framed ?hs ?body"
    unfolding framed_def n
    by (intro conjI disjI2 exI [of _ "[(''Connection'', ''keep-alive'')]"] exI [of _ "''Content-Length''"] exI [of _ "[]"]) code_simp+
  moreover have "\<forall>h\<in>set ?hs. wf_header h" "\<forall>h\<in>set ?hb. wf_header h" by code_simp+
  moreover have "wf_target ''/u/7''" "wf_target ''/admin''" "mnet_parse_method ''GET'' = Some MNET_HTTP_GET" by code_simp+
  moreover have "\<forall>h\<in>set ?hb. \<not> strcaseeq (fst h) ''transfer-encoding'' \<and> \<not> strcaseeq (fst h) ''content-length''" by code_simp
  ultimately have r: "rendered ''GET'' MNET_HTTP_GET ''/u/7'' ?hs ?body" "rendered ''GET'' MNET_HTTP_GET ''/admin'' ?hb []"
    by (simp_all add: rendered_def framed_def [of ?hb])
  have l: "length (block ''GET'' ''/u/7'' ?hs @ CRLF2) \<le> 8191" "length ?body = 32" by code_simp+
  moreover have "unat (max_body hello_app) = 16777216" by (simp add: max_body_def hello_app_def zero_app_def)
  ultimately have "acceptable hello_app ''GET'' MNET_HTTP_GET ''/u/7'' ?hs ?body hello_route"
    using r(1) hello_acceptable [of ?hb] by (simp add: acceptable_def)
  moreover have "persistent ?hs" by code_simp
  moreover have "h_alloc sample_host = []" by (simp add: sample_host_def)
  ultimately show ?thesis
    using body_becomes_request [OF hello_app_facts(6,3) _ hello_app_facts(1) _ _ r(2)] by simp
qed

end
