(* ===== verification/Pool.thy ===== *)
theory Pool
  imports Serving "HOL-Library.Multiset"
begin

text \<open>
  The connection queue of the worker pool: the ring buffer of \<open>mnet_pool_t\<close> in
  \<^verbatim>\<open>src/src/mnet_server.c\<close>, with \<open>mnet_pool_push\<close>, \<open>mnet_pool_pop\<close> and the draining loop of
  \<open>mnet_pool_shutdown\<close>. Each function holds the mutex while it works, so the part of it between
  taking the mutex and releasing it (or going to sleep in \<open>mnet_cond_wait\<close>) is one definition:
  its result says whether the caller sleeps, fails or succeeds. \<open>None\<close> is undefined behaviour: a
  slot outside the array, a slot that was never written, or a division by zero.

  The queue is presented to its users by the locale \<open>bounded_queue\<close>; the ring buffer is an
  interpretation of it. The threads that use it are in \<open>Workers\<close>.
\<close>

section \<open>Definitions\<close>

text \<open>A slot that has not been written is \<open>None\<close>; the threads and the mutex are in \<open>Workers\<close>.\<close>

record 's mnet_pool =
  pool_slots :: "'s option list"
  pool_capacity :: nat
  pool_head :: nat
  pool_count :: nat
  pool_shutting_down :: bool

definition pool_init :: "nat \<Rightarrow> 's mnet_pool" where
  "pool_init capacity =
     \<lparr>pool_slots = replicate capacity None, pool_capacity = capacity, pool_head = 0, pool_count = 0,
      pool_shutting_down = False\<rparr>"

text \<open>\<open>slots[(head + count) % capacity] = client; count++\<close>\<close>

definition ring_put :: "'s \<Rightarrow> 's mnet_pool \<Rightarrow> 's mnet_pool option" where
  "ring_put client p =
     (if pool_capacity p = 0 then None
      else
        let i = (pool_head p + pool_count p) mod pool_capacity p
        in if i < length (pool_slots p)
           then Some (p\<lparr>pool_slots := (pool_slots p)[i := Some client], pool_count := pool_count p + 1\<rparr>)
           else None)"

text \<open>\<open>out = slots[head]; head = (head + 1) % capacity; count--\<close>\<close>

definition ring_get :: "'s mnet_pool \<Rightarrow> ('s \<times> 's mnet_pool) option" where
  "ring_get p =
     (if pool_capacity p = 0 \<or> \<not> pool_head p < length (pool_slots p) then None
      else
        (case pool_slots p ! pool_head p of
           None \<Rightarrow> None
         | Some client \<Rightarrow>
             Some (client, p\<lparr>pool_head := (pool_head p + 1) mod pool_capacity p, pool_count := pool_count p - 1\<rparr>)))"

text \<open>\<open>Push_wait\<close> and \<open>Pop_wait\<close>: the caller sleeps in \<open>mnet_cond_wait\<close> and tries again when woken.\<close>

datatype push_result = Pushed | Push_wait | Push_refused

definition mnet_pool_push :: "bool \<Rightarrow> 's \<Rightarrow> 's mnet_pool \<Rightarrow> (push_result \<times> 's mnet_pool) option" where
  "mnet_pool_push running client p =
     (if pool_count p = pool_capacity p \<and> \<not> pool_shutting_down p then
        if \<not> running then Some (Push_refused, p\<lparr>pool_shutting_down := True\<rparr>)
        else Some (Push_wait, p)
      else if pool_shutting_down p then Some (Push_refused, p)
      else map_option (\<lambda>q. (Pushed, q)) (ring_put client p))"

datatype 's pop_result = Popped 's | Pop_wait | Pop_closed

definition mnet_pool_pop :: "'s mnet_pool \<Rightarrow> ('s pop_result \<times> 's mnet_pool) option" where
  "mnet_pool_pop p =
     (if pool_count p = 0 \<and> \<not> pool_shutting_down p then Some (Pop_wait, p)
      else if pool_count p = 0 then Some (Pop_closed, p)
      else map_option (\<lambda>(client, q). (Popped client, q)) (ring_get p))"

text \<open>The loop that closes what is still queued when all workers have ended.\<close>

function pool_drain :: "'s mnet_pool \<Rightarrow> ('s list \<times> 's mnet_pool) option" where
  "pool_drain p =
     (if pool_count p > 0 then
        (case ring_get p of
           None \<Rightarrow> None
         | Some (client, q) \<Rightarrow> map_option (\<lambda>(cs, q'). (client # cs, q')) (pool_drain q))
      else Some ([], p))"
  by pat_completeness auto
termination
  by (relation "measure pool_count") (auto simp: ring_get_def split: if_splits option.splits)

declare pool_drain.simps [simp del]

section \<open>The queue as its users see it\<close>

locale bounded_queue =
  fixes queue :: "'q \<Rightarrow> 'a list"
    and capacity :: "'q \<Rightarrow> nat"
    and invar :: "'q \<Rightarrow> bool"
    and put :: "'a \<Rightarrow> 'q \<Rightarrow> 'q option"
    and get :: "'q \<Rightarrow> ('a \<times> 'q) option"
  assumes put_law: "invar q \<Longrightarrow> length (queue q) < capacity q \<Longrightarrow>
      \<exists>q'. put x q = Some q' \<and> invar q' \<and> queue q' = queue q @ [x] \<and> capacity q' = capacity q"
    and get_law: "invar q \<Longrightarrow> queue q \<noteq> [] \<Longrightarrow>
      \<exists>q'. get q = Some (hd (queue q), q') \<and> invar q' \<and> queue q' = tl (queue q) \<and> capacity q' = capacity q"
    and bounded: "invar q \<Longrightarrow> length (queue q) \<le> capacity q"
begin

lemma put_SomeD: "invar q \<Longrightarrow> length (queue q) < capacity q \<Longrightarrow> put x q = Some q' \<Longrightarrow>
  invar q' \<and> queue q' = queue q @ [x] \<and> capacity q' = capacity q"
  using put_law [of q x] by auto

lemma get_SomeD: "invar q \<Longrightarrow> queue q \<noteq> [] \<Longrightarrow> get q = Some (x, q') \<Longrightarrow>
  invar q' \<and> queue q = x # queue q' \<and> capacity q' = capacity q"
  using get_law [of q] by (cases "queue q") auto

text \<open>First in, first out: what is put behind \<open>n\<close> elements comes out after \<open>n\<close> of them were taken.\<close>

lemma put_then_get:
  assumes "invar q" "length (queue q) < capacity q" "queue q \<noteq> []"
  shows "\<exists>q1 q2. put x q = Some q1 \<and> get q1 = Some (hd (queue q), q2) \<and> queue q2 = tl (queue q) @ [x]"
proof -
  obtain q1 where p: "put x q = Some q1" "invar q1" "queue q1 = queue q @ [x]" using put_law [OF assms(1,2)] by blast
  with get_law [OF p(2)] assms(3) show ?thesis by auto
qed

end

section \<open>The ring buffer is such a queue\<close>

definition ring_index :: "'s mnet_pool \<Rightarrow> nat \<Rightarrow> nat" where
  "ring_index p i = (pool_head p + i) mod pool_capacity p"

definition ring_list :: "'s mnet_pool \<Rightarrow> 's list" where
  "ring_list p = map (\<lambda>i. the (pool_slots p ! ring_index p i)) [0..<pool_count p]"

definition ring_ok :: "'s mnet_pool \<Rightarrow> bool" where
  "ring_ok p \<longleftrightarrow>
     0 < pool_capacity p \<and> length (pool_slots p) = pool_capacity p \<and> pool_head p < pool_capacity p \<and>
     pool_count p \<le> pool_capacity p \<and> (\<forall>i<pool_count p. pool_slots p ! ring_index p i \<noteq> None)"

lemma ring_list_length [simp, len_simps]: "length (ring_list p) = pool_count p"
  by (simp add: ring_list_def)

lemma ring_index_less: "0 < pool_capacity p \<Longrightarrow> ring_index p i < pool_capacity p"
  by (simp add: ring_index_def)

lemma ring_index_inj:
  assumes "i < j" "j < pool_capacity p"
  shows "ring_index p i \<noteq> ring_index p j"
proof
  assume "ring_index p i = ring_index p j"
  then have "pool_capacity p dvd pool_head p + j - (pool_head p + i)"
    using assms(1) mod_eq_dvd_iff_nat [of "pool_head p + i" "pool_head p + j" "pool_capacity p"]
    by (simp add: ring_index_def)
  then have "pool_capacity p dvd j - i" by simp
  with assms show False by (auto dest: dvd_imp_le)
qed

lemma ring_put_ok:
  assumes "ring_ok p" "pool_count p < pool_capacity p"
  shows "\<exists>q. ring_put x p = Some q \<and> ring_ok q \<and> ring_list q = ring_list p @ [x] \<and>
    pool_capacity q = pool_capacity p \<and> pool_shutting_down q = pool_shutting_down p"
proof -
  let ?i = "ring_index p (pool_count p)"
  let ?q = "p\<lparr>pool_slots := (pool_slots p)[?i := Some x], pool_count := pool_count p + 1\<rparr>"
  have c: "0 < pool_capacity p" "length (pool_slots p) = pool_capacity p" "?i < pool_capacity p"
    using assms(1) ring_index_less by (auto simp: ring_ok_def)
  then have "ring_put x p = Some ?q" by (simp add: ring_put_def ring_index_def)
  moreover have old: "pool_slots ?q ! ring_index ?q i = pool_slots p ! ring_index p i" if "i < pool_count p" for i
    using ring_index_inj [OF that assms(2)] by (simp add: ring_index_def)
  moreover have new: "pool_slots ?q ! ring_index ?q (pool_count p) = Some x"
    using c by (simp add: ring_index_def)
  moreover have "ring_ok ?q"
    using assms c old new by (auto simp: ring_ok_def less_Suc_eq)
  moreover have "ring_list ?q = ring_list p @ [x]"
    using old new by (simp add: ring_list_def)
  ultimately show ?thesis by simp
qed

lemma ring_get_ok:
  assumes "ring_ok p" "0 < pool_count p"
  shows "\<exists>q. ring_get p = Some (hd (ring_list p), q) \<and> ring_ok q \<and> ring_list q = tl (ring_list p) \<and>
    pool_capacity q = pool_capacity p \<and> pool_shutting_down q = pool_shutting_down p"
proof -
  let ?q = "p\<lparr>pool_head := (pool_head p + 1) mod pool_capacity p, pool_count := pool_count p - 1\<rparr>"
  have c: "0 < pool_capacity p" "length (pool_slots p) = pool_capacity p" "pool_head p < pool_capacity p"
    using assms(1) by (simp_all add: ring_ok_def)
  have ix: "ring_index ?q i = ring_index p (Suc i)" for i
    by (simp add: ring_index_def mod_add_left_eq)
  have h: "ring_index p 0 = pool_head p" using c by (simp add: ring_index_def)
  obtain x where x: "pool_slots p ! pool_head p = Some x" using assms h by (fastforce simp: ring_ok_def)
  have cs: "[0..<pool_count p] = 0 # map Suc [0..<pool_count p - 1]"
    using assms(2) by (metis map_Suc_upt upt_conv_Cons Suc_diff_1 One_nat_def)
  have "ring_list p = x # ring_list ?q"
    using x h by (simp add: ring_list_def cs ix [simplified])
  moreover have "ring_get p = Some (x, ?q)" using c x by (simp add: ring_get_def)
  moreover have "ring_ok ?q" using assms c ix by (auto simp: ring_ok_def)
  ultimately show ?thesis by simp
qed

interpretation ring: bounded_queue ring_list pool_capacity ring_ok ring_put ring_get
proof unfold_locales
  fix q :: "'s mnet_pool" and x
  show "ring_ok q \<Longrightarrow> length (ring_list q) < pool_capacity q \<Longrightarrow>
      \<exists>q'. ring_put x q = Some q' \<and> ring_ok q' \<and> ring_list q' = ring_list q @ [x] \<and> pool_capacity q' = pool_capacity q"
    using ring_put_ok [of q x] by auto
  show "ring_ok q \<Longrightarrow> ring_list q \<noteq> [] \<Longrightarrow>
      \<exists>q'. ring_get q = Some (hd (ring_list q), q') \<and> ring_ok q' \<and> ring_list q' = tl (ring_list q) \<and>
        pool_capacity q' = pool_capacity q"
    using ring_get_ok [of q] by (cases "pool_count q") (auto simp: ring_list_def)
  show "ring_ok q \<Longrightarrow> length (ring_list q) \<le> pool_capacity q" by (simp add: ring_ok_def)
qed

lemma pool_init_ok: "0 < n \<Longrightarrow> ring_ok (pool_init n)" "ring_list (pool_init n) = []"
  "pool_capacity (pool_init n) = n" "pool_count (pool_init n) = 0" "\<not> pool_shutting_down (pool_init n)"
  by (simp_all add: ring_ok_def ring_list_def pool_init_def)

lemma pool_drain_ok: "ring_ok p \<Longrightarrow> \<exists>q. pool_drain p = Some (ring_list p, q) \<and> ring_ok q \<and> pool_count q = 0"
proof (induction p rule: pool_drain.induct)
  case (1 p)
  show ?case
  proof (cases "pool_count p = 0")
    case True
    with 1(2) show ?thesis by (simp add: pool_drain.simps [of p] ring_list_def)
  next
    case False
    then have g: "0 < pool_count p" by simp
    obtain q where q: "ring_get p = Some (hd (ring_list p), q)" "ring_ok q" "ring_list q = tl (ring_list p)"
      using ring_get_ok [OF 1(2) g] by blast
    obtain q' where "pool_drain q = Some (ring_list q, q')" "ring_ok q'" "pool_count q' = 0"
      using 1(1) [OF g q(1) refl q(2)] by blast
    moreover have "ring_list p \<noteq> []" using g by (simp add: ring_list_def)
    ultimately show ?thesis using q g by (simp add: pool_drain.simps [of p])
  qed
qed

section \<open>Refinement of a list\<close>

text \<open>The queue without its array: its contents, its capacity and the flag.\<close>

type_synonym 's fifo = "'s list \<times> nat \<times> bool"

definition abs_pool :: "'s mnet_pool \<Rightarrow> 's fifo" where
  "abs_pool p = (ring_list p, pool_capacity p, pool_shutting_down p)"

fun fifo_push :: "bool \<Rightarrow> 's \<Rightarrow> 's fifo \<Rightarrow> push_result \<times> 's fifo" where
  "fifo_push running x (xs, n, shut) =
     (if shut then (Push_refused, xs, n, shut)
      else if length xs < n then (Pushed, xs @ [x], n, shut)
      else if running then (Push_wait, xs, n, shut)
      else (Push_refused, xs, n, True))"

fun fifo_pop :: "'s fifo \<Rightarrow> 's pop_result \<times> 's fifo" where
  "fifo_pop (x # xs, n, shut) = (Popped x, xs, n, shut)"
| "fifo_pop ([], n, shut) = (if shut then Pop_closed else Pop_wait, [], n, shut)"

lemma ring_ok_shutdown [simp]: "ring_ok (p\<lparr>pool_shutting_down := b\<rparr>) = ring_ok p"
  "ring_list (p\<lparr>pool_shutting_down := b\<rparr>) = ring_list p"
  by (simp_all add: ring_ok_def ring_list_def ring_index_def)

lemma pool_push_refines:
  assumes "ring_ok p"
  shows "\<exists>q. mnet_pool_push running x p = Some (fst (fifo_push running x (abs_pool p)), q) \<and> ring_ok q \<and>
    abs_pool q = snd (fifo_push running x (abs_pool p))"
proof (cases "pool_count p < pool_capacity p \<and> \<not> pool_shutting_down p")
  case True
  then obtain q where "ring_put x p = Some q" "ring_ok q" "ring_list q = ring_list p @ [x]"
    "pool_capacity q = pool_capacity p" "pool_shutting_down q = pool_shutting_down p"
    using ring_put_ok [OF assms] by blast
  with True show ?thesis by (simp add: mnet_pool_push_def abs_pool_def)
next
  case False
  then have "pool_count p = pool_capacity p \<or> pool_shutting_down p" using assms by (auto simp: ring_ok_def)
  with assms show ?thesis by (cases "pool_shutting_down p") (auto simp: mnet_pool_push_def abs_pool_def)
qed

lemma pool_pop_refines:
  assumes "ring_ok p"
  shows "\<exists>q. mnet_pool_pop p = Some (fst (fifo_pop (abs_pool p)), q) \<and> ring_ok q \<and>
    abs_pool q = snd (fifo_pop (abs_pool p))"
proof (cases "pool_count p = 0")
  case True
  then have "ring_list p = []" by (simp add: ring_list_def)
  with True assms show ?thesis by (simp add: mnet_pool_pop_def abs_pool_def)
next
  case False
  then obtain q where q: "ring_get p = Some (hd (ring_list p), q)" "ring_ok q" "ring_list q = tl (ring_list p)"
    "pool_capacity q = pool_capacity p" "pool_shutting_down q = pool_shutting_down p"
    using ring_get_ok [OF assms] by auto
  obtain x xs where "ring_list p = x # xs" using False by (cases "ring_list p") (auto simp: ring_list_def)
  with q False show ?thesis by (simp add: mnet_pool_pop_def abs_pool_def)
qed

text \<open>
  C13. The ring buffer is a bounded first-in first-out queue. On every state of the buffer that
  its operations produce, pushing and popping are defined (no slot outside the array is touched,
  no slot is read that was not written) and act on the contents as on a list: a push appends, or
  sleeps when the queue is full, or is refused when the server stops; a pop takes the oldest
  element, or sleeps, or reports the end; and the draining loop returns all that is left, oldest
  first.
\<close>

theorem pool_refines_fifo:
  assumes "ring_ok p"
  shows "(\<exists>q. mnet_pool_push running x p = Some (fst (fifo_push running x (abs_pool p)), q) \<and> ring_ok q \<and>
      abs_pool q = snd (fifo_push running x (abs_pool p))) \<and>
    (\<exists>q. mnet_pool_pop p = Some (fst (fifo_pop (abs_pool p)), q) \<and> ring_ok q \<and>
      abs_pool q = snd (fifo_pop (abs_pool p))) \<and>
    (\<exists>q. pool_drain p = Some (ring_list p, q) \<and> ring_ok q \<and> pool_count q = 0)"
  using pool_push_refines [OF assms] pool_pop_refines [OF assms] pool_drain_ok [OF assms] by blast

theorem pool_refines_fifo_witness:
  "mnet_pool_pop \<lparr>pool_slots = [Some 7, None, Some (5 :: nat)], pool_capacity = 3, pool_head = 2, pool_count = 2,
      pool_shutting_down = False\<rparr> =
    Some (Popped 5, \<lparr>pool_slots = [Some 7, None, Some 5], pool_capacity = 3, pool_head = 0, pool_count = 1,
      pool_shutting_down = False\<rparr>)"
proof -
  let ?p = "\<lparr>pool_slots = [Some 7, None, Some (5 :: nat)], pool_capacity = 3, pool_head = 2, pool_count = 2,
      pool_shutting_down = False\<rparr>"
  have "ring_ok ?p" by code_simp
  moreover have "abs_pool ?p = ([5, 7], 3, False)" by code_simp
  ultimately show ?thesis
    using pool_refines_fifo [of ?p True 0] by (auto simp: mnet_pool_pop_def ring_get_def)
qed

end
