(* ===== verification/Workers.thy ===== *)
theory Workers
  imports Pool
begin

text \<open>
  The threads of the server: the accept loop of \<open>mnet_run\<close>, the workers of \<open>mnet_worker_main\<close> and
  the shutdown of the pool, all of \<^verbatim>\<open>src/src/mnet_server.c\<close>, as a transition system. A step is what
  one thread does between two points where another may run: one critical section of the pool's
  mutex, one call of \<open>accept\<close>, or the service of one connection. A thread that sleeps in
  \<open>mnet_cond_wait\<close> goes on when it is signalled (the signal of a push wakes one worker, the signal
  of a pop wakes the accept loop, the broadcast of the shutdown wakes all), or spuriously, as
  POSIX allows. The flag \<open>running\<close> can be cleared at any moment, by \<open>sig_handler\<close> or \<open>mnet_stop\<close>.

  Connections are numbered in the order in which they are accepted. Serving one is the function
  \<open>mnet_handle_client\<close> of \<open>Server\<close>, which always returns (\<open>Serving\<close>), followed by \<open>mnet_close\<close>.
\<close>

section \<open>Definitions\<close>

datatype worker =
    Popping        \<comment> \<open>about to take the mutex in \<open>mnet_pool_pop\<close>\<close>
  | Asleep         \<comment> \<open>in \<open>mnet_cond_wait\<close> on \<open>not_empty\<close>\<close>
  | Serving nat    \<comment> \<open>in \<open>mnet_handle_client\<close> or \<open>mnet_close\<close>\<close>
  | Leaving        \<comment> \<open>the connection is closed, \<open>active_connections\<close> not yet decremented\<close>
  | Exited

datatype main =
    Accepting          \<comment> \<open>at the head of the accept loop\<close>
  | Blocked            \<comment> \<open>in \<open>accept\<close>\<close>
  | Accepted nat
  | Sampled nat int    \<comment> \<open>\<open>active\<close> has been read\<close>
  | Pushing nat        \<comment> \<open>\<open>active_connections\<close> incremented, about to take the mutex in \<open>mnet_pool_push\<close>\<close>
  | Push_asleep nat    \<comment> \<open>in \<open>mnet_cond_wait\<close> on \<open>not_full\<close>\<close>
  | Refused nat        \<comment> \<open>\<open>mnet_pool_push\<close> has failed\<close>
  | Stopping           \<comment> \<open>about to call \<open>mnet_pool_shutdown\<close>\<close>
  | Joining
  | Stopped

text \<open>\<open>ps_queued\<close> and \<open>ps_picked\<close> record the order of the pushes and the pops.\<close>

record pool_state =
  ps_pool :: "nat mnet_pool"
  ps_main :: main
  ps_workers :: "worker list"
  ps_active :: int
  ps_running :: bool
  ps_accepted :: nat
  ps_queued :: "nat list"
  ps_picked :: "nat list"
  ps_closed :: "nat list"

definition queue_capacity :: "int \<Rightarrow> nat" where
  "queue_capacity max_connections = (if max_connections > 0 then nat max_connections else 128)"

text \<open>The state when \<open>n\<close> workers have been started.\<close>

definition pool_start :: "int \<Rightarrow> nat \<Rightarrow> pool_state" where
  "pool_start max_connections n =
     \<lparr>ps_pool = pool_init (queue_capacity max_connections), ps_main = Accepting, ps_workers = replicate n Popping,
      ps_active = 0, ps_running = True, ps_accepted = 0, ps_queued = [], ps_picked = [], ps_closed = []\<rparr>"

text \<open>\<open>mnet_cond_signal\<close> on \<open>not_empty\<close>: one sleeping worker wakes up, if there is one.\<close>

inductive signalled :: "worker list \<Rightarrow> worker list \<Rightarrow> bool" where
  none: "Asleep \<notin> set ws \<Longrightarrow> signalled ws ws"
| one: "i < length ws \<Longrightarrow> ws ! i = Asleep \<Longrightarrow> signalled ws (ws[i := Popping])"

text \<open>\<open>mnet_cond_signal\<close> on \<open>not_full\<close>: only the accept loop waits there.\<close>

fun wake_main :: "main \<Rightarrow> main" where
  "wake_main (Push_asleep k) = Pushing k"
| "wake_main m = m"

fun wake_worker :: "worker \<Rightarrow> worker" where
  "wake_worker Asleep = Popping"
| "wake_worker w = w"

text \<open>The steps of worker \<open>i\<close>: \<open>mnet_worker_main\<close>.\<close>

inductive worker_step :: "nat \<Rightarrow> pool_state \<Rightarrow> pool_state \<Rightarrow> bool" where
  pop: "i < length (ps_workers s) \<Longrightarrow> ps_workers s ! i = Popping \<Longrightarrow>
     mnet_pool_pop (ps_pool s) = Some (Popped k, q) \<Longrightarrow>
     worker_step i s (s\<lparr>ps_pool := q, ps_workers := (ps_workers s)[i := Serving k],
       ps_picked := ps_picked s @ [k], ps_main := wake_main (ps_main s)\<rparr>)"
| pop_sleep: "i < length (ps_workers s) \<Longrightarrow> ps_workers s ! i = Popping \<Longrightarrow>
     mnet_pool_pop (ps_pool s) = Some (Pop_wait, q) \<Longrightarrow>
     worker_step i s (s\<lparr>ps_pool := q, ps_workers := (ps_workers s)[i := Asleep]\<rparr>)"
| pop_end: "i < length (ps_workers s) \<Longrightarrow> ps_workers s ! i = Popping \<Longrightarrow>
     mnet_pool_pop (ps_pool s) = Some (Pop_closed, q) \<Longrightarrow>
     worker_step i s (s\<lparr>ps_pool := q, ps_workers := (ps_workers s)[i := Exited]\<rparr>)"
| serve: "i < length (ps_workers s) \<Longrightarrow> ps_workers s ! i = Serving k \<Longrightarrow>
     worker_step i s (s\<lparr>ps_workers := (ps_workers s)[i := Leaving], ps_closed := ps_closed s @ [k]\<rparr>)"
| leave: "i < length (ps_workers s) \<Longrightarrow> ps_workers s ! i = Leaving \<Longrightarrow>
     worker_step i s (s\<lparr>ps_workers := (ps_workers s)[i := Popping], ps_active := ps_active s - 1\<rparr>)"

text \<open>The steps of the accept loop and of \<open>mnet_pool_shutdown\<close>.\<close>

inductive main_step :: "int \<Rightarrow> pool_state \<Rightarrow> pool_state \<Rightarrow> bool" for max_connections :: int where
  enter_accept: "ps_main s = Accepting \<Longrightarrow> ps_running s \<Longrightarrow> main_step max_connections s (s\<lparr>ps_main := Blocked\<rparr>)"
| accept: "ps_main s = Blocked \<Longrightarrow>
     main_step max_connections s (s\<lparr>ps_main := Accepted (ps_accepted s), ps_accepted := ps_accepted s + 1\<rparr>)"
| accept_interrupted: "ps_main s = Blocked \<Longrightarrow> main_step max_connections s (s\<lparr>ps_main := Accepting\<rparr>)"
| accept_failed: "ps_main s = Blocked \<Longrightarrow> main_step max_connections s (s\<lparr>ps_main := Stopping\<rparr>)"
| leave_loop: "ps_main s = Accepting \<Longrightarrow> \<not> ps_running s \<Longrightarrow> main_step max_connections s (s\<lparr>ps_main := Stopping\<rparr>)"
| sample: "ps_main s = Accepted k \<Longrightarrow> main_step max_connections s (s\<lparr>ps_main := Sampled k (ps_active s)\<rparr>)"
| refuse: "ps_main s = Sampled k a \<Longrightarrow> max_connections > 0 \<and> a \<ge> max_connections \<Longrightarrow>
     main_step max_connections s (s\<lparr>ps_main := Accepting, ps_closed := ps_closed s @ [k]\<rparr>)"
| count: "ps_main s = Sampled k a \<Longrightarrow> \<not> (max_connections > 0 \<and> a \<ge> max_connections) \<Longrightarrow>
     main_step max_connections s (s\<lparr>ps_main := Pushing k, ps_active := ps_active s + 1\<rparr>)"
| push: "ps_main s = Pushing k \<Longrightarrow> mnet_pool_push (ps_running s) k (ps_pool s) = Some (Pushed, q) \<Longrightarrow>
     signalled (ps_workers s) ws \<Longrightarrow>
     main_step max_connections s (s\<lparr>ps_main := Accepting, ps_pool := q, ps_workers := ws, ps_queued := ps_queued s @ [k]\<rparr>)"
| push_sleep: "ps_main s = Pushing k \<Longrightarrow> mnet_pool_push (ps_running s) k (ps_pool s) = Some (Push_wait, q) \<Longrightarrow>
     main_step max_connections s (s\<lparr>ps_main := Push_asleep k, ps_pool := q\<rparr>)"
| push_refused: "ps_main s = Pushing k \<Longrightarrow> mnet_pool_push (ps_running s) k (ps_pool s) = Some (Push_refused, q) \<Longrightarrow>
     main_step max_connections s (s\<lparr>ps_main := Refused k, ps_pool := q\<rparr>)"
| give_up: "ps_main s = Refused k \<Longrightarrow>
     main_step max_connections s (s\<lparr>ps_main := Stopping, ps_active := ps_active s - 1, ps_closed := ps_closed s @ [k]\<rparr>)"
| shutdown: "ps_main s = Stopping \<Longrightarrow>
     main_step max_connections s (s\<lparr>ps_main := Joining, ps_pool := (ps_pool s)\<lparr>pool_shutting_down := True\<rparr>,
       ps_workers := map wake_worker (ps_workers s)\<rparr>)"
| join: "ps_main s = Joining \<Longrightarrow> \<forall>w\<in>set (ps_workers s). w = Exited \<Longrightarrow> pool_drain (ps_pool s) = Some (cs, q) \<Longrightarrow>
     main_step max_connections s (s\<lparr>ps_main := Stopped, ps_pool := q, ps_closed := ps_closed s @ cs\<rparr>)"

text \<open>What happens to the threads from outside: a stop request, and spurious wake-ups.\<close>

inductive outside_step :: "pool_state \<Rightarrow> pool_state \<Rightarrow> bool" where
  stop: "outside_step s (s\<lparr>ps_running := False\<rparr>)"
| spurious_worker: "i < length (ps_workers s) \<Longrightarrow> ps_workers s ! i = Asleep \<Longrightarrow>
     outside_step s (s\<lparr>ps_workers := (ps_workers s)[i := Popping]\<rparr>)"
| spurious_main: "ps_main s = Push_asleep k \<Longrightarrow> outside_step s (s\<lparr>ps_main := Pushing k\<rparr>)"

inductive pool_reachable :: "int \<Rightarrow> nat \<Rightarrow> pool_state \<Rightarrow> bool" for max_connections :: int and n :: nat where
  start: "pool_reachable max_connections n (pool_start max_connections n)"
| worker: "pool_reachable max_connections n s \<Longrightarrow> worker_step i s s' \<Longrightarrow> pool_reachable max_connections n s'"
| main: "pool_reachable max_connections n s \<Longrightarrow> main_step max_connections s s' \<Longrightarrow> pool_reachable max_connections n s'"
| outside: "pool_reachable max_connections n s \<Longrightarrow> outside_step s s' \<Longrightarrow> pool_reachable max_connections n s'"

section \<open>The invariant\<close>

text \<open>What each worker contributes to the sums the invariant speaks about.\<close>

fun held :: "worker \<Rightarrow> nat multiset" where
  "held (Serving k) = {#k#}"
| "held w = {#}"

fun counted :: "worker \<Rightarrow> int" where
  "counted (Serving k) = 1"
| "counted Leaving = 1"
| "counted w = 0"

fun awake :: "worker \<Rightarrow> nat" where
  "awake Popping = 1"
| "awake w = 0"

fun main_held :: "main \<Rightarrow> nat multiset" where
  "main_held (Accepted k) = {#k#}"
| "main_held (Sampled k a) = {#k#}"
| "main_held (Pushing k) = {#k#}"
| "main_held (Push_asleep k) = {#k#}"
| "main_held (Refused k) = {#k#}"
| "main_held m = {#}"

fun main_counted :: "main \<Rightarrow> int" where
  "main_counted (Pushing k) = 1"
| "main_counted (Push_asleep k) = 1"
| "main_counted (Refused k) = 1"
| "main_counted m = 0"

fun stopping :: "main \<Rightarrow> bool" where
  "stopping (Refused k) = True"
| "stopping Stopping = True"
| "stopping Joining = True"
| "stopping Stopped = True"
| "stopping m = False"

lemma sum_update:
  fixes f :: "'a \<Rightarrow> 'b :: comm_monoid_add"
  shows "i < length xs \<Longrightarrow> sum_list (map f (xs[i := x])) + f (xs ! i) = sum_list (map f xs) + f x"
  by (induction xs arbitrary: i) (auto simp: ac_simps less_Suc_eq_0_disj)

text \<open>The results of the queue operations, in the form the steps need them.\<close>

lemma pop_Popped:
  assumes "ring_ok p" "mnet_pool_pop p = Some (Popped k, q)"
  shows "ring_ok q" "ring_list p = k # ring_list q" "pool_capacity q = pool_capacity p"
    "pool_shutting_down q = pool_shutting_down p" "pool_count p = Suc (pool_count q)"
proof -
  obtain x xs where l: "ring_list p = x # xs"
    using pool_pop_refines [OF assms(1)] assms(2)
    by (cases "ring_list p") (auto simp: abs_pool_def split: if_splits)
  with pool_pop_refines [OF assms(1)] assms(2)
  show "ring_ok q" and m: "ring_list p = k # ring_list q" and "pool_capacity q = pool_capacity p"
    "pool_shutting_down q = pool_shutting_down p" by (auto simp: abs_pool_def)
  show "pool_count p = Suc (pool_count q)" using arg_cong [OF m, of length] by simp
qed

lemma pop_wait: "mnet_pool_pop p = Some (Pop_wait, q) \<Longrightarrow> q = p \<and> pool_count p = 0 \<and> \<not> pool_shutting_down p"
  by (auto simp: mnet_pool_pop_def split: if_splits)

lemma pop_closed: "mnet_pool_pop p = Some (Pop_closed, q) \<Longrightarrow> q = p \<and> pool_count p = 0 \<and> pool_shutting_down p"
  by (auto simp: mnet_pool_pop_def split: if_splits)

lemma push_Pushed:
  assumes "ring_ok p" "mnet_pool_push running k p = Some (Pushed, q)"
  shows "ring_ok q" "ring_list q = ring_list p @ [k]" "pool_capacity q = pool_capacity p"
    "\<not> pool_shutting_down p" "\<not> pool_shutting_down q" "pool_count q = Suc (pool_count p)"
proof -
  show "ring_ok q" and m: "ring_list q = ring_list p @ [k]" and "pool_capacity q = pool_capacity p"
    "\<not> pool_shutting_down p" "\<not> pool_shutting_down q"
    using pool_push_refines [OF assms(1), of running k] assms(2) by (auto simp: abs_pool_def split: if_splits)
  show "pool_count q = Suc (pool_count p)" using arg_cong [OF m, of length] by simp
qed

lemma push_wait: "mnet_pool_push running k p = Some (Push_wait, q) \<Longrightarrow>
  q = p \<and> pool_count p = pool_capacity p \<and> \<not> pool_shutting_down p"
  by (auto simp: mnet_pool_push_def split: if_splits)

lemma push_refused: "mnet_pool_push running k p = Some (Push_refused, q) \<Longrightarrow>
  q = p \<and> pool_shutting_down p \<or> q = p\<lparr>pool_shutting_down := True\<rparr> \<and> pool_count p = pool_capacity p"
  by (auto simp: mnet_pool_push_def split: if_splits)

lemmas queue_facts = pop_wait pop_closed push_wait push_refused

lemma signalled_length: "signalled ws ws' \<Longrightarrow> length ws' = length ws"
  by (auto elim: signalled.cases)

subsection \<open>The queue\<close>

definition inv_ring :: "int \<Rightarrow> nat \<Rightarrow> pool_state \<Rightarrow> bool" where
  "inv_ring mc n s \<longleftrightarrow>
     ring_ok (ps_pool s) \<and> pool_capacity (ps_pool s) = queue_capacity mc \<and> length (ps_workers s) = n"

lemma inv_ring_start: "inv_ring mc n (pool_start mc n)"
  by (simp add: inv_ring_def pool_start_def pool_init_ok queue_capacity_def)

lemma inv_ring_worker: "worker_step i s s' \<Longrightarrow> inv_ring mc n s \<Longrightarrow> inv_ring mc n s'"
  by (induction rule: worker_step.induct) (auto simp: inv_ring_def dest!: queue_facts dest: pop_Popped)

lemma pool_drain_capacity: "pool_drain p = Some (cs, q) \<Longrightarrow> pool_capacity q = pool_capacity p \<and> pool_shutting_down q = pool_shutting_down p"
proof (induction p arbitrary: cs q rule: pool_drain.induct)
  case (1 p)
  show ?case
  proof (cases "pool_count p > 0")
    case False
    with 1(2) show ?thesis by (simp add: pool_drain.simps [of p])
  next
    case True
    then obtain k p' cs' where g: "ring_get p = Some (k, p')" "pool_drain p' = Some (cs', q)"
      using 1(2) by (auto simp: pool_drain.simps [of p] split: option.splits)
    moreover have "pool_capacity p' = pool_capacity p \<and> pool_shutting_down p' = pool_shutting_down p"
      using g(1) by (auto simp: ring_get_def split: if_splits option.splits)
    ultimately show ?thesis using 1(1) [OF True g(1) refl g(2)] by simp
  qed
qed

lemma inv_ring_main: "main_step mc s s' \<Longrightarrow> inv_ring mc n s \<Longrightarrow> inv_ring mc n s'"
proof (induction rule: main_step.induct)
  case (push s k q ws)
  then show ?case using push_Pushed [OF _ push(2)] signalled_length by (auto simp: inv_ring_def)
next
  case (join s cs q)
  then show ?case using pool_drain_ok [of "ps_pool s"] pool_drain_capacity [OF join(3)] by (auto simp: inv_ring_def)
qed (auto simp: inv_ring_def dest!: queue_facts)

lemma inv_ring_outside: "outside_step s s' \<Longrightarrow> inv_ring mc n s \<Longrightarrow> inv_ring mc n s'"
  by (induction rule: outside_step.induct) (auto simp: inv_ring_def)

lemma reachable_ring: "pool_reachable mc n s \<Longrightarrow> inv_ring mc n s"
  by (induction rule: pool_reachable.induct)
    (auto intro: inv_ring_start inv_ring_worker inv_ring_main inv_ring_outside)

subsection \<open>Stopping\<close>

text \<open>
  The flag of the pool is only set once the accept loop is over; a worker has only ended when the
  queue is empty for good; nobody sleeps while the threads are joined; and the accept loop sleeps
  only while the queue is full.
\<close>

definition inv_stop :: "pool_state \<Rightarrow> bool" where
  "inv_stop s \<longleftrightarrow>
     (pool_shutting_down (ps_pool s) \<longrightarrow> stopping (ps_main s)) \<and>
     (Exited \<in> set (ps_workers s) \<longrightarrow> pool_shutting_down (ps_pool s) \<and> pool_count (ps_pool s) = 0) \<and>
     (ps_main s \<in> {Joining, Stopped} \<longrightarrow> pool_shutting_down (ps_pool s) \<and> Asleep \<notin> set (ps_workers s)) \<and>
     (ps_main s = Stopped \<longrightarrow> (\<forall>w\<in>set (ps_workers s). w = Exited)) \<and>
     (\<forall>k. ps_main s = Push_asleep k \<longrightarrow> pool_count (ps_pool s) = pool_capacity (ps_pool s))"

lemma set_update_cases: "x \<in> set (xs[i := y]) \<Longrightarrow> x = y \<or> x \<in> set xs"
  using set_update_subset_insert by fastforce

lemma signalled_set: "signalled ws ws' \<Longrightarrow> w \<in> set ws' \<Longrightarrow> w = Popping \<or> w \<in> set ws"
  by (induction rule: signalled.induct) (auto dest: set_update_cases)

lemma wake_main_stopping [simp]: "stopping (wake_main m) = stopping m" "wake_main m \<noteq> Push_asleep k"
  "wake_main m = Joining \<longleftrightarrow> m = Joining" "wake_main m = Stopped \<longleftrightarrow> m = Stopped"
  by (cases m; simp)+

lemma inv_stop_start: "inv_stop (pool_start mc n)"
  by (simp add: inv_stop_def pool_start_def pool_init_ok)

lemma worker_step_busy: "worker_step i s s' \<Longrightarrow> i < length (ps_workers s) \<and> ps_workers s ! i \<noteq> Exited"
  by (induction rule: worker_step.induct) auto

lemma worker_step_not_stopped: "worker_step i s s' \<Longrightarrow> inv_stop s \<Longrightarrow> ps_main s \<noteq> Stopped"
  using worker_step_busy [of i s s'] nth_mem [of i "ps_workers s"] by (auto simp: inv_stop_def)

lemma inv_stop_worker:
  assumes "worker_step i s s'" "inv_ring mc n s" "inv_stop s" "ps_main s \<noteq> Stopped"
  shows "inv_stop s'"
  using assms
proof (induction rule: worker_step.induct)
  case (pop i s k q)
  then show ?case using pop_Popped [OF _ pop(3)]
    by (auto simp: inv_ring_def inv_stop_def dest!: set_update_cases)
qed (auto simp: inv_stop_def dest!: queue_facts set_update_cases)

lemma inv_stop_main:
  assumes "main_step mc s s'" "inv_ring mc n s" "inv_stop s"
  shows "inv_stop s'"
  using assms
proof (induction rule: main_step.induct)
  case (push s k q ws)
  then show ?case using push_Pushed [OF _ push(2)] signalled_set [OF push(3)]
    by (auto simp: inv_ring_def inv_stop_def)
next
  case (shutdown s)
  have "wake_worker w \<noteq> Asleep" "wake_worker w = Exited \<longleftrightarrow> w = Exited" for w by (cases w; simp)+
  with shutdown show ?case by (auto simp: inv_stop_def image_iff) metis+
next
  case (join s cs q)
  then show ?case using pool_drain_ok [of "ps_pool s"] pool_drain_capacity [OF join(3)]
    by (auto simp: inv_ring_def inv_stop_def)
qed (auto simp: inv_stop_def dest!: queue_facts)

lemma inv_stop_outside: "outside_step s s' \<Longrightarrow> inv_stop s \<Longrightarrow> inv_stop s'"
proof (induction rule: outside_step.induct)
  case (spurious_worker i s)
  then show ?case using nth_mem [of i "ps_workers s"] by (auto simp: inv_stop_def dest!: set_update_cases)
qed (auto simp: inv_stop_def)

lemma reachable_stop: "pool_reachable mc n s \<Longrightarrow> inv_stop s"
proof (induction rule: pool_reachable.induct)
  case (worker s i s')
  then show ?case using inv_stop_worker reachable_ring worker_step_not_stopped by blast
next
  case (main s s')
  then show ?case using inv_stop_main reachable_ring by blast
qed (auto intro: inv_stop_start inv_stop_outside)

text \<open>Invariants that rest on the two above.\<close>

lemma pool_invariant [consumes 1, case_names start worker main outside]:
  assumes "pool_reachable mc n s" "I (pool_start mc n)"
    and "\<And>i s s'. worker_step i s s' \<Longrightarrow> inv_ring mc n s \<Longrightarrow> I s \<Longrightarrow> I s'"
    and "\<And>s s'. main_step mc s s' \<Longrightarrow> inv_ring mc n s \<Longrightarrow> inv_stop s \<Longrightarrow> I s \<Longrightarrow> I s'"
    and "\<And>s s'. outside_step s s' \<Longrightarrow> I s \<Longrightarrow> I s'"
  shows "I s"
  using assms(1)
proof (induction rule: pool_reachable.induct)
  case (worker s i s')
  then show ?case using assms(3) reachable_ring by blast
next
  case (main s s')
  then show ?case using assms(4) reachable_ring reachable_stop by blast
qed (auto intro: assms(2,5))

subsection \<open>Counting\<close>

text \<open>
  \<open>active_connections\<close> counts the connections that are queued, served or about to be queued; with
  a limit it never exceeds it.
\<close>

definition inv_count :: "int \<Rightarrow> pool_state \<Rightarrow> bool" where
  "inv_count mc s \<longleftrightarrow>
     ps_active s = int (pool_count (ps_pool s)) + sum_list (map counted (ps_workers s)) + main_counted (ps_main s) \<and>
     (0 < mc \<longrightarrow> ps_active s \<le> mc) \<and> (\<forall>k a. ps_main s = Sampled k a \<longrightarrow> ps_active s \<le> a)"

lemma inv_count_start: "inv_count mc (pool_start mc n)"
  by (simp add: inv_count_def pool_start_def pool_init_ok map_replicate_const sum_list_replicate)

lemma main_counted_wake [simp]: "main_counted (wake_main m) = main_counted m" "wake_main m = Sampled k a \<longleftrightarrow> m = Sampled k a"
  by (cases m; simp)+

lemma inv_count_worker:
  assumes "worker_step i s s'" "inv_ring mc n s" "inv_count mc s"
  shows "inv_count mc s'"
  using assms
proof (induction rule: worker_step.induct)
  case (pop i s k q)
  then show ?case using pop_Popped [OF _ pop(3)] sum_update [OF pop(1), of counted "Serving k"]
    by (auto simp: inv_ring_def inv_count_def)
next
  case (pop_sleep i s q)
  then show ?case using sum_update [OF pop_sleep(1), of counted Asleep]
    by (auto simp: inv_count_def dest!: queue_facts)
next
  case (pop_end i s q)
  then show ?case using sum_update [OF pop_end(1), of counted Exited]
    by (auto simp: inv_count_def dest!: queue_facts)
next
  case (serve i s k)
  then show ?case using sum_update [OF serve(1), of counted Leaving] by (auto simp: inv_count_def)
next
  case (leave i s)
  then show ?case using sum_update [OF leave(1), of counted Popping] by (auto simp: inv_count_def)
qed

lemma signalled_sum:
  fixes f :: "worker \<Rightarrow> 'b :: cancel_comm_monoid_add"
  assumes "signalled ws ws'" "f Popping = f Asleep"
  shows "sum_list (map f ws') = sum_list (map f ws)"
  using assms
proof (induction rule: signalled.induct)
  case (one i ws)
  then show ?case using sum_update [OF one(1), of f Popping] by simp
qed simp

lemma wake_sum: "f Popping = f Asleep \<Longrightarrow> sum_list (map f (map wake_worker ws)) = sum_list (map f ws)"
proof (induction ws)
  case (Cons w ws)
  then show ?case by (cases w) auto
qed simp

lemma stopped_queue:
  "0 < n \<Longrightarrow> inv_ring mc n s \<Longrightarrow> inv_stop s \<Longrightarrow> \<forall>w\<in>set (ps_workers s). w = Exited \<Longrightarrow> pool_count (ps_pool s) = 0"
  by (cases "ps_workers s") (auto simp: inv_ring_def inv_stop_def)

lemma pool_drain_empty: "pool_count p = 0 \<Longrightarrow> pool_drain p = Some ([], p)"
  by (simp add: pool_drain.simps [of p])

lemma inv_count_main:
  assumes "main_step mc s s'" "inv_ring mc n s" "inv_stop s" "inv_count mc s" "0 < n"
  shows "inv_count mc s'"
  using assms
proof (induction rule: main_step.induct)
  case (push s k q ws)
  then show ?case using push_Pushed [OF _ push(2)] signalled_sum [OF push(3), of counted]
    by (auto simp: inv_ring_def inv_count_def)
next
  case (shutdown s)
  then show ?case using wake_sum [of counted "ps_workers s"] by (auto simp: inv_count_def)
next
  case (join s cs q)
  then show ?case using stopped_queue [of n mc s] pool_drain_empty [of "ps_pool s"] by (auto simp: inv_count_def)
next
  case (count s k a)
  then show ?case by (fastforce simp: inv_count_def)
qed (auto simp: inv_count_def dest!: queue_facts)

lemma inv_count_outside: "outside_step s s' \<Longrightarrow> inv_count mc s \<Longrightarrow> inv_count mc s'"
proof (induction rule: outside_step.induct)
  case (spurious_worker i s)
  then show ?case using sum_update [OF spurious_worker(1), of counted Popping] by (auto simp: inv_count_def)
qed (auto simp: inv_count_def)

lemma reachable_count: "pool_reachable mc n s \<Longrightarrow> 0 < n \<Longrightarrow> inv_count mc s"
  by (induction rule: pool_invariant)
    (blast intro: inv_count_start inv_count_worker inv_count_main inv_count_outside)+

subsection \<open>Order\<close>

text \<open>The connection the accept loop has in hand.\<close>

fun in_hand :: "main \<Rightarrow> nat list" where
  "in_hand (Accepted k) = [k]"
| "in_hand (Sampled k a) = [k]"
| "in_hand (Pushing k) = [k]"
| "in_hand (Push_asleep k) = [k]"
| "in_hand (Refused k) = [k]"
| "in_hand m = []"

lemma in_hand_wake [simp]: "in_hand (wake_main m) = in_hand m"
  by (cases m) auto

lemma main_held_in_hand: "main_held m = mset (in_hand m)"
  by (cases m) auto

definition inv_order :: "pool_state \<Rightarrow> bool" where
  "inv_order s \<longleftrightarrow>
     ps_queued s = ps_picked s @ ring_list (ps_pool s) \<and>
     sorted_wrt (<) (ps_queued s @ in_hand (ps_main s)) \<and>
     (\<forall>k\<in>set (ps_queued s @ in_hand (ps_main s)). k < ps_accepted s)"

lemma inv_order_start: "inv_order (pool_start mc n)"
  by (simp add: inv_order_def pool_start_def pool_init_ok)

lemma inv_order_worker:
  assumes "worker_step i s s'" "inv_ring mc n s" "inv_order s"
  shows "inv_order s'"
  using assms
proof (induction rule: worker_step.induct)
  case (pop i s k q)
  then show ?case using pop_Popped [OF _ pop(3)] by (auto simp: inv_ring_def inv_order_def)
qed (auto simp: inv_order_def dest!: queue_facts)

lemma inv_order_main:
  assumes "main_step mc s s'" "inv_ring mc n s" "inv_stop s" "inv_order s" "0 < n"
  shows "inv_order s'"
  using assms
proof (induction rule: main_step.induct)
  case (push s k q ws)
  then show ?case using push_Pushed [OF _ push(2)] by (auto simp: inv_ring_def inv_order_def)
next
  case (join s cs q)
  then show ?case using stopped_queue [of n mc s] pool_drain_empty [of "ps_pool s"] by (auto simp: inv_order_def)
qed (auto simp: inv_order_def sorted_wrt_append less_Suc_eq dest!: queue_facts)

lemma inv_order_outside: "outside_step s s' \<Longrightarrow> inv_order s \<Longrightarrow> inv_order s'"
  by (induction rule: outside_step.induct) (auto simp: inv_order_def)

lemma reachable_order: "pool_reachable mc n s \<Longrightarrow> 0 < n \<Longrightarrow> inv_order s"
  by (induction rule: pool_invariant)
    (blast intro: inv_order_start inv_order_worker inv_order_main inv_order_outside)+

subsection \<open>Ownership\<close>

text \<open>Every accepted connection is closed, queued, served, or in the hand of the accept loop.\<close>

definition inv_held :: "pool_state \<Rightarrow> bool" where
  "inv_held s \<longleftrightarrow>
     mset [0..<ps_accepted s] =
       mset (ps_closed s) + mset (ring_list (ps_pool s)) + sum_list (map held (ps_workers s)) + main_held (ps_main s)"

lemma main_held_wake [simp]: "main_held (wake_main m) = main_held m"
  by (cases m) auto

lemma inv_held_start: "inv_held (pool_start mc n)"
proof -
  have "sum_list (replicate n {#}) = ({#} :: nat multiset)" by (induction n) auto
  then show ?thesis by (simp add: inv_held_def pool_start_def pool_init_ok map_replicate_const)
qed

lemma inv_held_worker:
  assumes "worker_step i s s'" "inv_ring mc n s" "inv_held s"
  shows "inv_held s'"
  using assms
proof (induction rule: worker_step.induct)
  case (pop i s k q)
  then show ?case using pop_Popped [OF _ pop(3)] sum_update [OF pop(1), of held "Serving k"]
    by (auto simp: inv_ring_def inv_held_def)
next
  case (pop_sleep i s q)
  then show ?case using sum_update [OF pop_sleep(1), of held Asleep]
    by (auto simp: inv_held_def dest!: queue_facts)
next
  case (pop_end i s q)
  then show ?case using sum_update [OF pop_end(1), of held Exited]
    by (auto simp: inv_held_def dest!: queue_facts)
next
  case (serve i s k)
  then show ?case using sum_update [OF serve(1), of held Leaving, symmetric] by (auto simp: inv_held_def)
next
  case (leave i s)
  then show ?case using sum_update [OF leave(1), of held Popping] by (auto simp: inv_held_def)
qed

lemma inv_held_main:
  assumes "main_step mc s s'" "inv_ring mc n s" "inv_stop s" "inv_held s" "0 < n"
  shows "inv_held s'"
  using assms
proof (induction rule: main_step.induct)
  case (push s k q ws)
  then show ?case using push_Pushed [OF _ push(2)] signalled_sum [OF push(3), of held]
    by (auto simp: inv_ring_def inv_held_def)
next
  case (shutdown s)
  then show ?case using wake_sum [of held "ps_workers s"] by (auto simp: inv_held_def)
next
  case (join s cs q)
  then show ?case using stopped_queue [of n mc s] pool_drain_empty [of "ps_pool s"] by (auto simp: inv_held_def)
qed (auto simp: inv_held_def dest!: queue_facts)

lemma inv_held_outside: "outside_step s s' \<Longrightarrow> inv_held s \<Longrightarrow> inv_held s'"
proof (induction rule: outside_step.induct)
  case (spurious_worker i s)
  then show ?case using sum_update [OF spurious_worker(1), of held Popping] by (auto simp: inv_held_def)
qed (auto simp: inv_held_def)

lemma reachable_held: "pool_reachable mc n s \<Longrightarrow> 0 < n \<Longrightarrow> inv_held s"
  by (induction rule: pool_invariant)
    (blast intro: inv_held_start inv_held_worker inv_held_main inv_held_outside)+

subsection \<open>Wake-ups\<close>

text \<open>
  No wake-up is lost: while a worker sleeps, there are at least as many workers on their way to
  the queue as there are connections in it.
\<close>

definition inv_wake :: "pool_state \<Rightarrow> bool" where
  "inv_wake s \<longleftrightarrow> Asleep \<in> set (ps_workers s) \<longrightarrow> pool_count (ps_pool s) \<le> sum_list (map awake (ps_workers s))"

lemma inv_wake_start: "inv_wake (pool_start mc n)"
  by (simp add: inv_wake_def pool_start_def pool_init_ok)

lemma inv_wake_worker:
  assumes "worker_step i s s'" "inv_ring mc n s" "inv_wake s"
  shows "inv_wake s'"
  using assms
proof (induction rule: worker_step.induct)
  case (pop i s k q)
  then show ?case using pop_Popped [OF _ pop(3)] sum_update [OF pop(1), of awake "Serving k"]
    by (auto simp: inv_ring_def inv_wake_def dest!: set_update_cases)
next
  case (serve i s k)
  then show ?case using sum_update [OF serve(1), of awake Leaving] by (auto simp: inv_wake_def dest!: set_update_cases)
next
  case (leave i s)
  then show ?case using sum_update [OF leave(1), of awake Popping] by (auto simp: inv_wake_def dest!: set_update_cases)
qed (auto simp: inv_wake_def dest!: queue_facts)

lemma signalled_awake: "signalled ws ws' \<Longrightarrow> Asleep \<in> set ws' \<Longrightarrow> sum_list (map awake ws') = Suc (sum_list (map awake ws)) \<and> Asleep \<in> set ws"
proof (induction rule: signalled.induct)
  case (one i ws)
  then show ?case using sum_update [OF one(1), of awake Popping] nth_mem [OF one(1)] by auto
qed simp

lemma inv_wake_main:
  assumes "main_step mc s s'" "inv_ring mc n s" "inv_wake s"
  shows "inv_wake s'"
  using assms
proof (induction rule: main_step.induct)
  case (push s k q ws)
  then show ?case using push_Pushed [OF _ push(2)] signalled_awake [OF push(3)]
    by (auto simp: inv_ring_def inv_wake_def)
next
  case (shutdown s)
  have "wake_worker w \<noteq> Asleep" for w by (cases w) auto
  then show ?case by (auto simp: inv_wake_def image_iff) metis
next
  case (join s cs q)
  then have "Asleep \<notin> set (ps_workers s)" by auto
  then show ?case by (simp add: inv_wake_def)
qed (auto simp: inv_wake_def dest!: queue_facts)

lemma inv_wake_outside: "outside_step s s' \<Longrightarrow> inv_wake s \<Longrightarrow> inv_wake s'"
proof (induction rule: outside_step.induct)
  case (spurious_worker i s)
  then show ?case using sum_update [OF spurious_worker(1), of awake Popping] nth_mem [OF spurious_worker(1)]
    by (auto simp: inv_wake_def)
qed (auto simp: inv_wake_def)

lemma reachable_wake: "pool_reachable mc n s \<Longrightarrow> inv_wake s"
  by (induction rule: pool_invariant)
    (blast intro: inv_wake_start inv_wake_worker inv_wake_main inv_wake_outside)+

section \<open>What the pool guarantees\<close>

inductive_cases worker_stepE: "worker_step i s s'"
inductive_cases main_stepE: "main_step mc s s'"

lemma counted_nonneg: "0 \<le> sum_list (map counted ws)"
proof (induction ws)
  case (Cons w ws)
  then show ?case by (cases w) auto
qed simp

lemma main_counted_nonneg: "0 \<le> main_counted m"
  by (cases m) auto

lemma exited_sums: "\<forall>w\<in>set ws. w = Exited \<Longrightarrow> sum_list (map held ws) = {#} \<and> sum_list (map counted ws) = 0"
  by (induction ws) auto

lemma queue_ops_defined:
  assumes "ring_ok p"
  shows "mnet_pool_push r k p \<noteq> None" "mnet_pool_pop p \<noteq> None" "pool_drain p \<noteq> None"
  using pool_push_refines [OF assms, of r k] pool_pop_refines [OF assms] pool_drain_ok [OF assms] by auto

text \<open>
  C4. The pool is safe under every interleaving. Whatever the order in which the threads run, when
  signals and spurious wake-ups come, and however many connections arrive: the queue operations
  never touch memory outside the queue, \<open>active_connections\<close> is never negative and never exceeds
  \<open>max_connections\<close> when that is set, and then the queue always has room for the connection the
  accept loop is about to push, so that the accept loop never sleeps.
\<close>

theorem pool_safe:
  assumes "pool_reachable mc n s" "0 < n"
  shows "mnet_pool_push r k (ps_pool s) \<noteq> None \<and> mnet_pool_pop (ps_pool s) \<noteq> None \<and> pool_drain (ps_pool s) \<noteq> None \<and>
    pool_count (ps_pool s) \<le> queue_capacity mc \<and> 0 \<le> ps_active s \<and>
    (0 < mc \<longrightarrow> ps_active s \<le> mc \<and> ps_main s \<noteq> Push_asleep j \<and>
       (ps_main s = Pushing j \<longrightarrow> pool_count (ps_pool s) < queue_capacity mc))"
proof -
  note R = reachable_ring [OF assms(1), unfolded inv_ring_def] and C = reachable_count [OF assms, unfolded inv_count_def]
    and S = reachable_stop [OF assms(1), unfolded inv_stop_def]
  have q: "ring_ok (ps_pool s)" using R by blast
  have "0 < mc \<and> main_counted (ps_main s) = 1 \<Longrightarrow> pool_count (ps_pool s) < queue_capacity mc"
    using C counted_nonneg [of "ps_workers s"] by (auto simp: queue_capacity_def)
  moreover have "ps_main s = Push_asleep j \<Longrightarrow> pool_count (ps_pool s) = queue_capacity mc" using S R by simp
  ultimately show ?thesis
    using queue_ops_defined [OF q] R C counted_nonneg [of "ps_workers s"] main_counted_nonneg [of "ps_main s"]
    by (auto simp: ring_ok_def)
qed

text \<open>
  Connections are served in the order of their arrival: the workers take them from the queue
  in the order in which they were queued, which is the order in which they were accepted, and none
  is taken twice.
\<close>

theorem pool_in_order:
  assumes "pool_reachable mc n s" "0 < n"
  shows "prefix (ps_picked s) (ps_queued s) \<and> sorted_wrt (<) (ps_queued s) \<and> set (ps_queued s) \<subseteq> {..<ps_accepted s}"
  using reachable_order [OF assms] by (auto simp: inv_order_def sorted_wrt_append)

text \<open>
  C5. No connection leaks and none is closed twice. At every moment the connections that were
  closed are distinct and were accepted, and when the server has stopped every accepted
  connection has been closed and none is counted as active.
\<close>

theorem closed_once:
  assumes "pool_reachable mc n s" "0 < n"
  shows "distinct (ps_closed s) \<and> set (ps_closed s) \<subseteq> {..<ps_accepted s} \<and>
    (ps_main s = Stopped \<longrightarrow> set (ps_closed s) = {..<ps_accepted s} \<and> ps_active s = 0)"
proof -
  note H = reachable_held [OF assms, unfolded inv_held_def]
  let ?rest = "mset (ring_list (ps_pool s)) + sum_list (map held (ps_workers s)) + main_held (ps_main s)"
  have all: "mset [0..<ps_accepted s] = mset (ps_closed s) + ?rest" using H by (simp add: ac_simps)
  then have sub: "mset (ps_closed s) \<subseteq># mset [0..<ps_accepted s]" by simp
  obtain zs where "mset zs = ?rest" using ex_mset [of ?rest] by blast
  then have "mset [0..<ps_accepted s] = mset (ps_closed s @ zs)" using all by simp
  then have "distinct (ps_closed s @ zs)" using mset_eq_imp_distinct_iff distinct_upt by blast
  then have "distinct (ps_closed s)" by simp
  moreover have "set (ps_closed s) \<subseteq> {..<ps_accepted s}"
    using set_mset_mono [OF sub] by auto
  moreover have "set (ps_closed s) = {..<ps_accepted s} \<and> ps_active s = 0" if st: "ps_main s = Stopped"
  proof -
    have e: "\<forall>w\<in>set (ps_workers s). w = Exited" using reachable_stop [OF assms(1)] st by (simp add: inv_stop_def)
    then have "sum_list (map held (ps_workers s)) = {#}" "sum_list (map counted (ps_workers s)) = 0"
      using exited_sums by blast+
    moreover have "pool_count (ps_pool s) = 0"
      using stopped_queue [OF assms(2) reachable_ring [OF assms(1)] reachable_stop [OF assms(1)] e] .
    moreover from this have "ring_list (ps_pool s) = []" by (simp add: ring_list_def)
    ultimately have "mset [0..<ps_accepted s] = mset (ps_closed s)" "ps_active s = 0"
      using all st reachable_count [OF assms] by (simp_all add: inv_count_def)
    then show ?thesis using mset_eq_setD [of "[0..<ps_accepted s]" "ps_closed s"] by (auto simp: atLeast0LessThan)
  qed
  ultimately show ?thesis by blast
qed


text \<open>A step of one of the threads, without help from outside.\<close>

definition thread_step :: "int \<Rightarrow> pool_state \<Rightarrow> pool_state \<Rightarrow> bool" where
  "thread_step mc s s' \<longleftrightarrow> (\<exists>i. worker_step i s s') \<or> main_step mc s s'"

lemma worker_can_step:
  assumes "ring_ok (ps_pool s)" "i < length (ps_workers s)" "ps_workers s ! i \<notin> {Asleep, Exited}"
  shows "\<exists>s'. worker_step i s s'"
proof (cases "ps_workers s ! i")
  case Popping
  obtain r q where "mnet_pool_pop (ps_pool s) = Some (r, q)" using queue_ops_defined(2) [OF assms(1)] by auto
  with Popping assms(2) show ?thesis by (cases r) (blast intro: worker_step.intros)+
qed (use assms in \<open>auto intro: worker_step.intros\<close>)

lemma awake_worker: "0 < sum_list (map awake ws) \<Longrightarrow> \<exists>i<length ws. ws ! i = Popping"
proof -
  have "0 < sum_list (map awake ws) \<Longrightarrow> Popping \<in> set ws"
  proof (induction ws)
    case (Cons w ws)
    then show ?case by (cases w) auto
  qed simp
  then show "0 < sum_list (map awake ws) \<Longrightarrow> \<exists>i<length ws. ws ! i = Popping" by (simp add: in_set_conv_nth)
qed

text \<open>
  C9. A waiting connection is never forgotten. Whenever the queue is not empty, some worker can
  take a step by itself: the signal that announced the connection has not been lost on a worker
  that went to sleep at the wrong moment, and no worker ends while there is work.
\<close>

theorem no_lost_wakeup:
  assumes "pool_reachable mc n s" "0 < n" "pool_count (ps_pool s) > 0"
  shows "\<exists>i s'. worker_step i s s'"
proof -
  note R = reachable_ring [OF assms(1), unfolded inv_ring_def]
  have e: "Exited \<notin> set (ps_workers s)" using reachable_stop [OF assms(1)] assms(3) by (auto simp: inv_stop_def)
  have "\<exists>i<length (ps_workers s). ps_workers s ! i \<notin> {Asleep, Exited}"
  proof (cases "Asleep \<in> set (ps_workers s)")
    case True
    then have "0 < sum_list (map awake (ps_workers s))"
      using reachable_wake [OF assms(1)] assms(3) by (simp add: inv_wake_def)
    then obtain i where "i < length (ps_workers s)" "ps_workers s ! i = Popping" using awake_worker by blast
    then show ?thesis by (intro exI [of _ i]) simp
  next
    case False
    then have "ps_workers s ! 0 \<notin> {Asleep, Exited}" using e R assms(2) by (metis insertE nth_mem singletonD)
    with R assms(2) show ?thesis by blast
  qed
  with worker_can_step R show ?thesis by blast
qed

section \<open>Shutting down\<close>

fun phase :: "main \<Rightarrow> nat" where
  "phase (Refused k) = 3"
| "phase Stopping = 2"
| "phase Joining = 1"
| "phase m = 0"

fun worker_work :: "worker \<Rightarrow> nat" where
  "worker_work Popping = 1"
| "worker_work Leaving = 2"
| "worker_work (Serving k) = 3"
| "worker_work w = 0"

text \<open>The work that is left: that of the workers, and three steps for each queued connection.\<close>

definition work_left :: "pool_state \<Rightarrow> nat" where
  "work_left s = sum_list (map worker_work (ps_workers s)) + 3 * pool_count (ps_pool s)"

definition stop_order :: "(pool_state \<times> pool_state) set" where
  "stop_order = measures [\<lambda>s. phase (ps_main s), work_left]"

lemma worker_step_work: "worker_step i s s' \<Longrightarrow> work_left s' < work_left s"
proof (induction rule: worker_step.induct)
  case (pop i s k q)
  then have "pool_count (ps_pool s) = Suc (pool_count q)"
    by (auto simp: mnet_pool_pop_def ring_get_def split: if_splits option.splits)
  with pop sum_update [OF pop(1), of worker_work "Serving k"] show ?case by (simp add: work_left_def)
next
  case (pop_sleep i s q)
  with sum_update [OF pop_sleep(1), of worker_work Asleep] show ?case by (auto simp: work_left_def dest: pop_wait)
next
  case (pop_end i s q)
  with sum_update [OF pop_end(1), of worker_work Exited] show ?case by (auto simp: work_left_def dest: pop_closed)
next
  case (serve i s k)
  with sum_update [OF serve(1), of worker_work Leaving] show ?case by (simp add: work_left_def)
next
  case (leave i s)
  with sum_update [OF leave(1), of worker_work Popping] show ?case by (simp add: work_left_def)
qed

lemma worker_step_main: "worker_step i s s' \<Longrightarrow> stopping (ps_main s) \<Longrightarrow> ps_main s' = ps_main s"
proof -
  have "stopping m \<Longrightarrow> wake_main m = m" for m by (cases m) auto
  then show "worker_step i s s' \<Longrightarrow> stopping (ps_main s) \<Longrightarrow> ps_main s' = ps_main s" by (auto elim: worker_stepE)
qed

lemma stop_step:
  assumes "thread_step mc s s'" "stopping (ps_main s)"
  shows "(s', s) \<in> stop_order" "stopping (ps_main s')"
proof -
  have "(s', s) \<in> stop_order \<and> stopping (ps_main s')"
  proof (cases "main_step mc s s'")
    case True
    then show ?thesis using assms(2) by (cases rule: main_stepE) (auto simp: stop_order_def)
  next
    case False
    then obtain i where "worker_step i s s'" using assms(1) by (auto simp: thread_step_def)
    from worker_step_work [OF this] worker_step_main [OF this] assms(2) show ?thesis by (simp add: stop_order_def)
  qed
  then show "(s', s) \<in> stop_order" "stopping (ps_main s')" by blast+
qed

lemma stop_progress:
  assumes "pool_reachable mc n s" "stopping (ps_main s)" "ps_main s \<noteq> Stopped"
  shows "\<exists>s'. thread_step mc s s'"
proof -
  have q: "ring_ok (ps_pool s)" using reachable_ring [OF assms(1)] by (simp add: inv_ring_def)
  consider k where "ps_main s = Refused k" | "ps_main s = Stopping" | "ps_main s = Joining"
    using assms(2,3) by (cases "ps_main s") auto
  then show ?thesis
  proof cases
    case 3
    then have a: "Asleep \<notin> set (ps_workers s)" using reachable_stop [OF assms(1)] by (simp add: inv_stop_def)
    show ?thesis
    proof (cases "\<forall>w\<in>set (ps_workers s). w = Exited")
      case True
      with 3 queue_ops_defined(3) [OF q] show ?thesis
        by (auto simp: thread_step_def intro: main_step.join)
    next
      case False
      then obtain i where "i < length (ps_workers s)" "ps_workers s ! i \<notin> {Asleep, Exited}"
        using a by (auto simp: in_set_conv_nth)
      with worker_can_step [OF q] show ?thesis unfolding thread_step_def by blast
    qed
  qed (auto simp: thread_step_def intro: main_step.intros)
qed

lemma reachable_thread: "pool_reachable mc n s \<Longrightarrow> thread_step mc s s' \<Longrightarrow> pool_reachable mc n s'"
  by (auto simp: thread_step_def intro: pool_reachable.intros)

lemma stop_reached:
  "pool_reachable mc n s \<Longrightarrow> stopping (ps_main s) \<Longrightarrow> \<exists>s'. (thread_step mc)\<^sup>*\<^sup>* s s' \<and> ps_main s' = Stopped"
proof (induction s rule: wf_induct_rule [OF wf_measures, of "[\<lambda>s. phase (ps_main s), work_left]", folded stop_order_def])
  case (1 s)
  show ?case
  proof (cases "ps_main s = Stopped")
    case False
    then obtain t where t: "thread_step mc s t" using stop_progress [OF 1(2,3)] by blast
    with 1(1) [OF stop_step(1) [OF t 1(3)] reachable_thread [OF 1(2) t] stop_step(2) [OF t 1(3)]] show ?thesis
      by (auto intro: converse_rtranclp_into_rtranclp)
  qed blast
qed


inductive_simps main_step_blocked: "main_step mc s t"

definition some_worker :: "pool_state \<Rightarrow> pool_state \<Rightarrow> bool" where
  "some_worker s s' \<longleftrightarrow> (\<exists>i. worker_step i s s')"

lemma worker_keeps_blocked: "worker_step i s s' \<Longrightarrow> ps_main s = Blocked \<Longrightarrow> ps_main s' = Blocked"
  by (induction rule: worker_step.induct) auto

lemma workers_keep_blocked:
  "some_worker\<^sup>*\<^sup>* s s' \<Longrightarrow> pool_reachable mc n s \<Longrightarrow> ps_main s = Blocked \<Longrightarrow> pool_reachable mc n s' \<and> ps_main s' = Blocked"
  by (induction rule: rtranclp_induct) (auto simp: some_worker_def dest: worker_keeps_blocked intro: pool_reachable.worker)

text \<open>
  C12. A request to stop is not noticed while \<open>accept\<close> blocks. If \<open>running\<close> is cleared while the accept
  loop is in \<open>accept\<close>, as when a handler calls \<open>mnet_stop\<close> or a signal is handled on a worker's thread,
  then whatever the workers do the loop stays there and no worker ends; only a new connection, an
  interruption or an error of \<open>accept\<close> gets it out, and a connection that comes then is still
  accepted.
\<close>

theorem stop_unnoticed:
  assumes "pool_reachable mc n s" "ps_main s = Blocked" "some_worker\<^sup>*\<^sup>* (s\<lparr>ps_running := False\<rparr>) s'"
  shows "ps_main s' = Blocked \<and> Exited \<notin> set (ps_workers s') \<and>
    (\<forall>t. main_step mc s' t \<longleftrightarrow>
      t \<in> {s'\<lparr>ps_main := Accepted (ps_accepted s'), ps_accepted := ps_accepted s' + 1\<rparr>,
        s'\<lparr>ps_main := Accepting\<rparr>, s'\<lparr>ps_main := Stopping\<rparr>})"
proof -
  have "pool_reachable mc n (s\<lparr>ps_running := False\<rparr>)" using pool_reachable.outside [OF assms(1) outside_step.stop] .
  from workers_keep_blocked [OF assms(3) this] assms(2) have r: "pool_reachable mc n s'" "ps_main s' = Blocked" by simp_all
  moreover have "Exited \<notin> set (ps_workers s')" using reachable_stop [OF r(1)] r(2) by (auto simp: inv_stop_def)
  ultimately show ?thesis by (auto simp: main_step_blocked)
qed

section \<open>A run\<close>

text \<open>One worker, at most two connections: the first connection has been queued, and a stop requested.\<close>

definition queued_one :: pool_state where
  "queued_one =
     \<lparr>ps_pool = \<lparr>pool_slots = [Some 0, None], pool_capacity = 2, pool_head = 0, pool_count = 1, pool_shutting_down = False\<rparr>,
      ps_main = Accepting, ps_workers = [Popping], ps_active = 1, ps_running = True, ps_accepted = 1,
      ps_queued = [0], ps_picked = [], ps_closed = []\<rparr>"

lemma queued_one_reachable: "pool_reachable 2 1 queued_one"
proof -
  let ?s0 = "pool_start 2 1"
  let ?sb = "?s0\<lparr>ps_main := Blocked\<rparr>"
  let ?s1 = "?s0\<lparr>ps_main := Accepted 0, ps_accepted := 1\<rparr>"
  let ?s2 = "?s1\<lparr>ps_main := Sampled 0 0\<rparr>"
  let ?s3 = "?s2\<lparr>ps_main := Pushing 0, ps_active := 1\<rparr>"
  have f: "ps_main ?s0 = Accepting" "ps_running ?s0" "ps_accepted ?s0 = 0" "ps_active ?s0 = 0"
    by (simp_all add: pool_start_def)
  have "pool_reachable 2 1 ?sb" by (rule pool_reachable.main [OF pool_reachable.start main_step.enter_accept [OF f(1,2)]])
  then have "pool_reachable 2 1 ?s1" using pool_reachable.main [OF _ main_step.accept [of ?sb]] f(3) by simp
  then have "pool_reachable 2 1 ?s2" using pool_reachable.main [OF _ main_step.sample [of ?s1 0]] f(4) by simp
  then have "pool_reachable 2 1 ?s3" using pool_reachable.main [OF _ main_step.count [of ?s2 0 0 2]] f(4) by simp
  moreover have "mnet_pool_push True 0 (pool_init 2) = Some (Pushed, ps_pool queued_one)"
    by (simp add: queued_one_def mnet_pool_push_def pool_init_def ring_put_def numeral_2_eq_2)
  then have "main_step 2 ?s3 (?s3\<lparr>ps_main := Accepting, ps_pool := ps_pool queued_one, ps_workers := [Popping],
      ps_queued := ps_queued ?s3 @ [0]\<rparr>)"
    by (intro main_step.push) (auto simp: pool_start_def queue_capacity_def intro: signalled.none)
  moreover have "?s3\<lparr>ps_main := Accepting, ps_pool := ps_pool queued_one, ps_workers := [Popping],
      ps_queued := ps_queued ?s3 @ [0]\<rparr> = queued_one"
    by (simp add: pool_start_def queued_one_def)
  ultimately show ?thesis by (metis pool_reachable.main)
qed

lemma blocked_reachable: "pool_reachable 2 1 (queued_one\<lparr>ps_main := Blocked\<rparr>)"
proof -
  have "main_step 2 queued_one (queued_one\<lparr>ps_main := Blocked\<rparr>)"
    by (rule main_step.enter_accept) (simp_all add: queued_one_def)
  then show ?thesis by (rule pool_reachable.main [OF queued_one_reachable])
qed

theorem pool_safe_witness: "ps_active queued_one \<le> 2 \<and> mnet_pool_pop (ps_pool queued_one) \<noteq> None"
  using pool_safe [OF queued_one_reachable, of True 0 0] by simp

theorem pool_in_order_witness: "prefix (ps_picked queued_one) (ps_queued queued_one) \<and> ps_queued queued_one = [0]"
  using pool_in_order [OF queued_one_reachable] by (simp add: queued_one_def)

theorem closed_once_witness: "distinct (ps_closed queued_one) \<and> ps_accepted queued_one = 1"
  using closed_once [OF queued_one_reachable] by (simp add: queued_one_def)

theorem no_lost_wakeup_witness: "\<exists>i s'. worker_step i queued_one s'"
  using no_lost_wakeup [OF queued_one_reachable] by (simp add: queued_one_def)


theorem stop_unnoticed_witness: "ps_main (queued_one\<lparr>ps_main := Blocked, ps_running := False\<rparr>) = Blocked \<and>
    main_step 2 (queued_one\<lparr>ps_main := Blocked, ps_running := False\<rparr>)
      (queued_one\<lparr>ps_main := Accepted 1, ps_running := False, ps_accepted := 2\<rparr>)"
  using stop_unnoticed [OF blocked_reachable, of "queued_one\<lparr>ps_main := Blocked, ps_running := False\<rparr>"]
  by (simp add: queued_one_def)

end
