(* ===== verification/Socket.thy ===== *)
theory Socket
  imports Mnet_Log
begin

text \<open>
  The listening side of \<^verbatim>\<open>src/src/mnet.c\<close>: \<open>mnet_tcp_listen\<close> goes through the addresses that
  \<open>getaddrinfo\<close> returned and keeps the first socket that can be bound and listened on. What the
  operating system answers is a parameter: for each address the result of \<open>socket\<close>, \<open>setsockopt\<close>,
  \<open>bind\<close> and \<open>listen\<close>. The model records the descriptors that are closed.
\<close>

section \<open>Definitions\<close>

record addr_entry =
  ae_socket :: "int option"
  ae_setsockopt :: bool
  ae_bind :: bool
  ae_listen :: bool

fun listen_loop :: "addr_entry list \<Rightarrow> int list \<Rightarrow> int option \<times> int list" where
  "listen_loop [] closed = (None, closed)"
| "listen_loop (e # es) closed =
     (case ae_socket e of
        None \<Rightarrow> listen_loop es closed
      | Some fd \<Rightarrow>
          if \<not> ae_setsockopt e then listen_loop es (closed @ [fd])
          else if \<not> ae_bind e then listen_loop es (closed @ [fd])
          else if \<not> ae_listen e then listen_loop es (closed @ [fd])
          else (Some fd, closed))"

text \<open>
  \<open>resolve\<close> is \<open>getaddrinfo\<close> on the port as a decimal string: an error code, or the addresses. The
  results are the socket (\<open>None\<close> is \<open>MNET_INVALID_SOCKET\<close>), the descriptors closed, and the host.
\<close>

definition mnet_tcp_listen ::
  "(string \<Rightarrow> int + addr_entry list) \<Rightarrow> nat \<Rightarrow> int \<Rightarrow> 'w host \<Rightarrow> int option \<times> int list \<times> 'w host" where
  "mnet_tcp_listen resolve port backlog h =
     (if backlog \<le> 0 then
        (None, [], mnet_log_msg 0 (''invalid listen backlog '' @ show_int backlog) h)
      else if length (show_nat port) \<ge> 6 then (None, [], h)
      else
        (case resolve (show_nat port) of
           Inl err \<Rightarrow>
             (None, [], mnet_log_msg 0
               (''getaddrinfo failed for port '' @ show_nat port @ '': '' @ show_int err) h)
         | Inr es \<Rightarrow> (case listen_loop es [] of (fd, closed) \<Rightarrow> (fd, closed, h))))"

text \<open>\<open>mnet_close\<close>: the descriptor closed, if any.\<close>

definition mnet_close :: "int option \<Rightarrow> int list" where
  "mnet_close s = (case s of None \<Rightarrow> [] | Some fd \<Rightarrow> [fd])"

section \<open>The first address that works\<close>

text \<open>
  Both ends go through a list of addresses the same way: an address without a socket is passed over,
  the socket of an address that does not work is closed, and the first one that works is kept. The
  sockets created on the way are those of the addresses up to and including the one that is kept.
\<close>

definition created :: "('e \<Rightarrow> int option) \<Rightarrow> ('e \<Rightarrow> bool) \<Rightarrow> 'e list \<Rightarrow> int list" where
  "created sock works es =
     concat (map (mnet_close \<circ> sock) (takeWhile (\<lambda>e. \<not> works e) es)) @
     mnet_close (case find works es of None \<Rightarrow> None | Some e \<Rightarrow> sock e)"

locale address_walk =
  fixes sock :: "'e \<Rightarrow> int option"
    and works :: "'e \<Rightarrow> bool"
    and walk :: "'e list \<Rightarrow> int list \<Rightarrow> int option \<times> int list"
  assumes walk_end: "walk [] closed = (None, closed)"
    and walk_works: "works e \<Longrightarrow> walk (e # es) closed = (sock e, closed)"
    and walk_fails: "\<not> works e \<Longrightarrow> walk (e # es) closed = walk es (closed @ mnet_close (sock e))"
    and works_sock: "works e \<Longrightarrow> sock e \<noteq> None"
begin

lemma walk_first:
  "walk es closed =
     (case find works es of None \<Rightarrow> None | Some e \<Rightarrow> sock e,
      closed @ concat (map (mnet_close \<circ> sock) (takeWhile (\<lambda>e. \<not> works e) es)))"
  by (induction es arbitrary: closed) (simp_all add: walk_end walk_works walk_fails)

lemma walk_none: "fst (walk es closed) = None \<longleftrightarrow> (\<forall>e\<in>set es. \<not> works e)"
  by (auto simp: walk_first find_None_iff find_Some_iff dest: works_sock split: option.splits)

lemma walk_accounts: "walk es closed = (r, closed') \<Longrightarrow> closed' @ mnet_close r = closed @ created sock works es"
  by (auto simp: walk_first created_def)

end

definition usable :: "addr_entry \<Rightarrow> bool" where
  "usable e \<longleftrightarrow> ae_socket e \<noteq> None \<and> ae_setsockopt e \<and> ae_bind e \<and> ae_listen e"

interpretation listening: address_walk ae_socket usable listen_loop
  by unfold_locales (auto simp: usable_def mnet_close_def split: option.splits)

lemmas listen_loop_spec = listening.walk_first

lemma port_string_fits: "port < 65536 \<Longrightarrow> length (show_nat port) < 6"
  using length_radix [of 10 5 port] by (simp add: show_nat_def)

text \<open>
  Listening uses the first address that works and leaks nothing. For every port and every
  behaviour of the operating system, the listening socket is that of the first address for which
  \<open>socket\<close>, \<open>setsockopt\<close>, \<open>bind\<close> and \<open>listen\<close> all succeed, every socket that was created for an
  earlier address has been closed, once and in order, and there is no socket when no address works.
  The port always fits the buffer in which it is printed.
\<close>

theorem mnet_tcp_listen_first:
  assumes "port < 65536" "0 < backlog" "resolve (show_nat port) = Inr es"
  shows "mnet_tcp_listen resolve port backlog h =
    (case find usable es of None \<Rightarrow> None | Some e \<Rightarrow> ae_socket e,
     concat (map (mnet_close \<circ> ae_socket) (takeWhile (\<lambda>e. \<not> usable e) es)), h)"
  using assms port_string_fits [of port] by (simp add: mnet_tcp_listen_def listen_loop_spec)

definition sample_entries :: "addr_entry list" where
  "sample_entries =
     [\<lparr>ae_socket = Some 3, ae_setsockopt = True, ae_bind = False, ae_listen = True\<rparr>,
      \<lparr>ae_socket = None, ae_setsockopt = True, ae_bind = True, ae_listen = True\<rparr>,
      \<lparr>ae_socket = Some 4, ae_setsockopt = True, ae_bind = True, ae_listen = True\<rparr>]"

definition sample_resolve :: "string \<Rightarrow> int + addr_entry list" where
  "sample_resolve p = (if p = ''8080'' then Inr sample_entries else Inl (- 2))"

lemma sample_resolve_8080: "sample_resolve (show_nat 8080) = Inr sample_entries"
  by (simp add: show_nat_def radix.simps digit_char_def sample_resolve_def char_of_def bit_Suc_0_iff)

theorem mnet_tcp_listen_first_witness:
  "mnet_tcp_listen sample_resolve 8080 128
     \<lparr>h_world = (), h_stderr = [], h_alloc = [], h_log_handler = None\<rparr> =
   (Some 4, [3], \<lparr>h_world = (), h_stderr = [], h_alloc = [], h_log_handler = None\<rparr>)"
  by (subst mnet_tcp_listen_first [of 8080 128 sample_resolve sample_entries])
     (simp_all add: sample_resolve_8080, simp add: sample_entries_def usable_def mnet_close_def)

end
