(* ===== verification/Run.thy ===== *)
theory Run
  imports Workers Socket
begin

text \<open>
  \<open>mnet_run\<close> of \<^verbatim>\<open>src/src/mnet_server.c\<close>: the listening socket, the single-threaded accept loop, and
  the start of the worker pool, whose threads are the transition system of \<open>Workers\<close>. What the
  operating system does is a parameter: the addresses, the results of \<open>accept\<close> in their order and
  the results of the thread creations. \<open>running\<close> may be cleared while \<open>accept\<close> blocks or while a
  connection is served, by \<open>sig_handler\<close> or by \<open>mnet_stop\<close> in a handler: each event says so.
\<close>

section \<open>Definitions\<close>

datatype accept_event =
    Client conn bool      \<comment> \<open>a connection; whether \<open>running\<close> is cleared before it has been served\<close>
  | Interrupted bool      \<comment> \<open>\<open>MNET_EINTR\<close>\<close>
  | Accept_error

record sys =
  sys_resolve :: "string \<Rightarrow> int + addr_entry list"
  sys_accepts :: "accept_event list"
  sys_thread_create :: "nat \<Rightarrow> bool"

text \<open>\<open>sig_handler\<close>, with \<open>g_running_app\<close> the application that runs.\<close>

definition sig_handler :: "'w mnet_app option \<Rightarrow> 'w mnet_app option" where
  "sig_handler g_running_app = map_option (app_running_update (\<lambda>_. False)) g_running_app"

definition stop_if :: "bool \<Rightarrow> 'w mnet_app \<Rightarrow> 'w mnet_app" where
  "stop_if b app = (if b then the (sig_handler (Some app)) else app)"

text \<open>
  The single-threaded loop. The flag of the result tells whether the loop is over; it is not when
  the list of events is used up, that is, while \<open>accept\<close> blocks. \<open>None\<close> is undefined behaviour
  while a connection is served. The connections that were closed are returned in their order.
\<close>

fun accept_single ::
  "environment \<Rightarrow> 'w mnet_app \<Rightarrow> accept_event list \<Rightarrow> 'w host \<Rightarrow> (bool \<times> 'w mnet_app \<times> 'w host \<times> conn list) option" where
  "accept_single env app es h =
     (if \<not> app_running app then Some (True, app, h, [])
      else
        case es of
          [] \<Rightarrow> Some (False, app, h, [])
        | Interrupted b # es' \<Rightarrow> accept_single env (stop_if b app) es' h
        | Accept_error # es' \<Rightarrow>
            Some (True, app, mnet_app_log (Some app) 0 ''accept failed, stopping the server'' h, [])
        | Client c b # es' \<Rightarrow>
            if app_max_connections app > 0 \<and> app_active_connections app \<ge> app_max_connections app then
              (case send_simple_error 503 ''Service Unavailable'' ''The server is at its connection limit.''
                      (app_debug app) c
                      (mnet_app_log (Some app) 1
                         (''refused a connection: '' @ show_int (app_active_connections app) @
                          '' active (max_connections)'') h) of
                 (c', h') \<Rightarrow>
                   map_option (\<lambda>(over, app2, h2, cs). (over, app2, h2, c' # cs))
                     (accept_single env (stop_if b app) es' h'))
            else
              (let app1 = app\<lparr>app_active_connections := app_active_connections app + 1\<rparr> in
               case mnet_handle_client env app1 c h of
                 None \<Rightarrow> None
               | Some (c', h', fr) \<Rightarrow>
                   map_option (\<lambda>(over, app2, h2, cs). (over, app2, h2, c' # cs))
                     (accept_single env
                       (stop_if b (app1\<lparr>app_active_connections := app_active_connections app1 - 1\<rparr>)) es' h')))"

declare accept_single.simps [simp del]

text \<open>The workers that start: the creations go on until one fails.\<close>

fun start_workers :: "(nat \<Rightarrow> bool) \<Rightarrow> nat \<Rightarrow> nat \<Rightarrow> nat" where
  "start_workers create i 0 = i"
| "start_workers create i (Suc k) = (if create i then start_workers create (Suc i) k else i)"

text \<open>
  The results of \<open>mnet_run\<close>: an error (the value -1), a single-threaded run that has returned 0 or
  still waits, and a pool that has been started on the listening socket. The first two carry the
  descriptors closed.
\<close>

datatype 'w run_result =
    Run_error "'w mnet_app option" "'w host" "int list"
  | Run_single bool "'w mnet_app" "'w host" "conn list" "int list"
  | Run_pool "'w mnet_app" "'w host" int pool_state "int list"

definition run_single ::
  "environment \<Rightarrow> sys \<Rightarrow> 'w mnet_app \<Rightarrow> int \<Rightarrow> int list \<Rightarrow> 'w host \<Rightarrow> 'w run_result option" where
  "run_single env sy app server closed h =
     (case accept_single env app (sys_accepts sy) h of
        None \<Rightarrow> None
      | Some (over, app', h', cs) \<Rightarrow>
          Some (if over then
                  Run_single True app' (mnet_app_log (Some app') 2 ''server stopped'' h') cs (closed @ mnet_close (Some server))
                else Run_single False app' h' cs closed))"

text \<open>The pool: from its allocation to the message that announces it, when the accept loop begins.\<close>

definition serve_with :: "'w mnet_app \<Rightarrow> int \<Rightarrow> nat \<Rightarrow> int list \<Rightarrow> 'w host \<Rightarrow> 'w run_result" where
  "serve_with app server n closed h =
     Run_pool app
       (mnet_app_log (Some app) 2 (''serving with '' @ show_int (app_workers app) @ '' worker threads'') h)
       server (pool_start (app_max_connections app) n) closed"

definition start_pool :: "sys \<Rightarrow> 'w mnet_app \<Rightarrow> int \<Rightarrow> int list \<Rightarrow> 'w host \<Rightarrow> 'w run_result" where
  "start_pool sy app server closed h =
     (let workers = nat (app_workers app);
          i = start_workers (sys_thread_create sy) 0 workers
      in if i < workers then
           (let h1 = mnet_app_log (Some app) 0
                  (''failed to start worker '' @ show_nat i @ '' of '' @ show_int (app_workers app)) h;
                app1 = app\<lparr>app_workers := int i\<rparr>
            in if i = 0 then Run_error (Some app1) h1 (closed @ mnet_close (Some server))
               else serve_with app1 server i closed h1)
         else serve_with app server i closed h)"

definition run_pool :: "sys \<Rightarrow> 'w mnet_app \<Rightarrow> int \<Rightarrow> int list \<Rightarrow> 'w host \<Rightarrow> 'w run_result" where
  "run_pool sy app server closed h =
     (case malloc (h_alloc h) of
        (slots, al1) \<Rightarrow>
          (case malloc al1 of
             (threads, al2) \<Rightarrow>
               if \<not> slots \<or> \<not> threads then
                 Run_error (Some app) (mnet_log_msg 0 ''failed to allocate the worker pool'' (h\<lparr>h_alloc := al2\<rparr>))
                   (closed @ mnet_close (Some server))
               else start_pool sy app server closed (h\<lparr>h_alloc := al2\<rparr>)))"

definition mnet_run ::
  "environment \<Rightarrow> sys \<Rightarrow> 'w mnet_app option \<Rightarrow> nat \<Rightarrow> 'w host \<Rightarrow> 'w run_result option" where
  "mnet_run env sy app port h =
     (case app of
        None \<Rightarrow> Some (Run_error None h [])
      | Some a \<Rightarrow>
          let a1 = a\<lparr>app_port := int port\<rparr> in
          (case mnet_tcp_listen (sys_resolve sy) port 128 h of
             (None, closed, h1) \<Rightarrow>
               Some (Run_error (Some a1) (mnet_log_msg 0 (''failed to listen on port '' @ show_nat port) h1) closed)
           | (Some server, closed, h1) \<Rightarrow>
               let a2 = a1\<lparr>app_running := True, app_active_connections := 0\<rparr>;
                   h2 = mnet_app_log (Some a2) 2 (''listening on port '' @ show_nat port) h1
               in if app_workers a2 \<le> 1 then run_single env sy a2 server closed h2
                  else Some (run_pool sy a2 server closed h2)))"

text \<open>
  How a run returns: its value, the application at the end and the descriptors closed. A pool returns
  when its accept loop has stopped, in any run of its threads; then the listening socket is closed. A
  run that waits does not return.
\<close>

inductive run_returns :: "'w run_result \<Rightarrow> int \<Rightarrow> 'w mnet_app option \<Rightarrow> int list \<Rightarrow> bool" where
  error: "run_returns (Run_error app h closed) (-1) app closed"
| single: "run_returns (Run_single True app h cs closed) 0 (Some app) closed"
| pool: "pool_reachable (app_max_connections app) n s' \<Longrightarrow> s = pool_start (app_max_connections app) n \<Longrightarrow>
     ps_main s' = Stopped \<Longrightarrow>
     run_returns (Run_pool app h server s closed) 0 (Some app) (closed @ mnet_close (Some server))"

inductive_simps run_returns_simps:
  "run_returns (Run_error app h closed) rc app' sockets"
  "run_returns (Run_single over app h cs closed) rc app' sockets"
  "run_returns (Run_pool app h server s closed) rc app' sockets"

section \<open>One thread\<close>

text \<open>
  What the events amount to: the connections that are accepted, and how the accept loop ends. The
  reference for serving them is one call of \<open>mnet_handle_client\<close> after the other.
\<close>

datatype run_end = Waiting | Cleared | Failed

fun fate :: "accept_event list \<Rightarrow> run_end" where
  "fate [] = Waiting"
| "fate (Client c b # es) = (if b then Cleared else fate es)"
| "fate (Interrupted b # es) = (if b then Cleared else fate es)"
| "fate (Accept_error # es) = Failed"

fun taken :: "accept_event list \<Rightarrow> conn list" where
  "taken [] = []"
| "taken (Client c b # es) = c # (if b then [] else taken es)"
| "taken (Interrupted b # es) = (if b then [] else taken es)"
| "taken (Accept_error # es) = []"

fun serve_all :: "environment \<Rightarrow> 'w mnet_app \<Rightarrow> conn list \<Rightarrow> 'w host \<Rightarrow> (conn list \<times> 'w host) option" where
  "serve_all env app [] h = Some ([], h)"
| "serve_all env app (c # cs) h =
     (case mnet_handle_client env app c h of
        None \<Rightarrow> None
      | Some (c', h', fr) \<Rightarrow> map_option (\<lambda>(cs', h2). (c' # cs', h2)) (serve_all env app cs h'))"

lemma app_ready_frame [simp]:
  "app_ready (app\<lparr>app_port := p\<rparr>) = app_ready app"
  "app_ready (app\<lparr>app_running := b\<rparr>) = app_ready app"
  "app_ready (app\<lparr>app_active_connections := n\<rparr>) = app_ready app"
  by (simp_all add: app_ready_def wf_app_def routes_fit_def registered_def request_timeout_def Let_def)

lemma mnet_handle_client_defined:
  assumes "app_ready app"
  shows "\<exists>c' h' fr. mnet_handle_client env app c h = Some (c', h', fr)"
proof -
  let ?T = "max (the (request_timeout app True)) (the (request_timeout app False))"
  have "\<forall>keep t. request_timeout app keep = Some t \<longrightarrow> t \<le> ?T" by (auto simp: all_bool_eq)
  from handle_client_outcome [OF assms this, of env False "[]" c h] show ?thesis
    by (auto simp: mnet_handle_client_def)
qed

lemma serve_all_defined: "app_ready app \<Longrightarrow> \<exists>cs' h'. serve_all env app cs h = Some (cs', h') \<and> length cs' = length cs"
proof (induction cs arbitrary: h)
  case (Cons c cs)
  obtain c' h' fr where "mnet_handle_client env app c h = Some (c', h', fr)"
    using mnet_handle_client_defined [OF Cons.prems] by blast
  with Cons.IH [OF Cons.prems, of h'] show ?case by auto
qed simp

lemma stop_if_simps [simp]: "stop_if False app = app" "stop_if True app = app\<lparr>app_running := False\<rparr>"
  by (simp_all add: stop_if_def sig_handler_def)

lemma accept_stopped: "\<not> app_running app \<Longrightarrow> accept_single env app es h = Some (True, app, h, [])"
  by (simp add: accept_single.simps)

lemma accept_client:
  assumes "app_running app" "app_active_connections app = 0"
    "mnet_handle_client env (app\<lparr>app_active_connections := 1\<rparr>) c h = Some (c', h', fr)"
  shows "accept_single env app (Client c b # es) h =
    map_option (\<lambda>(over, app2, h2, cs). (over, app2, h2, c' # cs)) (accept_single env (stop_if b app) es h')"
proof -
  have eq: "app\<lparr>app_active_connections := 0\<rparr> = app" using assms(2) by simp
  have "\<not> (app_max_connections app > 0 \<and> app_active_connections app \<ge> app_max_connections app)" using assms(2) by simp
  then have "accept_single env app (Client c b # es) h =
      (let app1 = app\<lparr>app_active_connections := app_active_connections app + 1\<rparr> in
       case mnet_handle_client env app1 c h of
         None \<Rightarrow> None
       | Some (c', h', fr) \<Rightarrow>
           map_option (\<lambda>(over, app2, h2, cs). (over, app2, h2, c' # cs))
             (accept_single env (stop_if b (app1\<lparr>app_active_connections := app_active_connections app1 - 1\<rparr>)) es h'))"
    using assms(1) by (subst accept_single.simps) (simp only: if_False not_True_eq_False accept_event.case list.case simp_thms if_True)
  then show ?thesis by (simp add: Let_def assms(2,3) eq)
qed

text \<open>The log line of an \<open>accept\<close> that fails.\<close>

definition note_failure :: "'w mnet_app \<Rightarrow> run_end \<Rightarrow> 'w host \<Rightarrow> 'w host" where
  "note_failure app f h =
     (if f = Failed then mnet_app_log (Some app) 0 ''accept failed, stopping the server'' h else h)"

lemma accept_single_serves:
  assumes "app_ready app" "app_running app" "app_active_connections app = 0"
  shows "accept_single env app es h =
    map_option (\<lambda>(cs, h'). (fate es \<noteq> Waiting, app\<lparr>app_running := fate es \<noteq> Cleared\<rparr>, note_failure app (fate es) h', cs))
      (serve_all env (app\<lparr>app_active_connections := 1\<rparr>) (taken es) h)"
proof (induction es arbitrary: h rule: fate.induct)
  case 1
  then show ?case using assms by (simp add: accept_single.simps note_failure_def)
next
  case (2 c b es)
  obtain c' h' fr where m: "mnet_handle_client env (app\<lparr>app_active_connections := 1\<rparr>) c h = Some (c', h', fr)"
    using mnet_handle_client_defined [of "app\<lparr>app_active_connections := 1\<rparr>"] assms(1) by fastforce
  show ?case
  proof (cases b)
    case True
    then show ?thesis by (simp add: accept_client [OF assms(2,3) m] accept_stopped m note_failure_def)
  next
    case False
    then show ?thesis
      by (simp add: accept_client [OF assms(2,3) m] m 2 [OF False] option.map_comp comp_def split_def)
  qed
next
  case (3 b es)
  have "accept_single env app (Interrupted b # es) h = accept_single env (stop_if b app) es h"
    using assms(2) by (simp add: accept_single.simps [of env app])
  then show ?case using 3 by (cases b) (simp_all add: accept_stopped note_failure_def)
next
  case (4 es)
  then show ?case using assms by (simp add: accept_single.simps note_failure_def)
qed

text \<open>
  C32. The server with one thread serves every connection it accepts. Whatever arrives and in
  whatever order, and whatever \<open>max_connections\<close> says, the accept loop calls \<open>mnet_handle_client\<close>
  on each connection in the order of arrival and never refuses one; it goes on after an interrupted
  \<open>accept\<close>, ends when \<open>running\<close> is cleared or \<open>accept\<close> fails, and then \<open>mnet_run\<close> returns 0 with
  no connection counted as active and the listening socket closed.
\<close>

theorem mnet_run_single:
  assumes "app_ready app" "app_workers app \<le> 1"
    "mnet_tcp_listen (sys_resolve sy) port 128 h = (Some server, closed, h1)"
  shows "\<exists>cs h2 h3. let a = app\<lparr>app_port := int port, app_running := True, app_active_connections := 0\<rparr>;
      f = fate (sys_accepts sy) in
    serve_all env (a\<lparr>app_active_connections := 1\<rparr>) (taken (sys_accepts sy))
      (mnet_app_log (Some a) 2 (''listening on port '' @ show_nat port) h1) = Some (cs, h2) \<and>
    length cs = length (taken (sys_accepts sy)) \<and>
    mnet_run env sy (Some app) port h =
      Some (Run_single (f \<noteq> Waiting) (a\<lparr>app_running := f \<noteq> Cleared\<rparr>) h3 cs (closed @ (if f = Waiting then [] else [server])))"
proof -
  let ?a = "app\<lparr>app_port := int port, app_running := True, app_active_connections := 0\<rparr>"
  let ?h = "mnet_app_log (Some ?a) 2 (''listening on port '' @ show_nat port) h1"
  obtain cs h2 where s: "serve_all env (?a\<lparr>app_active_connections := 1\<rparr>) (taken (sys_accepts sy)) ?h = Some (cs, h2)"
    "length cs = length (taken (sys_accepts sy))"
    using serve_all_defined [of "?a\<lparr>app_active_connections := 1\<rparr>" env "taken (sys_accepts sy)" ?h] assms(1) by auto
  then have "accept_single env ?a (sys_accepts sy) ?h =
      Some (fate (sys_accepts sy) \<noteq> Waiting, ?a\<lparr>app_running := fate (sys_accepts sy) \<noteq> Cleared\<rparr>,
        note_failure ?a (fate (sys_accepts sy)) h2, cs)"
    using accept_single_serves [of ?a env "sys_accepts sy" ?h] assms(1) by simp
  with s assms(2,3) show ?thesis
    by (auto simp: mnet_run_def run_single_def mnet_close_def Let_def)
qed

section \<open>Several threads\<close>

lemma start_workers_le: "i \<le> start_workers create i k \<and> start_workers create i k \<le> i + k"
  by (induction create i k rule: start_workers.induct) auto

lemma start_workers_created: "i \<le> j \<Longrightarrow> j < start_workers create i k \<Longrightarrow> create j"
  by (induction create i k rule: start_workers.induct) (auto split: if_splits simp: le_less dest!: Suc_leI)

lemma start_workers_stop: "start_workers create i k < i + k \<Longrightarrow> \<not> create (start_workers create i k)"
  by (induction create i k rule: start_workers.induct) auto

lemma serve_with_pool:
  "serve_with app server n closed h = Run_pool app' h' server' s closed' \<Longrightarrow>
    app' = app \<and> s = pool_start (app_max_connections app) n \<and> server' = server \<and> closed' = closed"
  unfolding serve_with_def by blast

lemma run_pool_result:
  fixes app :: "'w mnet_app"
  assumes "run_pool sy app server closed h = Run_pool app' h' server' s closed'"
  defines "i \<equiv> start_workers (sys_thread_create sy) 0 (nat (app_workers app))"
  shows "\<not> (i < nat (app_workers app) \<and> i = 0)"
    "app' = (if i < nat (app_workers app) then app\<lparr>app_workers := int i\<rparr> else app)"
    "s = pool_start (app_max_connections app) i" "server' = server" "closed' = closed"
proof -
  obtain h1 where "start_pool sy app server closed h1 = Run_pool app' h' server' s closed'"
    using assms(1) by (auto simp: run_pool_def split: prod.splits if_split_asm)
  then have "(i < nat (app_workers app) \<longrightarrow> i \<noteq> 0 \<and>
      (\<exists>h2. serve_with (app\<lparr>app_workers := int i\<rparr>) server i closed h2 = Run_pool app' h' server' s closed')) \<and>
    (\<not> i < nat (app_workers app) \<longrightarrow> serve_with app server i closed h1 = Run_pool app' h' server' s closed')"
    unfolding start_pool_def i_def [symmetric] Let_def by (auto split: if_split_asm)
  then show "\<not> (i < nat (app_workers app) \<and> i = 0)"
    "app' = (if i < nat (app_workers app) then app\<lparr>app_workers := int i\<rparr> else app)"
    "s = pool_start (app_max_connections app) i" "server' = server" "closed' = closed"
    by (auto dest!: serve_with_pool split: if_splits)
qed

lemma mnet_run_pooled:
  assumes "mnet_run env sy (Some app) port h = Some (Run_pool app' h' server s closed)"
  shows "1 < app_workers app \<and>
    (\<exists>h1. run_pool sy (app\<lparr>app_port := int port, app_running := True, app_active_connections := 0\<rparr>) server closed h1 =
      Run_pool app' h' server s closed)"
proof -
  obtain fd cl h1 where l: "mnet_tcp_listen (sys_resolve sy) port 128 h = (fd, cl, h1)" by (metis surj_pair)
  have no: "run_single env sy a fd' cl' h'' \<noteq> Some (Run_pool app' h' server s closed)" for a fd' cl' h''
    by (simp add: run_single_def split: option.splits prod.splits)
  show ?thesis
  proof (cases fd)
    case (Some sv)
    let ?a = "app\<lparr>app_port := int port, app_running := True, app_active_connections := 0\<rparr>"
    let ?h = "mnet_app_log (Some ?a) 2 (''listening on port '' @ show_nat port) h1"
    have w: "1 < app_workers app" and r: "run_pool sy ?a sv cl ?h = Run_pool app' h' server s closed"
      using assms l Some no by (auto simp: mnet_run_def Let_def split: if_split_asm)
    then show ?thesis using run_pool_result [OF r] by auto
  qed (use assms l in \<open>simp add: mnet_run_def Let_def\<close>)
qed

text \<open>
  The pool that \<open>mnet_run\<close> starts. When more than one worker is configured and \<open>mnet_run\<close> does
  not return -1, the pool has at least one worker, exactly the workers whose threads were created
  before the first failure, \<open>app->workers\<close> is their number, and the state is the start of the
  transition system of the pool with that many workers.
\<close>

theorem mnet_run_pool:
  assumes "mnet_run env sy (Some app) port h = Some (Run_pool app' h' server s closed)"
  shows "\<exists>n>0. int n \<le> app_workers app \<and> app_workers app' = int n \<and> length (ps_workers s) = n \<and>
    (\<forall>i<n. sys_thread_create sy i) \<and> (int n < app_workers app \<longrightarrow> \<not> sys_thread_create sy n) \<and>
    s = pool_start (app_max_connections app') n"
proof -
  let ?n = "start_workers (sys_thread_create sy) 0 (nat (app_workers app))"
  let ?a = "app\<lparr>app_port := int port, app_running := True, app_active_connections := 0\<rparr>"
  have w1: "1 < app_workers app" and "\<exists>h1. run_pool sy ?a server closed h1 = Run_pool app' h' server s closed"
    using mnet_run_pooled [OF assms] by simp_all
  then have r: "?n = nat (app_workers app) \<or> 0 < ?n"
    "app' = (if ?n < nat (app_workers app) then ?a\<lparr>app_workers := int ?n\<rparr> else ?a)"
    "s = pool_start (app_max_connections app) ?n"
    using run_pool_result [of sy ?a server closed] start_workers_le [of 0 "sys_thread_create sy" "nat (app_workers app)"] by auto
  have le: "?n \<le> nat (app_workers app)" using start_workers_le [of 0 "sys_thread_create sy" "nat (app_workers app)"] by simp
  have mc: "app_max_connections app' = app_max_connections app" and w: "app_workers app' = int ?n"
    using w1 r(2) le by (auto split: if_splits)
  have "s = pool_start (app_max_connections app') ?n" unfolding mc by (rule r(3))
  moreover have "\<forall>i<?n. sys_thread_create sy i" by (blast intro: start_workers_created [of 0])
  moreover have "?n < nat (app_workers app) \<Longrightarrow> \<not> sys_thread_create sy ?n"
    using start_workers_stop [of "sys_thread_create sy" 0 "nat (app_workers app)"] by simp
  moreover have "length (ps_workers s) = ?n" by (simp add: r(3) pool_start_def)
  ultimately show ?thesis using w1 r(1) le w by (intro exI [of _ ?n]) auto
qed

text \<open>A pool can always be stopped: a stop request, the end of the accept loop, and the shutdown.\<close>

lemma pool_can_stop: "\<exists>s. pool_reachable mc n s \<and> ps_main s = Stopped"
proof -
  let ?s1 = "(pool_start mc n)\<lparr>ps_running := False\<rparr>" and ?s2 = "(pool_start mc n)\<lparr>ps_running := False, ps_main := Stopping\<rparr>"
  have "pool_reachable mc n ?s1" by (rule pool_reachable.outside [OF pool_reachable.start outside_step.stop])
  moreover have "main_step mc ?s1 (?s1\<lparr>ps_main := Stopping\<rparr>)" by (rule main_step.leave_loop) (simp_all add: pool_start_def)
  ultimately have r: "pool_reachable mc n ?s2" by (auto dest: pool_reachable.main)
  then obtain s' where s: "(thread_step mc)\<^sup>*\<^sup>* ?s2 s'" "ps_main s' = Stopped" using stop_reached [OF r] by auto
  from s(1) r have "pool_reachable mc n s'" by (induction rule: rtranclp_induct) (auto intro: reachable_thread)
  with s(2) show ?thesis by blast
qed

lemma pool_returns:
  "run_returns (Run_pool app h server (pool_start (app_max_connections app) n) closed) rc app' sockets \<longleftrightarrow>
     rc = 0 \<and> app' = Some app \<and> sockets = closed @ mnet_close (Some server)"
  using pool_can_stop [of "app_max_connections app" n] by (auto simp: run_returns_simps)

section \<open>Witnesses\<close>

definition sample_sys :: "accept_event list \<Rightarrow> sys" where
  "sample_sys es = \<lparr>sys_resolve = sample_resolve, sys_accepts = es, sys_thread_create = (\<lambda>i. i < 1)\<rparr>"

definition silent :: conn where "silent = \<lparr>c_clock = 0, c_inbox = [Eof 5], c_sent = []\<rparr>"

lemma sample_listen: "mnet_tcp_listen (sys_resolve (sample_sys es)) 8080 128 h = (Some 4, [3], h)"
  using port_string_fits [of 8080]
  by (simp add: sample_sys_def mnet_tcp_listen_def sample_resolve_8080 listen_loop_spec)
     (simp add: sample_entries_def usable_def mnet_close_def)

theorem mnet_run_single_witness:
  "\<exists>app' h' c1 c2. mnet_run sample_env
      (sample_sys [Client silent False, Interrupted False, Client silent True, Client silent True])
      (Some sample_app) 8080 sample_host = Some (Run_single True app' h' [c1, c2] [3, 4]) \<and> \<not> app_running app'"
proof -
  let ?sy = "sample_sys [Client silent False, Interrupted False, Client silent True, Client silent True]"
  have w: "app_workers sample_app \<le> 1" by (simp add: sample_app_def zero_app_def)
  have e: "sys_accepts ?sy = [Client silent False, Interrupted False, Client silent True, Client silent True]"
    by (simp add: sample_sys_def)
  show ?thesis
    using mnet_run_single [OF sample_app_ready w sample_listen, of
      "[Client silent False, Interrupted False, Client silent True, Client silent True]" sample_env sample_host]
    by (auto simp: Let_def e length_Suc_conv numeral_2_eq_2)
qed

theorem mnet_run_pool_witness:
  "\<exists>app' h' s. mnet_run sample_env (sample_sys []) (Some (sample_app\<lparr>app_workers := 2\<rparr>)) 8080 sample_host =
      Some (Run_pool app' h' 4 s [3]) \<and> app_workers app' = 1 \<and> length (ps_workers s) = 1"
proof -
  have "start_workers (sys_thread_create (sample_sys [])) 0 2 = 1" by (simp add: sample_sys_def numeral_2_eq_2)
  then obtain app' h' s where r:
    "mnet_run sample_env (sample_sys []) (Some (sample_app\<lparr>app_workers := 2\<rparr>)) 8080 sample_host =
      Some (Run_pool app' h' 4 s [3])"
    by (simp add: mnet_run_def sample_listen run_pool_def start_pool_def serve_with_def Let_def sample_host_def)
  from mnet_run_pool [OF r] obtain n where n: "0 < n" "int n \<le> 2" "app_workers app' = int n"
    "length (ps_workers s) = n" "\<forall>i<n. i < 1" by (auto simp: sample_sys_def)
  then have "n = 1" by (metis less_one nat_neq_iff not_less_zero One_nat_def)
  with n r show ?thesis by auto
qed

end
