(* ===== verification/Locking.thy ===== *)
theory Locking
  imports Workers
begin

text \<open>
  The threads of the pool statement by statement. \<open>Workers\<close> takes a critical section of the pool's
  mutex as one step; here \<open>mnet_pool_push\<close>, \<open>mnet_pool_pop\<close>, \<open>mnet_worker_main\<close>, the accept loop and
  \<open>mnet_pool_shutdown\<close> of \<^verbatim>\<open>src/src/mnet_server.c\<close> run one statement at a time, in any interleaving,
  with the mutex and the condition variables of \<^verbatim>\<open>src/src/mnet_internal.h\<close> as POSIX and Windows
  document them: \<open>mnet_mutex_lock\<close> blocks while another thread holds the mutex, \<open>mnet_cond_wait\<close>
  releases it and sleeps in one step and takes it again before it returns, a signal wakes one
  sleeper and a broadcast all of them, and a sleeper may wake up spuriously. The theorem is that the
  mutex does its work: each of these runs is a run of \<open>Workers\<close>, up to the section in progress.
\<close>

section \<open>Definitions\<close>

datatype thread = Main_thread | Worker_thread nat

text \<open>\<open>None\<close>: the caller blocks.\<close>

definition mnet_mutex_lock :: "thread \<Rightarrow> thread option \<Rightarrow> thread option option" where
  "mnet_mutex_lock t holder = (if holder = None then Some (Some t) else None)"

text \<open>\<open>None\<close>: unlocking a mutex that the thread does not hold, which is undefined.\<close>

definition mnet_mutex_unlock :: "thread \<Rightarrow> thread option \<Rightarrow> thread option option" where
  "mnet_mutex_unlock t holder = (if holder = Some t then Some None else None)"

text \<open>Where a worker is: each constructor stands in front of the statement its name says.\<close>

datatype worker_pc =
    W_lock
  | W_test            \<comment> \<open>\<open>while (count == 0 && !shutting_down)\<close>\<close>
  | W_wait
  | W_sleep
  | W_check           \<comment> \<open>\<open>if (count == 0)\<close>\<close>
  | W_closed          \<comment> \<open>unlock and return -1\<close>
  | W_read            \<comment> \<open>\<open>out = slots[head]\<close>\<close>
  | W_advance nat     \<comment> \<open>\<open>head = (head + 1) % capacity\<close>\<close>
  | W_drop nat        \<comment> \<open>\<open>count--\<close>\<close>
  | W_signal nat      \<comment> \<open>\<open>mnet_cond_signal(&not_full)\<close>\<close>
  | W_unlock nat      \<comment> \<open>unlock and return 0\<close>
  | W_serve nat
  | W_leave_lock
  | W_leave           \<comment> \<open>\<open>active_connections--\<close>\<close>
  | W_leave_unlock
  | W_exit

text \<open>Where the accept loop is.\<close>

datatype main_pc =
    M_accept                \<comment> \<open>\<open>while (running)\<close>\<close>
  | M_blocked               \<comment> \<open>in \<open>accept\<close>\<close>
  | M_sample_lock nat
  | M_sample nat            \<comment> \<open>\<open>active = active_connections\<close>\<close>
  | M_sample_unlock nat int
  | M_limit nat int         \<comment> \<open>\<open>if (max_connections > 0 && active >= max_connections)\<close>\<close>
  | M_count_lock nat int
  | M_count nat int         \<comment> \<open>\<open>active_connections++\<close>\<close>
  | M_count_unlock nat
  | M_push_lock nat
  | M_push_test nat         \<comment> \<open>\<open>while (count == capacity && !shutting_down)\<close>\<close>
  | M_push_running nat      \<comment> \<open>\<open>if (!running)\<close>\<close>
  | M_push_stop nat         \<comment> \<open>\<open>shutting_down = 1; break\<close>\<close>
  | M_push_wait nat
  | M_push_sleep nat
  | M_push_check nat        \<comment> \<open>\<open>if (shutting_down)\<close>\<close>
  | M_push_refused nat      \<comment> \<open>unlock and return -1\<close>
  | M_push_store nat        \<comment> \<open>\<open>slots[(head + count) % capacity] = client\<close>\<close>
  | M_push_count nat        \<comment> \<open>\<open>count++\<close>\<close>
  | M_push_signal nat
  | M_push_unlock           \<comment> \<open>unlock and return 0\<close>
  | M_undo_lock nat
  | M_undo nat              \<comment> \<open>\<open>active_connections--\<close>\<close>
  | M_undo_unlock nat
  | M_undo_close nat
  | M_stop_lock
  | M_stop_flag             \<comment> \<open>\<open>shutting_down = 1\<close>\<close>
  | M_stop_not_empty        \<comment> \<open>\<open>mnet_cond_broadcast(&not_empty)\<close>\<close>
  | M_stop_not_full
  | M_stop_unlock
  | M_join
  | M_done

record lock_state =
  ls_pool :: "nat mnet_pool"
  ls_holder :: "thread option"
  ls_main :: main_pc
  ls_workers :: "worker_pc list"
  ls_active :: int
  ls_running :: bool
  ls_accepted :: nat
  ls_closed :: "nat list"

definition lock_start :: "int \<Rightarrow> nat \<Rightarrow> lock_state" where
  "lock_start max_connections n =
     \<lparr>ls_pool = pool_init (queue_capacity max_connections), ls_holder = None, ls_main = M_accept,
      ls_workers = replicate n W_lock, ls_active = 0, ls_running = True, ls_accepted = 0, ls_closed = []\<rparr>"

definition goto_w :: "nat \<Rightarrow> worker_pc \<Rightarrow> lock_state \<Rightarrow> lock_state" where
  "goto_w i pc f = f\<lparr>ls_workers := (ls_workers f)[i := pc]\<rparr>"

definition at_w :: "nat \<Rightarrow> worker_pc \<Rightarrow> lock_state \<Rightarrow> bool" where
  "at_w i pc f \<longleftrightarrow> i < length (ls_workers f) \<and> ls_workers f ! i = pc"

abbreviation goto_m :: "main_pc \<Rightarrow> lock_state \<Rightarrow> lock_state" where
  "goto_m pc f \<equiv> f\<lparr>ls_main := pc\<rparr>"

text \<open>\<open>mnet_cond_signal\<close> and \<open>mnet_cond_broadcast\<close>: who wakes up goes on by taking the mutex.\<close>

inductive signal_not_empty :: "worker_pc list \<Rightarrow> worker_pc list \<Rightarrow> bool" where
  nobody: "W_sleep \<notin> set ws \<Longrightarrow> signal_not_empty ws ws"
| somebody: "i < length ws \<Longrightarrow> ws ! i = W_sleep \<Longrightarrow> signal_not_empty ws (ws[i := W_lock])"

fun broadcast_not_empty :: "worker_pc \<Rightarrow> worker_pc" where
  "broadcast_not_empty W_sleep = W_lock"
| "broadcast_not_empty w = w"

fun signal_not_full :: "main_pc \<Rightarrow> main_pc" where
  "signal_not_full (M_push_sleep k) = M_push_lock k"
| "signal_not_full m = m"

text \<open>\<open>mnet_worker_main\<close> with \<open>mnet_pool_pop\<close>.\<close>

inductive worker_run :: "nat \<Rightarrow> lock_state \<Rightarrow> lock_state \<Rightarrow> bool" for i :: nat where
  lock: "at_w i W_lock f \<Longrightarrow> mnet_mutex_lock (Worker_thread i) (ls_holder f) = Some h \<Longrightarrow>
     worker_run i f (goto_w i W_test (f\<lparr>ls_holder := h\<rparr>))"
| test_wait: "at_w i W_test f \<Longrightarrow> pool_count (ls_pool f) = 0 \<Longrightarrow> \<not> pool_shutting_down (ls_pool f) \<Longrightarrow>
     worker_run i f (goto_w i W_wait f)"
| test_go: "at_w i W_test f \<Longrightarrow> pool_count (ls_pool f) \<noteq> 0 \<or> pool_shutting_down (ls_pool f) \<Longrightarrow>
     worker_run i f (goto_w i W_check f)"
| wait: "at_w i W_wait f \<Longrightarrow> mnet_mutex_unlock (Worker_thread i) (ls_holder f) = Some h \<Longrightarrow>
     worker_run i f (goto_w i W_sleep (f\<lparr>ls_holder := h\<rparr>))"
| check_closed: "at_w i W_check f \<Longrightarrow> pool_count (ls_pool f) = 0 \<Longrightarrow> worker_run i f (goto_w i W_closed f)"
| check_go: "at_w i W_check f \<Longrightarrow> pool_count (ls_pool f) \<noteq> 0 \<Longrightarrow> worker_run i f (goto_w i W_read f)"
| closed: "at_w i W_closed f \<Longrightarrow> mnet_mutex_unlock (Worker_thread i) (ls_holder f) = Some h \<Longrightarrow>
     worker_run i f (goto_w i W_exit (f\<lparr>ls_holder := h\<rparr>))"
| read: "at_w i W_read f \<Longrightarrow> pool_head (ls_pool f) < length (pool_slots (ls_pool f)) \<Longrightarrow>
     pool_slots (ls_pool f) ! pool_head (ls_pool f) = Some k \<Longrightarrow> worker_run i f (goto_w i (W_advance k) f)"
| advance: "at_w i (W_advance k) f \<Longrightarrow> pool_capacity (ls_pool f) \<noteq> 0 \<Longrightarrow>
     worker_run i f (goto_w i (W_drop k)
       (f\<lparr>ls_pool := (ls_pool f)\<lparr>pool_head := (pool_head (ls_pool f) + 1) mod pool_capacity (ls_pool f)\<rparr>\<rparr>))"
| drop: "at_w i (W_drop k) f \<Longrightarrow>
     worker_run i f (goto_w i (W_signal k) (f\<lparr>ls_pool := (ls_pool f)\<lparr>pool_count := pool_count (ls_pool f) - 1\<rparr>\<rparr>))"
| signal: "at_w i (W_signal k) f \<Longrightarrow>
     worker_run i f (goto_w i (W_unlock k) (f\<lparr>ls_main := signal_not_full (ls_main f)\<rparr>))"
| unlock: "at_w i (W_unlock k) f \<Longrightarrow> mnet_mutex_unlock (Worker_thread i) (ls_holder f) = Some h \<Longrightarrow>
     worker_run i f (goto_w i (W_serve k) (f\<lparr>ls_holder := h\<rparr>))"
| serve: "at_w i (W_serve k) f \<Longrightarrow> worker_run i f (goto_w i W_leave_lock (f\<lparr>ls_closed := ls_closed f @ [k]\<rparr>))"
| leave_lock: "at_w i W_leave_lock f \<Longrightarrow> mnet_mutex_lock (Worker_thread i) (ls_holder f) = Some h \<Longrightarrow>
     worker_run i f (goto_w i W_leave (f\<lparr>ls_holder := h\<rparr>))"
| leave: "at_w i W_leave f \<Longrightarrow> worker_run i f (goto_w i W_leave_unlock (f\<lparr>ls_active := ls_active f - 1\<rparr>))"
| leave_unlock: "at_w i W_leave_unlock f \<Longrightarrow> mnet_mutex_unlock (Worker_thread i) (ls_holder f) = Some h \<Longrightarrow>
     worker_run i f (goto_w i W_lock (f\<lparr>ls_holder := h\<rparr>))"

text \<open>The accept loop with \<open>mnet_pool_push\<close>, and \<open>mnet_pool_shutdown\<close>.\<close>

inductive main_run :: "int \<Rightarrow> lock_state \<Rightarrow> lock_state \<Rightarrow> bool" for max_connections :: int where
  enter_accept: "ls_main f = M_accept \<Longrightarrow> ls_running f \<Longrightarrow> main_run max_connections f (goto_m M_blocked f)"
| accept: "ls_main f = M_blocked \<Longrightarrow>
     main_run max_connections f (goto_m (M_sample_lock (ls_accepted f)) (f\<lparr>ls_accepted := ls_accepted f + 1\<rparr>))"
| accept_interrupted: "ls_main f = M_blocked \<Longrightarrow> main_run max_connections f (goto_m M_accept f)"
| accept_failed: "ls_main f = M_blocked \<Longrightarrow> main_run max_connections f (goto_m M_stop_lock f)"
| leave_loop: "ls_main f = M_accept \<Longrightarrow> \<not> ls_running f \<Longrightarrow> main_run max_connections f (goto_m M_stop_lock f)"
| sample_lock: "ls_main f = M_sample_lock k \<Longrightarrow> mnet_mutex_lock Main_thread (ls_holder f) = Some h \<Longrightarrow>
     main_run max_connections f (goto_m (M_sample k) (f\<lparr>ls_holder := h\<rparr>))"
| sample: "ls_main f = M_sample k \<Longrightarrow> main_run max_connections f (goto_m (M_sample_unlock k (ls_active f)) f)"
| sample_unlock: "ls_main f = M_sample_unlock k a \<Longrightarrow> mnet_mutex_unlock Main_thread (ls_holder f) = Some h \<Longrightarrow>
     main_run max_connections f (goto_m (M_limit k a) (f\<lparr>ls_holder := h\<rparr>))"
| refuse: "ls_main f = M_limit k a \<Longrightarrow> max_connections > 0 \<and> a \<ge> max_connections \<Longrightarrow>
     main_run max_connections f (goto_m M_accept (f\<lparr>ls_closed := ls_closed f @ [k]\<rparr>))"
| admit: "ls_main f = M_limit k a \<Longrightarrow> \<not> (max_connections > 0 \<and> a \<ge> max_connections) \<Longrightarrow>
     main_run max_connections f (goto_m (M_count_lock k a) f)"
| count_lock: "ls_main f = M_count_lock k a \<Longrightarrow> mnet_mutex_lock Main_thread (ls_holder f) = Some h \<Longrightarrow>
     main_run max_connections f (goto_m (M_count k a) (f\<lparr>ls_holder := h\<rparr>))"
| count: "ls_main f = M_count k a \<Longrightarrow>
     main_run max_connections f (goto_m (M_count_unlock k) (f\<lparr>ls_active := ls_active f + 1\<rparr>))"
| count_unlock: "ls_main f = M_count_unlock k \<Longrightarrow> mnet_mutex_unlock Main_thread (ls_holder f) = Some h \<Longrightarrow>
     main_run max_connections f (goto_m (M_push_lock k) (f\<lparr>ls_holder := h\<rparr>))"
| push_lock: "ls_main f = M_push_lock k \<Longrightarrow> mnet_mutex_lock Main_thread (ls_holder f) = Some h \<Longrightarrow>
     main_run max_connections f (goto_m (M_push_test k) (f\<lparr>ls_holder := h\<rparr>))"
| push_full: "ls_main f = M_push_test k \<Longrightarrow>
     pool_count (ls_pool f) = pool_capacity (ls_pool f) \<and> \<not> pool_shutting_down (ls_pool f) \<Longrightarrow>
     main_run max_connections f (goto_m (M_push_running k) f)"
| push_room: "ls_main f = M_push_test k \<Longrightarrow>
     \<not> (pool_count (ls_pool f) = pool_capacity (ls_pool f) \<and> \<not> pool_shutting_down (ls_pool f)) \<Longrightarrow>
     main_run max_connections f (goto_m (M_push_check k) f)"
| push_not_running: "ls_main f = M_push_running k \<Longrightarrow> \<not> ls_running f \<Longrightarrow>
     main_run max_connections f (goto_m (M_push_stop k) f)"
| push_running: "ls_main f = M_push_running k \<Longrightarrow> ls_running f \<Longrightarrow> main_run max_connections f (goto_m (M_push_wait k) f)"
| push_stop: "ls_main f = M_push_stop k \<Longrightarrow>
     main_run max_connections f (goto_m (M_push_check k) (f\<lparr>ls_pool := (ls_pool f)\<lparr>pool_shutting_down := True\<rparr>\<rparr>))"
| push_wait: "ls_main f = M_push_wait k \<Longrightarrow> mnet_mutex_unlock Main_thread (ls_holder f) = Some h \<Longrightarrow>
     main_run max_connections f (goto_m (M_push_sleep k) (f\<lparr>ls_holder := h\<rparr>))"
| push_check_refused: "ls_main f = M_push_check k \<Longrightarrow> pool_shutting_down (ls_pool f) \<Longrightarrow>
     main_run max_connections f (goto_m (M_push_refused k) f)"
| push_check_go: "ls_main f = M_push_check k \<Longrightarrow> \<not> pool_shutting_down (ls_pool f) \<Longrightarrow>
     main_run max_connections f (goto_m (M_push_store k) f)"
| push_refused: "ls_main f = M_push_refused k \<Longrightarrow> mnet_mutex_unlock Main_thread (ls_holder f) = Some h \<Longrightarrow>
     main_run max_connections f (goto_m (M_undo_lock k) (f\<lparr>ls_holder := h\<rparr>))"
| push_store: "ls_main f = M_push_store k \<Longrightarrow> pool_capacity (ls_pool f) \<noteq> 0 \<Longrightarrow>
     j = (pool_head (ls_pool f) + pool_count (ls_pool f)) mod pool_capacity (ls_pool f) \<Longrightarrow>
     j < length (pool_slots (ls_pool f)) \<Longrightarrow>
     main_run max_connections f (goto_m (M_push_count k)
       (f\<lparr>ls_pool := (ls_pool f)\<lparr>pool_slots := (pool_slots (ls_pool f))[j := Some k]\<rparr>\<rparr>))"
| push_count: "ls_main f = M_push_count k \<Longrightarrow>
     main_run max_connections f (goto_m (M_push_signal k)
       (f\<lparr>ls_pool := (ls_pool f)\<lparr>pool_count := pool_count (ls_pool f) + 1\<rparr>\<rparr>))"
| push_signal: "ls_main f = M_push_signal k \<Longrightarrow> signal_not_empty (ls_workers f) ws \<Longrightarrow>
     main_run max_connections f (goto_m M_push_unlock (f\<lparr>ls_workers := ws\<rparr>))"
| push_unlock: "ls_main f = M_push_unlock \<Longrightarrow> mnet_mutex_unlock Main_thread (ls_holder f) = Some h \<Longrightarrow>
     main_run max_connections f (goto_m M_accept (f\<lparr>ls_holder := h\<rparr>))"
| undo_lock: "ls_main f = M_undo_lock k \<Longrightarrow> mnet_mutex_lock Main_thread (ls_holder f) = Some h \<Longrightarrow>
     main_run max_connections f (goto_m (M_undo k) (f\<lparr>ls_holder := h\<rparr>))"
| undo: "ls_main f = M_undo k \<Longrightarrow>
     main_run max_connections f (goto_m (M_undo_unlock k) (f\<lparr>ls_active := ls_active f - 1\<rparr>))"
| undo_unlock: "ls_main f = M_undo_unlock k \<Longrightarrow> mnet_mutex_unlock Main_thread (ls_holder f) = Some h \<Longrightarrow>
     main_run max_connections f (goto_m (M_undo_close k) (f\<lparr>ls_holder := h\<rparr>))"
| undo_close: "ls_main f = M_undo_close k \<Longrightarrow>
     main_run max_connections f (goto_m M_stop_lock (f\<lparr>ls_closed := ls_closed f @ [k]\<rparr>))"
| stop_lock: "ls_main f = M_stop_lock \<Longrightarrow> mnet_mutex_lock Main_thread (ls_holder f) = Some h \<Longrightarrow>
     main_run max_connections f (goto_m M_stop_flag (f\<lparr>ls_holder := h\<rparr>))"
| stop_flag: "ls_main f = M_stop_flag \<Longrightarrow>
     main_run max_connections f (goto_m M_stop_not_empty (f\<lparr>ls_pool := (ls_pool f)\<lparr>pool_shutting_down := True\<rparr>\<rparr>))"
| stop_not_empty: "ls_main f = M_stop_not_empty \<Longrightarrow>
     main_run max_connections f (goto_m M_stop_not_full (f\<lparr>ls_workers := map broadcast_not_empty (ls_workers f)\<rparr>))"
| stop_not_full: "ls_main f = M_stop_not_full \<Longrightarrow>
     main_run max_connections f (goto_m M_stop_unlock f)"
| stop_unlock: "ls_main f = M_stop_unlock \<Longrightarrow> mnet_mutex_unlock Main_thread (ls_holder f) = Some h \<Longrightarrow>
     main_run max_connections f (goto_m M_join (f\<lparr>ls_holder := h\<rparr>))"
| join: "ls_main f = M_join \<Longrightarrow> \<forall>w\<in>set (ls_workers f). w = W_exit \<Longrightarrow> pool_drain (ls_pool f) = Some (cs, q) \<Longrightarrow>
     main_run max_connections f (goto_m M_done (f\<lparr>ls_pool := q, ls_closed := ls_closed f @ cs\<rparr>))"

text \<open>A stop request, and spurious wake-ups.\<close>

inductive outside_run :: "lock_state \<Rightarrow> lock_state \<Rightarrow> bool" where
  stop: "outside_run f (f\<lparr>ls_running := False\<rparr>)"
| spurious_worker: "at_w i W_sleep f \<Longrightarrow> outside_run f (goto_w i W_lock f)"
| spurious_main: "ls_main f = M_push_sleep k \<Longrightarrow> outside_run f (goto_m (M_push_lock k) f)"

inductive lock_reachable :: "int \<Rightarrow> nat \<Rightarrow> lock_state \<Rightarrow> bool" for max_connections :: int and n :: nat where
  start: "lock_reachable max_connections n (lock_start max_connections n)"
| worker: "lock_reachable max_connections n f \<Longrightarrow> worker_run i f f' \<Longrightarrow> lock_reachable max_connections n f'"
| main: "lock_reachable max_connections n f \<Longrightarrow> main_run max_connections f f' \<Longrightarrow> lock_reachable max_connections n f'"
| outside: "lock_reachable max_connections n f \<Longrightarrow> outside_run f f' \<Longrightarrow> lock_reachable max_connections n f'"

section \<open>Mutual exclusion\<close>

fun w_inside :: "worker_pc \<Rightarrow> bool" where
  "w_inside W_lock = False"
| "w_inside W_sleep = False"
| "w_inside (W_serve k) = False"
| "w_inside W_leave_lock = False"
| "w_inside W_exit = False"
| "w_inside w = True"

fun m_inside :: "main_pc \<Rightarrow> bool" where
  "m_inside M_accept = False"
| "m_inside M_blocked = False"
| "m_inside (M_sample_lock k) = False"
| "m_inside (M_limit k a) = False"
| "m_inside (M_count_lock k a) = False"
| "m_inside (M_push_lock k) = False"
| "m_inside (M_push_sleep k) = False"
| "m_inside (M_undo_lock k) = False"
| "m_inside (M_undo_close k) = False"
| "m_inside M_stop_lock = False"
| "m_inside M_join = False"
| "m_inside M_done = False"
| "m_inside m = True"

definition exclusive :: "lock_state \<Rightarrow> bool" where
  "exclusive f \<longleftrightarrow> (m_inside (ls_main f) \<longleftrightarrow> ls_holder f = Some Main_thread) \<and>
     (\<forall>i<length (ls_workers f). w_inside (ls_workers f ! i) \<longleftrightarrow> ls_holder f = Some (Worker_thread i)) \<and>
     (\<forall>i. ls_holder f = Some (Worker_thread i) \<longrightarrow> i < length (ls_workers f))"

lemma goto_w_simps [simp]:
  "ls_pool (goto_w i pc f) = ls_pool f" "ls_holder (goto_w i pc f) = ls_holder f" "ls_main (goto_w i pc f) = ls_main f"
  "ls_active (goto_w i pc f) = ls_active f" "ls_running (goto_w i pc f) = ls_running f"
  "ls_accepted (goto_w i pc f) = ls_accepted f" "ls_closed (goto_w i pc f) = ls_closed f"
  "ls_workers (goto_w i pc f) = (ls_workers f)[i := pc]"
  by (simp_all add: goto_w_def)

lemmas mutex_defs = mnet_mutex_lock_def mnet_mutex_unlock_def

lemma signal_not_full_inside [simp]: "m_inside (signal_not_full m) = m_inside m"
  by (cases m) auto

lemma broadcast_inside [simp]: "w_inside (broadcast_not_empty w) = w_inside w"
  by (cases w) auto

lemma exclusive_worker: "worker_run i f f' \<Longrightarrow> exclusive f \<Longrightarrow> exclusive f'"
  by (induction rule: worker_run.induct)
    (auto simp: exclusive_def at_w_def mutex_defs nth_list_update split: if_splits)

lemma exclusive_main: "main_run mc f f' \<Longrightarrow> exclusive f \<Longrightarrow> exclusive f'"
proof (induction rule: main_run.induct)
  case (push_signal f k ws)
  from push_signal(2,1,3) show ?case
    by (induction rule: signal_not_empty.cases) (auto simp: exclusive_def nth_list_update)
qed (auto simp: exclusive_def mutex_defs split: if_splits)

lemma exclusive_outside: "outside_run f f' \<Longrightarrow> exclusive f \<Longrightarrow> exclusive f'"
  by (induction rule: outside_run.induct) (auto simp: exclusive_def at_w_def nth_list_update)

lemma exclusive_start: "exclusive (lock_start mc n)"
  by (simp add: exclusive_def lock_start_def)

lemma lock_exclusive: "lock_reachable mc n f \<Longrightarrow> exclusive f"
  by (induction rule: lock_reachable.induct)
    (blast intro: exclusive_start exclusive_worker exclusive_main exclusive_outside)+

section \<open>The section in progress\<close>

text \<open>The state of \<open>Workers\<close> a thread is in: a section counts from the statement that decides it.\<close>

fun abs_worker :: "worker_pc \<Rightarrow> worker" where
  "abs_worker W_wait = Asleep"
| "abs_worker W_sleep = Asleep"
| "abs_worker W_closed = Exited"
| "abs_worker W_exit = Exited"
| "abs_worker (W_unlock k) = Serving k"
| "abs_worker (W_serve k) = Serving k"
| "abs_worker W_leave_lock = Leaving"
| "abs_worker W_leave = Leaving"
| "abs_worker w = Popping"

fun abs_main :: "main_pc \<Rightarrow> main" where
  "abs_main M_accept = Accepting"
| "abs_main M_blocked = Blocked"
| "abs_main M_push_unlock = Accepting"
| "abs_main (M_sample_lock k) = Accepted k"
| "abs_main (M_sample k) = Accepted k"
| "abs_main (M_sample_unlock k a) = Sampled k a"
| "abs_main (M_limit k a) = Sampled k a"
| "abs_main (M_count_lock k a) = Sampled k a"
| "abs_main (M_count k a) = Sampled k a"
| "abs_main (M_count_unlock k) = Pushing k"
| "abs_main (M_push_lock k) = Pushing k"
| "abs_main (M_push_test k) = Pushing k"
| "abs_main (M_push_running k) = Pushing k"
| "abs_main (M_push_stop k) = Pushing k"
| "abs_main (M_push_check k) = Pushing k"
| "abs_main (M_push_store k) = Pushing k"
| "abs_main (M_push_count k) = Pushing k"
| "abs_main (M_push_signal k) = Pushing k"
| "abs_main (M_push_wait k) = Push_asleep k"
| "abs_main (M_push_sleep k) = Push_asleep k"
| "abs_main (M_push_refused k) = Refused k"
| "abs_main (M_undo_lock k) = Refused k"
| "abs_main (M_undo k) = Refused k"
| "abs_main (M_undo_unlock k) = Refused k"
| "abs_main (M_undo_close k) = Refused k"
| "abs_main M_stop_lock = Stopping"
| "abs_main M_stop_flag = Stopping"
| "abs_main M_stop_not_empty = Stopping"
| "abs_main M_stop_not_full = Joining"
| "abs_main M_stop_unlock = Joining"
| "abs_main M_join = Joining"
| "abs_main M_done = Stopped"

text \<open>The decrement of \<open>active_connections\<close> for a refused connection comes before it is closed.\<close>

fun undone :: "main_pc \<Rightarrow> int" where
  "undone (M_undo_unlock k) = 1"
| "undone (M_undo_close k) = 1"
| "undone m = 0"

text \<open>The pool \<open>q\<close> in the middle of a section that found it as \<open>p\<close>.\<close>

abbreviation full :: "'s mnet_pool \<Rightarrow> bool" where
  "full p \<equiv> pool_count p = pool_capacity p \<and> \<not> pool_shutting_down p"

fun w_partial :: "worker_pc \<Rightarrow> nat mnet_pool \<Rightarrow> nat mnet_pool \<Rightarrow> bool" where
  "w_partial W_check p q \<longleftrightarrow> q = p \<and> \<not> (pool_count p = 0 \<and> \<not> pool_shutting_down p)"
| "w_partial W_read p q \<longleftrightarrow> q = p \<and> pool_count p \<noteq> 0"
| "w_partial (W_advance k) p q \<longleftrightarrow> q = p \<and> pool_count p \<noteq> 0 \<and> pool_head p < length (pool_slots p) \<and>
     pool_slots p ! pool_head p = Some k"
| "w_partial (W_drop k) p q \<longleftrightarrow> q = p\<lparr>pool_head := (pool_head p + 1) mod pool_capacity p\<rparr> \<and> pool_capacity p \<noteq> 0 \<and>
     pool_count p \<noteq> 0 \<and> pool_head p < length (pool_slots p) \<and> pool_slots p ! pool_head p = Some k"
| "w_partial (W_signal k) p q \<longleftrightarrow> mnet_pool_pop p = Some (Popped k, q)"
| "w_partial w p q \<longleftrightarrow> q = p"

fun m_partial :: "bool \<Rightarrow> main_pc \<Rightarrow> nat mnet_pool \<Rightarrow> nat mnet_pool \<Rightarrow> bool" where
  "m_partial running (M_push_running k) p q \<longleftrightarrow> q = p \<and> full p"
| "m_partial running (M_push_stop k) p q \<longleftrightarrow> q = p \<and> full p \<and> \<not> running"
| "m_partial running (M_push_check k) p q \<longleftrightarrow>
     q = p \<and> \<not> full p \<or> q = p\<lparr>pool_shutting_down := True\<rparr> \<and> full p \<and> \<not> running"
| "m_partial running (M_push_store k) p q \<longleftrightarrow> q = p \<and> \<not> full p \<and> \<not> pool_shutting_down p"
| "m_partial running (M_push_count k) p q \<longleftrightarrow> \<not> full p \<and> \<not> pool_shutting_down p \<and>
     ring_put k p = Some (q\<lparr>pool_count := pool_count q + 1\<rparr>)"
| "m_partial running (M_push_signal k) p q \<longleftrightarrow> \<not> full p \<and> \<not> pool_shutting_down p \<and> ring_put k p = Some q"
| "m_partial running M_stop_not_empty p q \<longleftrightarrow> q = p\<lparr>pool_shutting_down := True\<rparr>"
| "m_partial running m p q \<longleftrightarrow> q = p"

definition pool_partial :: "lock_state \<Rightarrow> nat mnet_pool \<Rightarrow> bool" where
  "pool_partial f p \<longleftrightarrow>
     (case ls_holder f of
        None \<Rightarrow> ls_pool f = p
      | Some Main_thread \<Rightarrow> m_partial (ls_running f) (ls_main f) p (ls_pool f)
      | Some (Worker_thread i) \<Rightarrow> w_partial (ls_workers f ! i) p (ls_pool f))"

fun admitted :: "int \<Rightarrow> main_pc \<Rightarrow> bool" where
  "admitted mc (M_count_lock k a) \<longleftrightarrow> \<not> (mc > 0 \<and> a \<ge> mc)"
| "admitted mc (M_count k a) \<longleftrightarrow> \<not> (mc > 0 \<and> a \<ge> mc)"
| "admitted mc m \<longleftrightarrow> True"

definition abstracts :: "int \<Rightarrow> lock_state \<Rightarrow> pool_state \<Rightarrow> bool" where
  "abstracts mc f s \<longleftrightarrow>
     ps_main s = abs_main (ls_main f) \<and> ps_workers s = map abs_worker (ls_workers f) \<and>
     ps_active s = ls_active f + undone (ls_main f) \<and> ps_running s = ls_running f \<and>
     ps_accepted s = ls_accepted f \<and> ps_closed s = ls_closed f \<and> admitted mc (ls_main f) \<and> pool_partial f (ps_pool s)"

section \<open>Statements refine sections\<close>

lemma abs_signal_not_full: "\<not> m_inside m \<Longrightarrow> abs_main (signal_not_full m) = wake_main (abs_main m)"
  by (cases m) auto

lemma undone_signal_not_full [simp]: "undone (signal_not_full m) = undone m" "admitted mc (signal_not_full m) = admitted mc m"
  by (cases m; simp)+

text \<open>A thread outside the section of another leaves the section in progress as it is.\<close>

lemma pool_partial_other_worker:
  "exclusive f \<Longrightarrow> at_w i w f \<Longrightarrow> \<not> w_inside w \<Longrightarrow> pool_partial (goto_w i w' (f\<lparr>ls_closed := cs\<rparr>)) p = pool_partial f p"
  by (auto simp: exclusive_def at_w_def pool_partial_def nth_list_update split: option.splits thread.splits)

lemma pool_partial_other_main:
  "exclusive f \<Longrightarrow> \<not> m_inside (ls_main f) \<Longrightarrow>
   pool_partial (f\<lparr>ls_main := m, ls_closed := cs, ls_accepted := k\<rparr>) p = pool_partial f p"
  by (auto simp: exclusive_def pool_partial_def split: option.splits thread.splits)

lemma pool_partial_holder:
  "at_w i w f \<Longrightarrow> w_inside w \<Longrightarrow> exclusive f \<Longrightarrow> pool_partial f p = w_partial w p (ls_pool f)"
  "m_inside (ls_main f) \<Longrightarrow> exclusive f \<Longrightarrow> pool_partial f p = m_partial (ls_running f) (ls_main f) p (ls_pool f)"
  by (auto simp: exclusive_def at_w_def pool_partial_def)

definition stays_or :: "(pool_state \<Rightarrow> pool_state \<Rightarrow> bool) \<Rightarrow> int \<Rightarrow> lock_state \<Rightarrow> pool_state \<Rightarrow> bool" where
  "stays_or step mc f' s \<longleftrightarrow> abstracts mc f' s \<or> (\<exists>s'. step s s' \<and> abstracts mc f' s')"

lemma commits:
  "worker_step i s s' \<Longrightarrow> abstracts mc f' s' \<Longrightarrow> stays_or (worker_step i) mc f' s"
  "main_step mc s s' \<Longrightarrow> abstracts mc f' s' \<Longrightarrow> stays_or (main_step mc) mc f' s"
  "outside_step s s' \<Longrightarrow> abstracts mc f' s' \<Longrightarrow> stays_or outside_step mc f' s"
  by (auto simp: stays_or_def)

lemma worker_commits:
  assumes "at_w i w f" "abstracts mc f s"
  shows "i < length (ps_workers s)" "ps_workers s ! i = abs_worker w"
  using assms by (auto simp: at_w_def abstracts_def)

text \<open>Steps that the sections do not see: within a section, into one, and out of one.\<close>

lemma worker_moves:
  assumes "exclusive f" "at_w i w f" "abstracts mc f s" "w_inside w" "abs_worker w' = abs_worker w"
    and "w_partial w (ps_pool s) (ls_pool f) \<Longrightarrow> w_partial w' (ps_pool s) q"
  shows "stays_or (worker_step i) mc (goto_w i w' (f\<lparr>ls_pool := q\<rparr>)) s"
proof -
  have h: "ls_holder f = Some (Worker_thread i)" using assms(1,2,4) by (auto simp: exclusive_def at_w_def)
  have "map abs_worker ((ls_workers f)[i := w']) = map abs_worker (ls_workers f)"
    using assms(2,5) by (simp add: map_update at_w_def list_update_same_conv)
  moreover have "w_partial w' (ps_pool s) q" using assms h by (auto simp: abstracts_def pool_partial_def at_w_def)
  ultimately show ?thesis using assms(2,3) h by (auto simp: stays_or_def abstracts_def pool_partial_def at_w_def)
qed

lemma worker_goes:
  assumes "exclusive f" "at_w i w f" "abstracts mc f s" "w_inside w" "abs_worker w' = abs_worker w"
    and "w_partial w (ps_pool s) (ls_pool f) \<Longrightarrow> w_partial w' (ps_pool s) (ls_pool f)"
  shows "stays_or (worker_step i) mc (goto_w i w' f) s"
  using worker_moves [OF assms] by simp

lemma worker_enters:
  assumes "at_w i w f" "abstracts mc f s" "mnet_mutex_lock (Worker_thread i) (ls_holder f) = Some h"
    "abs_worker w' = abs_worker w" "w_partial w' (ps_pool s) (ps_pool s)"
  shows "stays_or (worker_step i) mc (goto_w i w' (f\<lparr>ls_holder := h\<rparr>)) s"
proof -
  have "map abs_worker ((ls_workers f)[i := w']) = map abs_worker (ls_workers f)"
    using assms(1,4) by (simp add: map_update at_w_def list_update_same_conv)
  with assms show ?thesis by (auto simp: stays_or_def abstracts_def pool_partial_def at_w_def mutex_defs split: if_splits)
qed

lemma worker_leaves:
  assumes "at_w i w f" "abstracts mc f s" "mnet_mutex_unlock (Worker_thread i) (ls_holder f) = Some h"
    "abs_worker w' = abs_worker w" "w_partial w (ps_pool s) (ls_pool f) \<Longrightarrow> ls_pool f = ps_pool s"
  shows "stays_or (worker_step i) mc (goto_w i w' (f\<lparr>ls_holder := h\<rparr>)) s"
proof -
  have "map abs_worker ((ls_workers f)[i := w']) = map abs_worker (ls_workers f)"
    using assms(1,4) by (simp add: map_update at_w_def list_update_same_conv)
  with assms show ?thesis by (auto simp: stays_or_def abstracts_def pool_partial_def at_w_def mutex_defs split: if_splits)
qed

lemma worker_run_simulates:
  assumes "worker_run i f f'" "exclusive f" "abstracts mc f s"
  shows "stays_or (worker_step i) mc f' s"
  using assms
proof (induction rule: worker_run.induct)
  case (test_wait f)
  note W = worker_commits [OF test_wait(1,5)]
  have p: "ps_pool s = ls_pool f" using test_wait pool_partial_holder(1) [OF test_wait(1) _ test_wait(4)] by (simp add: abstracts_def)
  then have "mnet_pool_pop (ps_pool s) = Some (Pop_wait, ps_pool s)" using test_wait by (simp add: mnet_pool_pop_def)
  note st = worker_step.pop_sleep [OF W(1) _ this]
  show ?case
    by (rule commits(1) [OF st])
      (use test_wait p W in \<open>auto simp: abstracts_def at_w_def map_update pool_partial_def exclusive_def\<close>)
next
  case (check_closed f)
  note W = worker_commits [OF check_closed(1,4)]
  have p: "ps_pool s = ls_pool f" "pool_shutting_down (ls_pool f)"
    using check_closed pool_partial_holder(1) [OF check_closed(1) _ check_closed(3)] by (auto simp: abstracts_def)
  then have "mnet_pool_pop (ps_pool s) = Some (Pop_closed, ps_pool s)" using check_closed by (simp add: mnet_pool_pop_def)
  note st = worker_step.pop_end [OF W(1) _ this]
  show ?case
    by (rule commits(1) [OF st])
      (use check_closed p W in \<open>auto simp: abstracts_def at_w_def map_update pool_partial_def exclusive_def\<close>)
next
  case (signal k f)
  note W = worker_commits [OF signal(1,3)]
  have p: "mnet_pool_pop (ps_pool s) = Some (Popped k, ls_pool f)"
    using signal pool_partial_holder(1) [OF signal(1) _ signal(2)] by (simp add: abstracts_def)
  have m: "\<not> m_inside (ls_main f)" using signal by (auto simp: exclusive_def at_w_def)
  note st = worker_step.pop [OF W(1) _ p]
  show ?case
    by (rule commits(1) [OF st])
      (use signal m W in \<open>auto simp: abstracts_def at_w_def map_update pool_partial_def exclusive_def abs_signal_not_full\<close>)
next
  case (serve k f)
  note W = worker_commits [OF serve(1,3)]
  note st = worker_step.serve [OF W(1), of k]
  show ?case
    by (rule commits(1) [OF st])
      (use serve W pool_partial_other_worker [OF serve(2,1)] in \<open>auto simp: abstracts_def at_w_def map_update\<close>)
next
  case (leave f)
  note W = worker_commits [OF leave(1,3)]
  note st = worker_step.leave [OF W(1)]
  show ?case
    by (rule commits(1) [OF st])
      (use leave W in \<open>auto simp: abstracts_def at_w_def map_update pool_partial_def exclusive_def\<close>)
qed ((rule worker_enters, assumption, assumption, assumption, simp, simp; fail) |
    (rule worker_leaves, assumption, assumption, assumption, simp, simp; fail) |
    (rule worker_goes, assumption, assumption, assumption, simp, simp, simp; fail) |
    (rule worker_moves, assumption, assumption, assumption, simp, simp, auto simp: mnet_pool_pop_def ring_get_def; fail))+

lemma main_moves:
  assumes "exclusive f" "abstracts mc f s" "m_inside (ls_main f)" "abs_main m' = abs_main (ls_main f)"
    "undone m' = undone (ls_main f)" "admitted mc m'"
    and "m_partial (ls_running f) (ls_main f) (ps_pool s) (ls_pool f) \<Longrightarrow> m_partial (ls_running f) m' (ps_pool s) q"
  shows "stays_or (main_step mc) mc (f\<lparr>ls_pool := q, ls_main := m'\<rparr>) s"
  using assms by (auto simp: stays_or_def abstracts_def pool_partial_def exclusive_def)

lemma main_goes:
  assumes "exclusive f" "abstracts mc f s" "m_inside (ls_main f)" "abs_main m' = abs_main (ls_main f)"
    "undone m' = undone (ls_main f)" "admitted mc m'"
    and "m_partial (ls_running f) (ls_main f) (ps_pool s) (ls_pool f) \<Longrightarrow> m_partial (ls_running f) m' (ps_pool s) (ls_pool f)"
  shows "stays_or (main_step mc) mc (goto_m m' f) s"
  using main_moves [OF assms] by simp

lemma main_enters:
  assumes "abstracts mc f s" "mnet_mutex_lock Main_thread (ls_holder f) = Some h"
    "abs_main m' = abs_main (ls_main f)" "undone m' = undone (ls_main f)"
    "admitted mc (ls_main f) \<Longrightarrow> admitted mc m'" "m_partial (ls_running f) m' (ps_pool s) (ps_pool s)"
  shows "stays_or (main_step mc) mc (goto_m m' (f\<lparr>ls_holder := h\<rparr>)) s"
  using assms by (auto simp: stays_or_def abstracts_def pool_partial_def mutex_defs split: if_splits)

lemma main_leaves:
  assumes "abstracts mc f s" "mnet_mutex_unlock Main_thread (ls_holder f) = Some h"
    "abs_main m' = abs_main (ls_main f)" "undone m' = undone (ls_main f)" "admitted mc m'"
    and "m_partial (ls_running f) (ls_main f) (ps_pool s) (ls_pool f) \<Longrightarrow> ls_pool f = ps_pool s"
  shows "stays_or (main_step mc) mc (goto_m m' (f\<lparr>ls_holder := h\<rparr>)) s"
  using assms by (auto simp: stays_or_def abstracts_def pool_partial_def mutex_defs split: if_splits)

lemma worker_inside_not_main: "exclusive f \<Longrightarrow> m_inside (ls_main f) \<Longrightarrow> w \<in> set (ls_workers f) \<Longrightarrow> \<not> w_inside w"
  by (auto simp: exclusive_def in_set_conv_nth)

text \<open>A signal of the accept loop is one of \<open>Workers\<close>: a worker that is about to wait holds the mutex.\<close>

lemma abs_signal:
  assumes "signal_not_empty ws ws'" "\<forall>w\<in>set ws. \<not> w_inside w"
  shows "signalled (map abs_worker ws) (map abs_worker ws')"
  using assms
proof (induction rule: signal_not_empty.induct)
  case (nobody ws)
  have "Asleep \<notin> abs_worker ` set ws"
  proof
    assume "Asleep \<in> abs_worker ` set ws"
    then obtain w where "w \<in> set ws" "abs_worker w = Asleep" by auto
    with nobody show False by (cases w) auto
  qed
  then show ?case by (auto intro: signalled.none)
next
  case (somebody i ws)
  then show ?case using signalled.one [of i "map abs_worker ws"] by (simp add: map_update)
qed

lemma abs_broadcast: "\<not> w_inside w \<Longrightarrow> abs_worker (broadcast_not_empty w) = wake_worker (abs_worker w)"
  by (cases w) auto

lemma push_running_simulates:
  assumes "ls_main f = M_push_running k" "ls_running f" "exclusive f" "abstracts mc f s"
  shows "stays_or (main_step mc) mc (goto_m (M_push_wait k) f) s"
proof -
  have p: "ps_pool s = ls_pool f" "full (ls_pool f)"
    using assms pool_partial_holder(2) [of f] by (auto simp: abstracts_def)
  then have "mnet_pool_push (ps_running s) k (ps_pool s) = Some (Push_wait, ps_pool s)"
    using assms by (simp add: mnet_pool_push_def abstracts_def)
  note st = main_step.push_sleep [OF _ this, of mc]
  show ?thesis
    by (rule commits(2) [OF st]) (use assms p in \<open>auto simp: abstracts_def pool_partial_def exclusive_def\<close>)
qed

lemma push_check_refused_simulates:
  assumes "ls_main f = M_push_check k" "pool_shutting_down (ls_pool f)" "exclusive f" "abstracts mc f s"
  shows "stays_or (main_step mc) mc (goto_m (M_push_refused k) f) s"
proof -
  have p: "ls_pool f = ps_pool s \<and> \<not> full (ps_pool s) \<or>
      ls_pool f = (ps_pool s)\<lparr>pool_shutting_down := True\<rparr> \<and> full (ps_pool s) \<and> \<not> ls_running f"
    using assms pool_partial_holder(2) [of f] by (auto simp: abstracts_def)
  then have "mnet_pool_push (ps_running s) k (ps_pool s) = Some (Push_refused, ls_pool f)"
    using assms by (auto simp: mnet_pool_push_def abstracts_def)
  note st = main_step.push_refused [OF _ this, of mc]
  show ?thesis
    by (rule commits(2) [OF st]) (use assms in \<open>auto simp: abstracts_def pool_partial_def exclusive_def\<close>)
qed

lemma push_signal_simulates:
  assumes "ls_main f = M_push_signal k" "signal_not_empty (ls_workers f) ws" "exclusive f" "abstracts mc f s"
  shows "stays_or (main_step mc) mc (goto_m M_push_unlock (f\<lparr>ls_workers := ws\<rparr>)) s"
proof -
  have p: "\<not> full (ps_pool s)" "\<not> pool_shutting_down (ps_pool s)" "ring_put k (ps_pool s) = Some (ls_pool f)"
    using assms pool_partial_holder(2) [of f] by (auto simp: abstracts_def)
  then have u: "mnet_pool_push (ps_running s) k (ps_pool s) = Some (Pushed, ls_pool f)" by (auto simp: mnet_pool_push_def)
  have "signalled (ps_workers s) (map abs_worker ws)"
    using abs_signal [OF assms(2)] worker_inside_not_main [OF assms(3)] assms(1,4) by (simp add: abstracts_def)
  note st = main_step.push [OF _ u this, of mc]
  show ?thesis
    by (rule commits(2) [OF st]) (use assms in \<open>auto simp: abstracts_def pool_partial_def exclusive_def\<close>)
qed

lemma stop_not_empty_simulates:
  assumes "ls_main f = M_stop_not_empty" "exclusive f" "abstracts mc f s"
  shows "stays_or (main_step mc) mc
    (goto_m M_stop_not_full (f\<lparr>ls_workers := map broadcast_not_empty (ls_workers f)\<rparr>)) s"
proof -
  have "map abs_worker (map broadcast_not_empty (ls_workers f)) = map wake_worker (ps_workers s)"
    using worker_inside_not_main [OF assms(2)] assms(1,3) abs_broadcast by (auto simp: abstracts_def)
  moreover have "ls_pool f = (ps_pool s)\<lparr>pool_shutting_down := True\<rparr>"
    using assms pool_partial_holder(2) [of f] by (auto simp: abstracts_def)
  moreover note st = main_step.shutdown [of s mc]
  ultimately show ?thesis
    by (intro commits(2) [OF st]) (use assms in \<open>auto simp: abstracts_def pool_partial_def exclusive_def\<close>)
qed

lemma all_exited_free:
  assumes "ls_main f = M_join" "\<forall>w\<in>set (ls_workers f). w = W_exit" "exclusive f"
  shows "ls_holder f = None"
proof (cases "ls_holder f")
  case (Some t)
  then obtain i where "t = Worker_thread i" "i < length (ls_workers f)" using assms(1,3) by (cases t) (auto simp: exclusive_def)
  then have "w_inside (ls_workers f ! i)" "ls_workers f ! i = W_exit" using Some assms(2,3) by (auto simp: exclusive_def)
  then show ?thesis by simp
qed

lemma join_simulates:
  assumes "ls_main f = M_join" "\<forall>w\<in>set (ls_workers f). w = W_exit" "pool_drain (ls_pool f) = Some (cs, q)"
    "exclusive f" "abstracts mc f s"
  shows "stays_or (main_step mc) mc (goto_m M_done (f\<lparr>ls_pool := q, ls_closed := ls_closed f @ cs\<rparr>)) s"
proof -
  note h = all_exited_free [OF assms(1,2,4)]
  then have "pool_drain (ps_pool s) = Some (cs, q)" using assms by (simp add: abstracts_def pool_partial_def)
  note st = main_step.join [OF _ _ this, of mc]
  show ?thesis
    by (rule commits(2) [OF st]) (use assms h in \<open>auto simp: abstracts_def pool_partial_def\<close>)
qed

lemma main_run_simulates:
  assumes "main_run mc f f'" "exclusive f" "abstracts mc f s"
  shows "stays_or (main_step mc) mc f' s"
  using assms
proof (induction rule: main_run.induct)
  case (enter_accept f)
  note st = main_step.enter_accept [of s mc]
  show ?case
    by (rule commits(2) [OF st])
      (use enter_accept in \<open>auto simp: abstracts_def pool_partial_def exclusive_def split: option.splits thread.splits\<close>)
next
  case (accept f)
  note st = main_step.accept [of s mc]
  show ?case
    by (rule commits(2) [OF st])
      (use accept in \<open>auto simp: abstracts_def pool_partial_def exclusive_def split: option.splits thread.splits\<close>)
next
  case (accept_interrupted f)
  note st = main_step.accept_interrupted [of s mc]
  show ?case
    by (rule commits(2) [OF st])
      (use accept_interrupted in \<open>auto simp: abstracts_def pool_partial_def exclusive_def split: option.splits thread.splits\<close>)
next
  case (accept_failed f)
  note st = main_step.accept_failed [of s mc]
  show ?case
    by (rule commits(2) [OF st])
      (use accept_failed in \<open>auto simp: abstracts_def pool_partial_def exclusive_def split: option.splits thread.splits\<close>)
next
  case (leave_loop f)
  note st = main_step.leave_loop [of s mc]
  show ?case
    by (rule commits(2) [OF st])
      (use leave_loop in \<open>auto simp: abstracts_def pool_partial_def exclusive_def split: option.splits thread.splits\<close>)
next
  case (sample f k)
  note st = main_step.sample [of s k mc]
  show ?case
    by (rule commits(2) [OF st]) (use sample in \<open>auto simp: abstracts_def pool_partial_def exclusive_def\<close>)
next
  case (refuse f k a)
  note st = main_step.refuse [of s k a mc]
  show ?case
    by (rule commits(2) [OF st])
      (use refuse in \<open>auto simp: abstracts_def pool_partial_def exclusive_def split: option.splits thread.splits\<close>)
next
  case (admit f k a)
  then show ?case
    by (auto simp: stays_or_def abstracts_def pool_partial_def exclusive_def split: option.splits thread.splits)
next
  case (count f k a)
  note st = main_step.count [of s k a mc]
  show ?case
    by (rule commits(2) [OF st]) (use count in \<open>auto simp: abstracts_def pool_partial_def exclusive_def\<close>)
next
  case push_running
  then show ?case by (rule push_running_simulates)
next
  case push_check_refused
  then show ?case by (rule push_check_refused_simulates)
next
  case push_signal
  then show ?case by (rule push_signal_simulates)
next
  case (undo_close f k)
  note st = main_step.give_up [of s k mc]
  show ?case
    by (rule commits(2) [OF st])
      (use undo_close in \<open>auto simp: abstracts_def pool_partial_def exclusive_def split: option.splits thread.splits\<close>)
next
  case stop_not_empty
  then show ?case by (rule stop_not_empty_simulates)
next
  case join
  then show ?case by (rule join_simulates)
qed ((rule main_enters, assumption, assumption, simp, simp, simp, simp; fail) |
    (rule main_leaves, assumption, assumption, simp, simp, simp, simp; fail) |
    (rule main_goes, assumption, assumption, simp, simp, simp, simp, auto; fail) |
    (rule main_moves, assumption, assumption, simp, simp, simp, simp, auto simp: ring_put_def; fail) |
    (auto simp: stays_or_def abstracts_def pool_partial_def exclusive_def; fail))+

lemma outside_run_simulates:
  assumes "outside_run f f'" "exclusive f" "abstracts mc f s"
  shows "stays_or outside_step mc f' s"
  using assms
proof (induction rule: outside_run.induct)
  case (stop f)
  have "m_partial r m p q \<Longrightarrow> m_partial False m p q" for r m p q by (cases m) auto
  then show ?case
    by (intro commits(3) [OF outside_step.stop])
      (use stop in \<open>auto simp: abstracts_def pool_partial_def split: option.splits thread.splits\<close>)
next
  case (spurious_worker i f)
  note W = worker_commits [OF spurious_worker(1,3)]
  note st = outside_step.spurious_worker [OF W(1)]
  have "pool_partial (goto_w i W_lock f) p = pool_partial f p" for p
    using pool_partial_other_worker [OF spurious_worker(2,1), of W_lock "ls_closed f"] by simp
  then show ?case
    by (intro commits(3) [OF st]) (use spurious_worker W in \<open>auto simp: abstracts_def at_w_def map_update\<close>)
next
  case (spurious_main f k)
  note st = outside_step.spurious_main [of s k]
  show ?case
    by (rule commits(3) [OF st])
      (use spurious_main in \<open>auto simp: abstracts_def pool_partial_def exclusive_def split: option.splits thread.splits\<close>)
qed

lemma lock_start_abstracts: "abstracts mc (lock_start mc n) (pool_start mc n)"
  by (simp add: abstracts_def lock_start_def pool_start_def pool_partial_def)

lemma lock_reachable_abstracts: "lock_reachable mc n f \<Longrightarrow> \<exists>s. pool_reachable mc n s \<and> abstracts mc f s"
proof (induction rule: lock_reachable.induct)
  case start
  then show ?case using pool_reachable.start lock_start_abstracts by blast
next
  case (worker f i f')
  then show ?case
    using worker_run_simulates [OF worker(2) lock_exclusive [OF worker(1)]] pool_reachable.worker
    unfolding stays_or_def by meson
next
  case (main f f')
  then show ?case
    using main_run_simulates [OF main(2) lock_exclusive [OF main(1)]] pool_reachable.main unfolding stays_or_def by meson
next
  case (outside f f')
  then show ?case
    using outside_run_simulates [OF outside(2) lock_exclusive [OF outside(1)]] pool_reachable.outside
    unfolding stays_or_def by meson
qed

text \<open>
  C6. The mutex makes the critical sections atomic. Whatever the interleaving of the threads'
  statements, with any signals and spurious wake-ups, at most one thread is inside a section of the
  pool's mutex, and the state is one that the sections taken as single steps can reach, up to the
  section in progress: the same connections accepted and closed, the same place of every thread, the
  same counter, and, whenever nobody holds the mutex, the same queue. So what is proved of the
  threads in \<open>Workers\<close> holds of the code statement by statement.
\<close>

theorem sections_atomic:
  assumes "lock_reachable mc n f"
  shows "(\<forall>i j. i < length (ls_workers f) \<and> j < length (ls_workers f) \<and> w_inside (ls_workers f ! i) \<and>
      w_inside (ls_workers f ! j) \<longrightarrow> i = j) \<and>
    (m_inside (ls_main f) \<longrightarrow> (\<forall>w\<in>set (ls_workers f). \<not> w_inside w)) \<and>
    (\<exists>s. pool_reachable mc n s \<and> ps_main s = abs_main (ls_main f) \<and> ps_workers s = map abs_worker (ls_workers f) \<and>
       ps_active s = ls_active f + undone (ls_main f) \<and> ps_accepted s = ls_accepted f \<and> ps_closed s = ls_closed f \<and>
       (ls_holder f = None \<longrightarrow> ps_pool s = ls_pool f))"
proof -
  obtain s where s: "pool_reachable mc n s" "abstracts mc f s" using lock_reachable_abstracts [OF assms] by blast
  have "ls_holder f = None \<longrightarrow> ps_pool s = ls_pool f" using s(2) by (auto simp: abstracts_def pool_partial_def)
  with s lock_exclusive [OF assms] worker_inside_not_main show ?thesis
    by (auto simp: abstracts_def exclusive_def)
qed

lemma ring_ok_front: "ring_ok p \<Longrightarrow> pool_count p \<noteq> 0 \<Longrightarrow> pool_slots p ! pool_head p \<noteq> None"
  by (auto simp: ring_ok_def ring_index_def dest: spec [of _ 0])

lemma worker_holder_runs:
  assumes "at_w i w f" "w_inside w" "exclusive f" "abstracts mc f s" "ring_ok (ps_pool s)"
  shows "\<exists>f'. worker_run i f f'"
proof -
  have h: "mnet_mutex_unlock (Worker_thread i) (ls_holder f) = Some None"
    using assms(1-3) by (auto simp: mutex_defs exclusive_def at_w_def)
  have p: "w_partial w (ps_pool s) (ls_pool f)"
    using assms(4) pool_partial_holder(1) [OF assms(1-3)] by (simp add: abstracts_def)
  show ?thesis
  proof (cases w)
    case W_read
    with p ring_ok_front [OF assms(5)] obtain k where "pool_slots (ls_pool f) ! pool_head (ls_pool f) = Some k" by auto
    moreover have "pool_head (ls_pool f) < length (pool_slots (ls_pool f))" using W_read p assms(5) by (simp add: ring_ok_def)
    ultimately show ?thesis using worker_run.read assms(1) W_read by blast
  next
    case (W_advance k)
    then have "pool_capacity (ls_pool f) \<noteq> 0" using p assms(5) by (simp add: ring_ok_def)
    then show ?thesis using worker_run.advance assms(1) W_advance by blast
  qed (use assms(1,2) h in \<open>(simp; fail) | blast intro: worker_run.intros\<close>)+
qed

lemma main_holder_runs:
  assumes "m_inside (ls_main f)" "exclusive f" "abstracts mc f s" "ring_ok (ps_pool s)"
  shows "\<exists>f'. main_run mc f f'"
proof -
  have h: "mnet_mutex_unlock Main_thread (ls_holder f) = Some None"
    using assms(1,2) by (auto simp: mutex_defs exclusive_def)
  have p: "m_partial (ls_running f) (ls_main f) (ps_pool s) (ls_pool f)"
    using assms(3) pool_partial_holder(2) [OF assms(1,2)] by (simp add: abstracts_def)
  show ?thesis
  proof (cases "ls_main f")
    case (M_push_store k)
    then have "pool_capacity (ls_pool f) \<noteq> 0" "length (pool_slots (ls_pool f)) = pool_capacity (ls_pool f)"
      using p assms(4) by (simp_all add: ring_ok_def)
    with main_run.push_store [OF M_push_store this(1) refl] show ?thesis by auto
  next
    case (M_push_signal k)
    obtain ws where "signal_not_empty (ls_workers f) ws"
      using signal_not_empty.nobody [of "ls_workers f"] signal_not_empty.somebody [of _ "ls_workers f"]
      by (metis in_set_conv_nth)
    then show ?thesis using main_run.push_signal M_push_signal by blast
  qed (use assms(1) h in \<open>(simp; fail) | blast intro: main_run.intros\<close>)+
qed

text \<open>
  C11. No critical section gets stuck. In every state that the statements of the threads can reach,
  the thread that holds the mutex can take its next step: the slot it is about to read or write lies
  in the array, a slot it reads has been written, the capacity it divides by is not zero, and it only
  unlocks what it holds. So no section is undefined, and none waits for another thread.
\<close>

theorem holder_runs:
  assumes "lock_reachable mc n f" "ls_holder f = Some t"
  shows "\<exists>f'. case t of Main_thread \<Rightarrow> main_run mc f f' | Worker_thread i \<Rightarrow> worker_run i f f'"
proof -
  obtain s where s: "pool_reachable mc n s" "abstracts mc f s" using lock_reachable_abstracts [OF assms(1)] by blast
  have r: "ring_ok (ps_pool s)" using reachable_ring [OF s(1)] by (simp add: inv_ring_def)
  note e = lock_exclusive [OF assms(1)]
  show ?thesis
  proof (cases t)
    case Main_thread
    then have "m_inside (ls_main f)" using e assms(2) by (simp add: exclusive_def)
    from main_holder_runs [OF this e s(2) r] Main_thread show ?thesis by simp
  next
    case (Worker_thread i)
    then have "at_w i (ls_workers f ! i) f" "w_inside (ls_workers f ! i)"
      using e assms(2) by (auto simp: exclusive_def at_w_def)
    from worker_holder_runs [OF this e s(2) r] Worker_thread show ?thesis by simp
  qed
qed

section \<open>Witnesses\<close>

definition popping_one :: lock_state where
  "popping_one = (lock_start 2 1)\<lparr>ls_holder := Some (Worker_thread 0), ls_workers := [W_test]\<rparr>"

lemma popping_one_reachable: "lock_reachable 2 1 popping_one"
proof -
  have "at_w 0 W_lock (lock_start 2 1)" "ls_holder (lock_start 2 1) = None" by (simp_all add: at_w_def lock_start_def)
  then have "worker_run 0 (lock_start 2 1) (goto_w 0 W_test ((lock_start 2 1)\<lparr>ls_holder := Some (Worker_thread 0)\<rparr>))"
    by (intro worker_run.lock) (simp_all add: mutex_defs)
  moreover have "goto_w 0 W_test ((lock_start 2 1)\<lparr>ls_holder := Some (Worker_thread 0)\<rparr>) = popping_one"
    by (simp add: popping_one_def goto_w_def lock_start_def)
  ultimately show ?thesis using lock_reachable.start lock_reachable.worker by metis
qed

theorem sections_atomic_witness:
  "\<exists>s. pool_reachable 2 1 s \<and> ps_workers s = [Popping] \<and> ps_main s = Accepting"
  using sections_atomic [OF popping_one_reachable] by (auto simp: popping_one_def lock_start_def)

theorem holder_runs_witness: "\<exists>f'. worker_run 0 popping_one f'"
  using holder_runs [OF popping_one_reachable, of "Worker_thread 0"] by (simp add: popping_one_def)

end
