(* ===== verification/Platform.thy ===== *)
theory Platform
  imports Socket "HOL-Library.Signed_Division"
begin

text \<open>
  The computing part of the platform layer in \<^verbatim>\<open>src/src/mnet_internal.h\<close> and \<^verbatim>\<open>src/src/mnet.c\<close>: the
  millisecond clock, the conversions of a timeout to the structures of \<open>select\<close>, \<open>nanosleep\<close> and
  \<open>setsockopt\<close>, the substring search that stands in for \<open>strcasestr\<close> on Windows, the start of Winsock,
  and \<open>mnet_tcp_accept\<close>. The other wrappers of the layer only call the platform.
\<close>

section \<open>Definitions\<close>

text \<open>
  \<open>now_ms_mono\<close>: from the seconds and nanoseconds of \<open>clock_gettime\<close>; \<open>None\<close> is an overflow of
  \<open>int64_t\<close>.
\<close>

definition c_int64 :: "int \<Rightarrow> bool" where
  "c_int64 x \<longleftrightarrow> - 9223372036854775808 \<le> x \<and> x \<le> 9223372036854775807"

datatype timespec = Timespec (tv_sec: int) (tv_nsec: int)

definition now_ms_mono :: "timespec \<Rightarrow> int option" where
  "now_ms_mono ts =
     (if \<not> c_int64 (tv_sec ts * 1000) then None
      else if \<not> c_int64 (tv_sec ts * 1000 + tv_nsec ts sdiv 1000000) then None
      else Some (tv_sec ts * 1000 + tv_nsec ts sdiv 1000000))"

text \<open>The seconds and microseconds that \<open>mnet_poll\<close> hands to \<open>select\<close> on Windows.\<close>

definition poll_timeval :: "int \<Rightarrow> int \<times> int" where
  "poll_timeval timeout_ms = (timeout_ms sdiv 1000, (timeout_ms smod 1000) * 1000)"

text \<open>The seconds and nanoseconds that \<open>mnet_sleep_ms\<close> hands to \<open>nanosleep\<close>.\<close>

definition mnet_sleep_ms :: "32 word \<Rightarrow> timespec" where
  "mnet_sleep_ms ms = Timespec (uint (ms div 1000)) (uint (ms mod 1000) * 1000000)"

text \<open>\<open>mnet_set_socket_timeout\<close>: a \<open>timeval\<close> on POSIX, milliseconds in a \<open>DWORD\<close> on Windows.\<close>

definition socket_timeout_posix :: "int \<Rightarrow> int \<times> int" where
  "socket_timeout_posix seconds = (seconds, 0)"

definition socket_timeout_windows :: "int \<Rightarrow> 32 word" where
  "socket_timeout_windows seconds = word_of_int seconds * 1000"

text \<open>
  \<open>_strnicmp(a, b, n) == 0\<close> on strings without their terminators: the first \<open>n\<close> bytes, or the whole
  strings where one ends before, agree without regard to case.
\<close>

definition strnicmp_eq :: "string \<Rightarrow> string \<Rightarrow> nat \<Rightarrow> bool" where
  "strnicmp_eq a b n \<longleftrightarrow> strcaseeq (take n a) (take n b)"

text \<open>\<open>strcasestr\<close> as the Windows build defines it: the offset of the result in the haystack.\<close>

fun strcasestr_loop :: "string \<Rightarrow> string \<Rightarrow> nat \<Rightarrow> nat option" where
  "strcasestr_loop [] needle i = None"
| "strcasestr_loop (c # cs) needle i =
     (if strnicmp_eq (c # cs) needle (length needle) then Some i
      else strcasestr_loop cs needle (Suc i))"

definition strcasestr_windows :: "string option \<Rightarrow> string option \<Rightarrow> nat option" where
  "strcasestr_windows haystack needle =
     (case (haystack, needle) of
        (Some h, Some n) \<Rightarrow> if length n = 0 then Some 0 else strcasestr_loop h n 0
      | _ \<Rightarrow> None)"

text \<open>
  \<open>mnet_wsa_init\<close>: \<open>started\<close> is the static variable, \<open>ok\<close> whether \<open>WSAStartup\<close> succeeds if it is called.
  The results are the value returned, the variable, and whether \<open>WSAStartup\<close> was called.
\<close>

definition mnet_wsa_init :: "bool \<Rightarrow> bool \<Rightarrow> int \<times> bool \<times> bool" where
  "mnet_wsa_init started ok =
     (if \<not> started then (if \<not> ok then (-1, started, True) else (0, True, True))
      else (0, started, False))"

text \<open>
  \<open>mnet_tcp_accept\<close>: \<open>accepted\<close> is the answer of \<open>accept\<close>. The second result lists the sockets on which
  \<open>SO_NOSIGPIPE\<close> is set, which only the build for macOS does.
\<close>

definition mnet_tcp_accept :: "bool \<Rightarrow> int option \<Rightarrow> int option \<times> int list" where
  "mnet_tcp_accept apple accepted =
     (accepted, if apple then (case accepted of None \<Rightarrow> [] | Some fd \<Rightarrow> [fd]) else [])"

text \<open>
  The length that \<open>mnet_send\<close> and \<open>mnet_recv\<close> pass on: \<open>(int)length\<close>, which \<open>send\<close> and \<open>recv\<close> take as a
  \<open>size_t\<close> again.
\<close>

definition passed_length :: "64 word \<Rightarrow> 64 word" where
  "passed_length len = scast (ucast len :: 32 word)"

text \<open>
  What reaches the peer of the blocks handed to \<open>mnet_send\<close> when the system takes the given numbers of
  bytes of each: the callers that write responses do not look at the result of \<open>mnet_send\<close>.
\<close>

definition on_wire :: "nat list \<Rightarrow> bytes list \<Rightarrow> bytes" where
  "on_wire ns blocks = concat (map2 take ns blocks)"

section \<open>Time\<close>

lemma sdiv_nonneg: "0 \<le> a \<Longrightarrow> 0 < b \<Longrightarrow> a sdiv b = a div b" for a b :: int
  by (auto simp: signed_divide_int_def sgn_if)

lemma smod_nonneg: "0 \<le> a \<Longrightarrow> 0 < b \<Longrightarrow> a smod b = a mod b" for a b :: int
  using signed_modulo_int_def [of a b] by (cases "a = 0") (simp_all add: sgn_if)

text \<open>Readings of the clock are ordered by the seconds and then by the nanoseconds.\<close>

instantiation timespec :: linorder
begin

definition less_eq_timespec :: "timespec \<Rightarrow> timespec \<Rightarrow> bool" where
  "less_eq_timespec a b \<longleftrightarrow> tv_sec a < tv_sec b \<or> tv_sec a = tv_sec b \<and> tv_nsec a \<le> tv_nsec b"

definition less_timespec :: "timespec \<Rightarrow> timespec \<Rightarrow> bool" where
  "less_timespec a b \<longleftrightarrow> tv_sec a < tv_sec b \<or> tv_sec a = tv_sec b \<and> tv_nsec a < tv_nsec b"

instance
  by standard (auto simp: less_eq_timespec_def less_timespec_def timespec.expand)

end

text \<open>A reading as \<open>clock_gettime\<close> delivers it, and the time between two of them in nanoseconds.\<close>

definition timespec_ok :: "timespec \<Rightarrow> bool" where
  "timespec_ok ts \<longleftrightarrow> 0 \<le> tv_sec ts \<and> tv_sec ts \<le> 9223372036854774 \<and> 0 \<le> tv_nsec ts \<and> tv_nsec ts < 1000000000"

definition ns_of :: "timespec \<Rightarrow> int" where
  "ns_of ts = 1000000000 * tv_sec ts + tv_nsec ts"

lemma now_ms_mono_value:
  "timespec_ok ts \<Longrightarrow> now_ms_mono ts = Some (tv_sec ts * 1000 + tv_nsec ts div 1000000)"
  by (auto simp: timespec_ok_def now_ms_mono_def c_int64_def sdiv_nonneg)

lemma now_ms_mono_order:
  assumes "timespec_ok a" "timespec_ok b" "a \<le> b"
  shows "\<exists>m m'. now_ms_mono a = Some m \<and> now_ms_mono b = Some m' \<and> m \<le> m' \<and>
    \<bar>1000000 * (m' - m) - (ns_of b - ns_of a)\<bar> < 1000000"
proof -
  obtain q q' where d: "tv_nsec a div 1000000 = q" "tv_nsec b div 1000000 = q'" by blast
  then have q: "1000000 * q \<le> tv_nsec a" "tv_nsec a < 1000000 * q + 1000000"
    "1000000 * q' \<le> tv_nsec b" "tv_nsec b < 1000000 * q' + 1000000"
    by auto
  then have "\<bar>1000000 * (tv_sec b * 1000 + q' - (tv_sec a * 1000 + q)) - (ns_of b - ns_of a)\<bar> < 1000000"
    by (simp add: abs_less_iff ns_of_def)
  moreover have "tv_sec a * 1000 + q \<le> tv_sec b * 1000 + q'"
    using assms q by (auto simp: timespec_ok_def less_eq_timespec_def)
  ultimately show ?thesis using assms(1,2) now_ms_mono_value d by metis
qed

lemma ms_split: "1000 * k * (t div 1000) + t mod 1000 * k = k * t" for t k :: int
proof -
  have "k * t = k * (1000 * (t div 1000) + t mod 1000)" by simp
  then show ?thesis by (simp only: distrib_left ac_simps)
qed

lemma poll_timeval_exact:
  "0 \<le> t \<Longrightarrow> (case poll_timeval t of (s, us) \<Rightarrow> 1000000 * s + us = 1000 * t \<and> 0 \<le> us \<and> us < 1000000)"
  using ms_split [of 1000 t] by (simp add: poll_timeval_def sdiv_nonneg smod_nonneg)

lemma mnet_sleep_ms_exact:
  "ns_of (mnet_sleep_ms ms) = 1000000 * uint ms \<and> 0 \<le> tv_nsec (mnet_sleep_ms ms) \<and> tv_nsec (mnet_sleep_ms ms) < 1000000000"
  using ms_split [of 1000000 "uint ms"] by (simp add: mnet_sleep_ms_def ns_of_def uint_div uint_mod)

text \<open>The \<open>DWORD\<close> wraps around for a timeout of more than 49 days.\<close>

lemma socket_timeout_windows_exact:
  assumes "0 \<le> s"
  shows "uint (socket_timeout_windows s) = 1000 * s \<longleftrightarrow> s \<le> 4294967"
proof -
  have "uint (socket_timeout_windows s) = (s * 1000) mod 4294967296"
    by (simp add: socket_timeout_windows_def uint_word_ariths unsigned_of_int take_bit_eq_mod mod_mult_left_eq)
  moreover have "(s * 1000) mod 4294967296 < 4294967296" by simp
  ultimately show ?thesis using assms by (cases "s \<le> 4294967") auto
qed

text \<open>
  Time survives its conversions. The millisecond clock is defined on every reading (no overflow
  for 292 million years), never goes backwards when the readings do not, and a difference of two of
  its values is off by less than a millisecond; and the structures built from a timeout in
  milliseconds are normalised and stand for exactly that time, for \<open>select\<close> and \<open>nanosleep\<close> alike.
\<close>

theorem time_conversions:
  assumes "timespec_ok a" "timespec_ok b" "a \<le> b" "0 \<le> t"
  shows "(\<exists>m m'. now_ms_mono a = Some m \<and> now_ms_mono b = Some m' \<and> m \<le> m' \<and>
      \<bar>1000000 * (m' - m) - (ns_of b - ns_of a)\<bar> < 1000000) \<and>
    (case poll_timeval t of (sec, us) \<Rightarrow> 1000000 * sec + us = 1000 * t \<and> 0 \<le> us \<and> us < 1000000) \<and>
    ns_of (mnet_sleep_ms ms) = 1000000 * uint ms \<and> 0 \<le> tv_nsec (mnet_sleep_ms ms) \<and> tv_nsec (mnet_sleep_ms ms) < 1000000000"
  using now_ms_mono_order [OF assms(1-3)] poll_timeval_exact [OF assms(4)] mnet_sleep_ms_exact [of ms] by simp

theorem time_conversions_witness:
  "\<exists>m m'. now_ms_mono (Timespec 7 999999999) = Some m \<and> now_ms_mono (Timespec 8 1) = Some m' \<and> m \<le> m'"
  using time_conversions [of "Timespec 7 999999999" "Timespec 8 1" 1500 0]
  by (simp add: timespec_ok_def less_eq_timespec_def) blast

section \<open>Search\<close>

lemma strnicmp_prefix:
  "strnicmp_eq a b (length b) \<longleftrightarrow> prefix (map to_lower b) (map to_lower a)"
proof -
  have "strnicmp_eq a b (length b) \<longleftrightarrow> take (length b) (map to_lower a) = map to_lower b"
    by (simp add: strnicmp_eq_def strcaseeq_def take_map)
  also have "\<dots> \<longleftrightarrow> prefix (map to_lower b) (map to_lower a)"
    by (metis append_eq_conv_conj length_map prefix_def take_is_prefix)
  finally show ?thesis .
qed

lemma strcasestr_loop_eq:
  "n \<noteq> [] \<Longrightarrow> strcasestr_loop h n i = map_option (\<lambda>k. i + k) (strcasestr h n)"
proof (induction h arbitrary: i)
  case (Cons c cs)
  then show ?case
    by (auto simp: strcasestr_def strnicmp_prefix option.map_comp comp_def intro!: arg_cong [where f = "\<lambda>f. map_option f _"])
qed (simp add: strcasestr_def)

text \<open>
  C37. The search of the Windows build is the search of the others: on all strings, also the empty
  ones, the loop of \<^verbatim>\<open>mnet_internal.h\<close> finds the first place where \<open>strcasestr\<close> of the GNU library finds
  the needle, and none when that finds none, so that the parser splits a header block alike
  everywhere.
\<close>

theorem strcasestr_windows_correct:
  "strcasestr_windows (Some h) (Some n) = strcasestr h n"
proof (cases "n = []")
  case True
  then show ?thesis by (cases h) (simp_all add: strcasestr_windows_def strcasestr_def)
next
  case False
  then show ?thesis
    using strcasestr_loop_eq [OF False, of h 0] by (simp add: strcasestr_windows_def option.map_ident)
qed

section \<open>Sockets\<close>

text \<open>Winsock is started successfully at most once, and a failed start is tried again.\<close>

fun wsa_inits :: "bool \<Rightarrow> bool list \<Rightarrow> (int \<times> bool) list" where
  "wsa_inits started [] = []"
| "wsa_inits started (ok # oks) =
     (case mnet_wsa_init started ok of (r, started', called) \<Rightarrow> (r, called) # wsa_inits started' oks)"

lemma wsa_started: "wsa_inits True oks = replicate (length oks) (0, False)"
  by (induction oks) (simp_all add: mnet_wsa_init_def)

lemma mnet_wsa_init_once:
  "\<not> ok \<Longrightarrow> wsa_inits False (replicate k ok @ True # oks) =
     replicate k (-1, True) @ (0, True) # replicate (length oks) (0, False)"
  by (induction k) (simp_all add: mnet_wsa_init_def wsa_started)

text \<open>The cast keeps every length of less than 2 gibibytes.\<close>

lemma passed_length_exact:
  assumes "uint len < 2147483648"
  shows "passed_length len = len"
proof -
  have "sint (ucast len :: 32 word) = signed_take_bit 31 (uint len)"
    by (simp add: sint_uint unsigned_ucast_eq signed_take_bit_take_bit)
  also have "\<dots> = uint len"
  proof (rule signed_take_bit_int_eq_self)
    have "(- (2 ^ 31) :: int) \<le> 0" by simp
    also have "0 \<le> uint len" by simp
    finally show "- (2 ^ 31) \<le> uint len" .
  qed (use assms in simp)
  finally show ?thesis by (simp add: passed_length_def scast_eq)
qed

text \<open>A body that is four gibibytes and five bytes long: five bytes are sent.\<close>

lemma passed_length_cut: "passed_length (4294967296 + 5) = 5"
  by code_simp

text \<open>
  Nothing is lost exactly when no send is short: a block of which the system takes less than all is
  never completed.
\<close>

lemma on_wire_whole:
  assumes "length ns = length blocks"
  shows "on_wire ns blocks = concat blocks \<longleftrightarrow> (\<forall>(n, b)\<in>set (zip ns blocks). length b \<le> n)"
  using assms
proof (induction ns blocks rule: list_induct2)
  case (Cons n ns b bs)
  have le: "length (on_wire ns bs) \<le> length (concat bs)" for ns bs
  proof (induction bs arbitrary: ns)
    case (Cons b bs)
    then show ?case by (cases ns) (simp_all add: on_wire_def add_mono)
  qed (simp add: on_wire_def)
  show ?case
  proof (cases "length b \<le> n")
    case True
    then show ?thesis using Cons(2) by (simp add: on_wire_def)
  next
    case False
    then have "length (on_wire (n # ns) (b # bs)) < length (concat (b # bs))"
      using le [of ns bs] by (simp add: on_wire_def)
    with False show ?thesis by auto
  qed
qed (simp add: on_wire_def)

end
