(* ===== verification/Client.thy ===== *)
theory Client
  imports Socket
begin

text \<open>
  The HTTP client of \<^verbatim>\<open>src/src/mnet_client.c\<close>: the URL parser, the connection to the first address
  that answers, the reader of the response and \<open>mnet_call\<close>. Name resolution, \<open>socket\<close> and
  \<open>connect\<close> are parameters as in \<open>Socket\<close>. What \<open>recv\<close> returns is a script: a piece of data, an
  interrupted call or a failure (the receive timeout of 30 seconds is one); at the end of the
  script the peer has closed the connection. \<open>None\<close> is undefined behaviour.
\<close>

section \<open>Connecting\<close>

record connect_entry =
  ce_socket :: "int option"
  ce_connect :: bool

fun connect_loop :: "connect_entry list \<Rightarrow> int list \<Rightarrow> int option \<times> int list" where
  "connect_loop [] closed = (None, closed)"
| "connect_loop (e # es) closed =
     (case ce_socket e of
        None \<Rightarrow> connect_loop es closed
      | Some fd \<Rightarrow>
          if ce_connect e then (Some fd, closed)
          else connect_loop es (closed @ mnet_close (Some fd)))"

text \<open>The result is the connected socket, if any, and the descriptors closed.\<close>

definition mnet_socket_connect ::
  "(string \<Rightarrow> string \<Rightarrow> int + connect_entry list) \<Rightarrow> string option \<Rightarrow> nat \<Rightarrow> int option \<times> int list" where
  "mnet_socket_connect resolve host port =
     (case host of
        None \<Rightarrow> (None, [])
      | Some h \<Rightarrow>
          (case resolve h (snprintf_out 16 (show_nat port)) of
             Inl err \<Rightarrow> (None, [])
           | Inr es \<Rightarrow> connect_loop es []))"

section \<open>The URL\<close>

text \<open>\<open>strtol\<close> in base 10 with a 64-bit \<open>long\<close>: the value, and how many bytes were read.\<close>

definition strtol :: "string \<Rightarrow> int \<times> nat" where
  "strtol s =
     (let ws = takeWhile isspace s;
          t = dropWhile isspace s;
          sign = (if t \<noteq> [] \<and> (hd t = CHR ''-'' \<or> hd t = CHR ''+'') then [hd t] else []);
          ds = takeWhile isdigit (drop (length sign) t);
          v = (if sign = ''-'' then - int (dec_val ds) else int (dec_val ds))
      in if ds = [] then (0, 0)
         else (max (- (2 ^ 63)) (min (2 ^ 63 - 1) v), length ws + length sign + length ds))"

definition skip_scheme :: "string \<Rightarrow> string" where
  "skip_scheme url =
     (if prefix ''https://'' url then drop 8 url else if prefix ''http://'' url then drop 7 url else url)"

definition url_port :: "string \<Rightarrow> nat \<Rightarrow> nat" where
  "url_port port_start len =
     (if len = 0 then 80
      else case strtol port_start of (port, n) \<Rightarrow>
        if n \<noteq> 0 \<and> n = len \<and> 0 < port \<and> port < 65536 then nat port else 80)"

text \<open>
  The host, the port and the path, or \<open>Some None\<close> for the result -1. The two buffers are arrays
  of the caller, so only \<open>url\<close> can be a null pointer; a buffer of size 0 would be overrun.
\<close>

definition mnet_url_parse :: "string option \<Rightarrow> nat \<Rightarrow> nat \<Rightarrow> (string \<times> nat \<times> string) option option" where
  "mnet_url_parse url host_size path_size =
     (case url of
        None \<Rightarrow> Some None
      | Some u \<Rightarrow>
          let host_start = skip_scheme u;
              host = takeWhile (\<lambda>c. c \<notin> set '':/?#'') host_start;
              p = drop (length host) host_start
          in if host = [] then Some None
             else if host_size = 0 \<or> path_size = 0 then None
             else
               let has_port = (p \<noteq> [] \<and> hd p = CHR '':'');
                   port_start = drop 1 p;
                   port_len = length (takeWhile (\<lambda>c. c \<notin> set ''/?#'') port_start);
                   path_start = (if has_port then drop port_len port_start else p)
               in Some (Some
                    (if length host \<ge> host_size then take (host_size - 1) host else host,
                     if has_port then url_port port_start port_len else 80,
                     if length path_start \<ge> path_size then take (path_size - 1) path_start else path_start)))"

section \<open>The response\<close>

datatype recv_event = Piece bytes | Intr | Fail

text \<open>The capacity the buffer grows to; it is never 0.\<close>

function grow_cap :: "nat \<Rightarrow> nat \<Rightarrow> nat" where
  "grow_cap ncap need = (if 0 < ncap \<and> ncap < need then grow_cap (ncap * 2) need else ncap)"
  by pat_completeness auto
termination
  by (relation "measure (\<lambda>(ncap, need). need - ncap)") auto

declare grow_cap.simps [simp del]

datatype read_end = Read_ok bytes | Read_failed | Read_no_memory

fun recv_size :: "recv_event list \<Rightarrow> nat" where
  "recv_size [] = 0"
| "recv_size (Piece xs # es) = Suc (length xs + recv_size es)"
| "recv_size (e # es) = Suc (recv_size es)"

text \<open>\<open>raw\<close> has the bytes received, in a block of \<open>raw_cap\<close> bytes (0 while the pointer is null).\<close>

function read_loop :: "nat \<Rightarrow> bytes \<Rightarrow> nat \<Rightarrow> recv_event list \<Rightarrow> alloc \<Rightarrow> (read_end \<times> alloc) option" where
  "read_loop cap raw raw_cap es al =
     (if length raw < cap then
        case es of
          [] \<Rightarrow> Some (Read_ok raw, al)
        | Intr # es' \<Rightarrow> read_loop cap raw raw_cap es' al
        | Fail # es' \<Rightarrow> Some (Read_failed, al)
        | Piece xs # es' \<Rightarrow>
            let buf = take 8192 xs;
                es'' = (if length xs \<le> 8192 then es' else Piece (drop 8192 xs) # es')
            in if buf = [] then Some (Read_ok raw, al)
               else if length raw + length buf > raw_cap then
                 let ncap = grow_cap (if raw_cap > 0 then raw_cap * 2 else 16384) (length raw + length buf)
                 in case malloc al of
                      (False, al') \<Rightarrow> Some (Read_no_memory, al')
                    | (True, al') \<Rightarrow>
                        (case put_block raw ncap buf of None \<Rightarrow> None | Some raw' \<Rightarrow> read_loop cap raw' ncap es'' al')
               else
                 (case put_block raw raw_cap buf of None \<Rightarrow> None | Some raw' \<Rightarrow> read_loop cap raw' raw_cap es'' al)
      else Some (Read_ok raw, al))"
  by pat_completeness auto
termination
  by (relation "measure (\<lambda>(cap, raw, raw_cap, es, al). recv_size es)") auto

declare read_loop.simps [simp del]

text \<open>
  \<open>atoi\<close> on bytes that are not terminated: when the number runs to the last byte received, the
  routine reads on behind it; a number outside \<open>int\<close> is undefined as well.
\<close>

definition atoi_in :: "bytes \<Rightarrow> int option" where
  "atoi_in s =
     (let t = dropWhile isspace s;
          u = (if t \<noteq> [] \<and> (hd t = CHR ''-'' \<or> hd t = CHR ''+'') then drop 1 t else t)
      in if dropWhile isdigit u = [] \<or> \<not> c_int (atoi s) then None else Some (atoi s))"

definition read_status :: "bytes \<Rightarrow> int option" where
  "read_status raw =
     (if length raw \<ge> 12 \<and> prefix ''HTTP/'' raw then
        case strchr raw SP of None \<Rightarrow> Some 0 | Some k \<Rightarrow> atoi_in (drop (k + 1) raw)
      else Some 0)"

text \<open>The offset of the body, from position \<open>i\<close> on.\<close>

fun blank_end :: "nat \<Rightarrow> bytes \<Rightarrow> nat option" where
  "blank_end i (a # b # rest) =
     (if a = CR \<and> b = LF \<and> prefix CRLF rest then Some (i + 4)
      else if a = LF \<and> b = LF then Some (i + 2)
      else blank_end (Suc i) (b # rest))"
| "blank_end i raw = None"

definition mnet_read_response ::
  "recv_event list \<Rightarrow> nat \<Rightarrow> alloc \<Rightarrow> ((bytes \<times> int) option \<times> alloc) option" where
  "mnet_read_response es max_body al =
     (case read_loop (max_body + 8192) [] 0 es al of
        None \<Rightarrow> None
      | Some (Read_ok raw, al1) \<Rightarrow>
          if raw = [] then Some (None, al1)
          else
            (case read_status raw of
               None \<Rightarrow> None
             | Some status \<Rightarrow>
                 let body_off = (case blank_end 0 raw of None \<Rightarrow> length raw | Some k \<Rightarrow> k);
                     body_len = min (length raw - body_off) max_body
                 in case malloc al1 of
                      (False, al2) \<Rightarrow> Some (None, al2)
                    | (True, al2) \<Rightarrow> Some (Some (take body_len (drop body_off raw), status), al2))
      | Some (_, al1) \<Rightarrow> Some (None, al1))"

section \<open>The call\<close>

record client_net =
  cn_resolve :: "string \<Rightarrow> string \<Rightarrow> int + connect_entry list"
  cn_send_ok :: bool
  cn_recv :: "recv_event list"

definition call_request :: "string \<Rightarrow> string \<Rightarrow> string" where
  "call_request path host =
     ''GET '' @ path @ '' HTTP/1.1'' @ CRLF @
     ''Host: '' @ host @ CRLF @
     ''User-Agent: mnet/0.2.5'' @ CRLF @
     ''Accept: */*'' @ CRLF @
     ''Connection: close'' @ CRLF @ CRLF"

text \<open>The body, the blocks sent, the descriptors closed, and what is left of the allocator.\<close>

definition mnet_call ::
  "client_net \<Rightarrow> string option \<Rightarrow> alloc \<Rightarrow> (bytes option \<times> bytes list \<times> int list \<times> alloc) option" where
  "mnet_call net url al =
     (case mnet_url_parse url 1024 2048 of
        None \<Rightarrow> None
      | Some None \<Rightarrow> Some (None, [], [], al)
      | Some (Some (host, port, path)) \<Rightarrow>
          (case mnet_socket_connect (cn_resolve net) (Some host) port of
             (None, closed) \<Rightarrow> Some (None, [], closed, al)
           | (Some sock, closed) \<Rightarrow>
               let req = call_request path host; shut = closed @ mnet_close (Some sock)
               in if length req \<ge> 4096 then Some (None, [], shut, al)
                  else if \<not> cn_send_ok net then Some (None, [req], shut, al)
                  else
                    (case mnet_read_response (cn_recv net) (unat MNET_MAX_BODY_SIZE) al of
                       None \<Rightarrow> None
                     | Some (None, al1) \<Rightarrow> Some (None, [req], shut, al1)
                     | Some (Some (body, status), al1) \<Rightarrow>
                         Some (if status \<ge> 400 then None else Some body, [req], shut, al1))))"

text \<open>\<open>mnet_call_async\<close> calls back on the caller's thread with the body or a null pointer.\<close>

definition mnet_call_async ::
  "client_net \<Rightarrow> string option \<Rightarrow> (bytes option \<Rightarrow> 'w \<Rightarrow> 'w) option \<Rightarrow> alloc \<Rightarrow> 'w \<Rightarrow> 'w option" where
  "mnet_call_async net url callback al w =
     (case callback of
        None \<Rightarrow> Some w
      | Some f \<Rightarrow>
          if url = None then Some w
          else map_option (\<lambda>(body, sent, closed, al'). f body w) (mnet_call net url al))"

section \<open>The URL is read as it is written\<close>

definition port_text :: "nat option \<Rightarrow> string" where
  "port_text port = (case port of None \<Rightarrow> [] | Some n \<Rightarrow> CHR '':'' # show_nat n)"

lemma digit_plain: "isdigit c \<Longrightarrow> \<not> isspace c \<and> c \<notin> set ''-+:/?#''"
  by (auto simp: isdigit_def isspace_def)

lemma strtol_show_nat:
  assumes "n < 65536" "rest = [] \<or> \<not> isdigit (hd rest)"
  shows "strtol (show_nat n @ rest) = (int n, length (show_nat n))"
proof -
  obtain x xs where x: "show_nat n = x # xs" by (cases "show_nat n") simp_all
  then have d: "isdigit x" "\<forall>c\<in>set (show_nat n). isdigit c" using show_nat_isdigit [of _ n] by auto
  have t: "takeWhile isdigit (show_nat n @ rest) = show_nat n"
    using d(2) assms(2) by (rule takeWhile_front)
  moreover have "takeWhile isspace (show_nat n @ rest) = []" "dropWhile isspace (show_nat n @ rest) = show_nat n @ rest"
    "\<not> (hd (show_nat n @ rest) = CHR ''-'' \<or> hd (show_nat n @ rest) = CHR ''+'')"
    using digit_plain [OF d(1)] by (auto simp: x)
  ultimately show ?thesis using assms(1) by (simp add: strtol_def Let_def)
qed

lemma skip_scheme_bare:
  assumes "set host \<inter> set '':/?#'' = {}" "rest = [] \<or> hd rest \<in> set '':/?#''" "\<not> prefix ''://'' rest"
  shows "skip_scheme (host @ rest) = host @ rest"
proof -
  let ?P = "\<lambda>c. c \<notin> set '':/?#''"
  have h: "takeWhile ?P (host @ rest) = host"
    using assms(1,2) by (intro takeWhile_front) auto
  have "\<not> prefix (s @ ''://'') (host @ rest)" if "set s \<inter> set '':/?#'' = {}" for s
  proof
    assume "prefix (s @ ''://'') (host @ rest)"
    then obtain t where t: "host @ rest = s @ ''://'' @ t" by (auto simp: prefix_def)
    then have "takeWhile ?P (host @ rest) = s" unfolding t by (intro takeWhile_front) (use that in auto)
    with h t show False using assms(3) by simp
  qed
  from this [of "''https''"] this [of "''http''"] show ?thesis by (simp add: skip_scheme_def)
qed

lemma mnet_url_parse_text:
  assumes "scheme \<in> {'''', ''http://'', ''https://''}" "host \<noteq> []" "set host \<inter> set '':/?#'' = {}"
    "case port of None \<Rightarrow> True | Some n \<Rightarrow> 0 < n \<and> n < 65536" "path = [] \<or> hd path \<in> set ''/?#''"
    "length host < host_size" "length path < path_size"
  shows "mnet_url_parse (Some (scheme @ host @ port_text port @ path)) host_size path_size =
    Some (Some (host, case port of None \<Rightarrow> 80 | Some n \<Rightarrow> n, path))"
proof -
  let ?r = "port_text port @ path"
  have r: "?r = [] \<or> hd ?r \<in> set '':/?#''" using assms(5) by (cases port) (auto simp: port_text_def)
  have "\<not> prefix ''://'' ?r"
  proof (cases port)
    case (Some n)
    have "isdigit (hd (show_nat n))" by (rule show_nat_isdigit [of _ n]) simp
    then have "hd (show_nat n) \<noteq> CHR ''/''" using digit_plain by auto
    then show ?thesis using Some by (cases "show_nat n") (auto simp: port_text_def)
  qed (use assms(5) in \<open>cases path; auto simp: port_text_def\<close>)
  with skip_scheme_bare [OF assms(3) r] have s: "skip_scheme (scheme @ host @ ?r) = host @ ?r"
    using assms(1) by (auto simp: skip_scheme_def)
  have h: "takeWhile (\<lambda>c. c \<notin> set '':/?#'') (host @ ?r) = host"
    using assms(3) r by (intro takeWhile_front) auto
  show ?thesis
  proof (cases port)
    case None
    then have r': "port_text port @ path = path" by (simp add: port_text_def)
    have p: "(path \<noteq> [] \<and> hd path = CHR '':'') = False" using assms(5) by auto
    have d: "drop (length host) (host @ path) = path" by simp
    show ?thesis unfolding mnet_url_parse_def option.case Let_def s h unfolding r' d p if_False
      using assms(2,6,7) None by simp
  next
    case (Some n)
    have t: "takeWhile (\<lambda>c. c \<notin> set ''/?#'') (show_nat n @ path) = show_nat n"
      using show_nat_isdigit [of _ n] digit_plain assms(5) by (intro takeWhile_front) fastforce+
    have n: "0 < n" "n < 65536" using assms(4) Some by auto
    have "path = [] \<or> \<not> isdigit (hd path)" using assms(5) digit_plain [of "hd path"] by auto
    from strtol_show_nat [OF n(2) this] have "url_port (show_nat n @ path) (length (show_nat n)) = n"
      using n by (simp add: url_port_def)
    with Some t assms(2,6,7) show ?thesis unfolding mnet_url_parse_def option.case Let_def s h
      by (simp add: port_text_def)
  qed
qed

text \<open>
  C35. URLs mean what they say. Whatever the scheme (\<open>http\<close>, \<open>https\<close> or none), a host followed by
  an optional port between 1 and 65535 and an optional path, query or fragment is taken apart into
  exactly these, with 80 for a missing port, as long as host and path fit their buffers.
\<close>

theorem mnet_url_parse_roundtrip:
  assumes "scheme \<in> {'''', ''http://'', ''https://''}" "host \<noteq> []" "set host \<inter> set '':/?#'' = {}"
    "case port of None \<Rightarrow> True | Some n \<Rightarrow> 0 < n \<and> n < 65536" "path = [] \<or> hd path \<in> set ''/?#''"
    "length host < host_size" "length path < path_size"
  shows "mnet_url_parse (Some (scheme @ host @ port_text port @ path)) host_size path_size =
    Some (Some (host, case port of None \<Rightarrow> 80 | Some n \<Rightarrow> n, path))"
  using assms by (rule mnet_url_parse_text)

theorem mnet_url_parse_roundtrip_witness:
  "mnet_url_parse (Some (''http://'' @ ''example.com'' @ port_text (Some 8080) @ ''/path'')) 1024 2048 =
    Some (Some (''example.com'', 8080, ''/path''))"
  using mnet_url_parse_roundtrip [of "''http://''" "''example.com''" "Some 8080" "''/path''" 1024 2048] by simp

section \<open>Reading the response\<close>

text \<open>The bytes that arrive before the peer closes or the connection fails, and whether it closes.\<close>

fun payload :: "recv_event list \<Rightarrow> bytes" where
  "payload (Piece xs # es) = (if xs = [] then [] else xs @ payload es)"
| "payload (Intr # es) = payload es"
| "payload _ = []"

fun orderly :: "recv_event list \<Rightarrow> bool" where
  "orderly [] = True"
| "orderly (Piece xs # es) \<longleftrightarrow> xs = [] \<or> orderly es"
| "orderly (Intr # es) = orderly es"
| "orderly (Fail # es) = False"

lemma grow_cap_ge: "0 < n \<Longrightarrow> need \<le> grow_cap n need"
  by (induction n need rule: grow_cap.induct) (simp add: grow_cap.simps)

text \<open>
  What the loop ends with: an initial piece of what arrives, never more than one block beyond the
  limit; all of it if it is within the limit and the peer closes the connection.
\<close>

definition read_end_ok :: "nat \<Rightarrow> bytes \<Rightarrow> recv_event list \<Rightarrow> alloc \<Rightarrow> (read_end \<times> alloc) option \<Rightarrow> bool" where
  "read_end_ok cap raw es al res \<longleftrightarrow>
     (\<exists>r al'. res = Some (r, al') \<and>
        (\<forall>raw'. r = Read_ok raw' \<longrightarrow> prefix raw' (raw @ payload es) \<and> length raw' < max (Suc (length raw)) (cap + 8192) \<and>
           (length (raw @ payload es) \<le> cap \<longrightarrow> raw' = raw @ payload es)) \<and>
        (al = [] \<longrightarrow> al' = []) \<and> (al = [] \<and> orderly es \<longrightarrow> (\<exists>raw'. r = Read_ok raw')))"

lemma read_end_ok_stop: "payload es = [] \<or> cap \<le> length raw \<Longrightarrow> read_end_ok cap raw es al (Some (Read_ok raw, al))"
  by (cases "payload es") (auto simp: read_end_ok_def)

lemma read_end_ok_piece:
  assumes "read_end_ok cap (raw @ take 8192 xs) es'' al' res" "xs \<noteq> []" "length raw < cap" "al = [] \<longrightarrow> al' = []"
    "es'' = (if length xs \<le> 8192 then es else Piece (drop 8192 xs) # es)"
  shows "read_end_ok cap raw (Piece xs # es) al res"
proof -
  have "raw @ take 8192 xs @ payload es'' = raw @ payload (Piece xs # es)"
  proof (cases "length xs \<le> 8192")
    case False
    then have "payload es'' = drop 8192 xs @ payload es" using assms(5) by auto
    then show ?thesis using assms(2) by (simp flip: append_assoc)
  qed (use assms(2,5) in simp)
  moreover have "orderly (Piece xs # es) \<longrightarrow> orderly es''" using assms(2,5) by auto
  ultimately show ?thesis using assms(1,3,4) unfolding read_end_ok_def by (auto simp: less_max_iff_disj)
qed

lemma read_loop_outcome: "length raw \<le> raw_cap \<Longrightarrow> read_end_ok cap raw es al (read_loop cap raw raw_cap es al)"
proof (induction cap raw raw_cap es al rule: read_loop.induct)
  case (1 cap raw raw_cap es al)
  show ?case
  proof (cases "length raw < cap")
    case False
    then show ?thesis by (simp add: read_loop.simps [of cap raw raw_cap] read_end_ok_stop)
  next
    case lt: True
    show ?thesis
    proof (cases es)
      case Nil
      then show ?thesis using lt by (simp add: read_loop.simps [of cap raw raw_cap] read_end_ok_stop)
    next
      case (Cons e es')
      show ?thesis
      proof (cases e)
        case Intr
        have "read_end_ok cap raw es' al (read_loop cap raw raw_cap es' al)"
          using 1(3) [OF lt Cons Intr 1(4)] .
        moreover have "read_loop cap raw raw_cap es al = read_loop cap raw raw_cap es' al"
          using lt Cons Intr by (simp add: read_loop.simps [of cap raw raw_cap "Intr # es'"])
        ultimately show ?thesis using Cons Intr by (simp add: read_end_ok_def)
      next
        case Fail
        then show ?thesis using lt Cons by (simp add: read_loop.simps [of cap raw] read_end_ok_def)
      next
        case (Piece xs)
        let ?b = "take 8192 xs" and ?es = "if length xs \<le> 8192 then es' else Piece (drop 8192 xs) # es'"
        let ?nc = "grow_cap (if 0 < raw_cap then raw_cap * 2 else 16384) (length raw + length ?b)"
        note U = read_loop.simps [of cap raw raw_cap "Piece xs # es'" al]
        show ?thesis
        proof (cases "xs = []")
          case True
          then have "read_loop cap raw raw_cap es al = Some (Read_ok raw, al)" using lt Cons Piece U by simp
          then show ?thesis using True Cons Piece by (simp add: read_end_ok_stop)
        next
          case ne: False
          then have b: "?b \<noteq> []" by simp
          show ?thesis
          proof (cases "length raw + length ?b > raw_cap")
            case True
            have room: "length (raw @ ?b) \<le> ?nc" using grow_cap_ge [of _ "length raw + length ?b"] by simp
            obtain ok al' where m: "malloc al = (ok, al')" by fastforce
            show ?thesis
            proof (cases ok)
              case False
              then have "al \<noteq> []" using m by auto
              then show ?thesis using False lt Cons Piece ne True m by (simp add: U read_end_ok_def)
            next
              case ok: True
              then have "ok = True" by simp
              have "read_end_ok cap (raw @ ?b) ?es al' (read_loop cap (raw @ ?b) ?nc ?es al')"
                using 1(1) [OF lt Cons Piece refl refl b True refl m [symmetric] \<open>ok = True\<close> _ room] room by (simp add: put_block_def)
              moreover have "al = [] \<longrightarrow> al' = []" using m by auto
              ultimately have "read_end_ok cap raw (Piece xs # es') al (read_loop cap (raw @ ?b) ?nc ?es al')"
                by (rule read_end_ok_piece [OF _ ne lt _ refl])
              then show ?thesis
                using ok lt Cons Piece ne True m room by (auto simp: U put_block_def)
            qed
          next
            case False
            then have room: "length (raw @ ?b) \<le> raw_cap" by simp
            have "read_end_ok cap (raw @ ?b) ?es al (read_loop cap (raw @ ?b) raw_cap ?es al)"
              using 1(2) [OF lt Cons Piece refl refl b False _ room] room by (simp add: put_block_def)
            then have "read_end_ok cap raw (Piece xs # es') al (read_loop cap (raw @ ?b) raw_cap ?es al)"
              by (rule read_end_ok_piece [OF _ ne lt _ refl]) simp
            then show ?thesis
              using lt Cons Piece ne False room by (auto simp: U put_block_def)
          qed
        qed
      qed
    qed
  qed
qed

section \<open>The body and the status\<close>

lemma blank_end_first:
  "strstr s CRLF2 = Some m \<Longrightarrow> \<forall>j<m. \<not> prefix LF2 (drop j s) \<Longrightarrow> blank_end i s = Some (i + m + 4)"
proof (induction i s arbitrary: m rule: blank_end.induct)
  case (1 i a b rest)
  show ?case
  proof (cases m)
    case 0
    with strstr_prefix [OF 1(2)] show ?thesis by auto
  next
    case (Suc k)
    then have s: "strstr (b # rest) CRLF2 = Some k" and n: "\<not> prefix CRLF2 (a # b # rest)"
      using 1(2) by (auto split: if_splits)
    have l: "\<not> (a = LF \<and> b = LF)" "\<forall>j<k. \<not> prefix LF2 (drop j (b # rest))"
      using 1(3) Suc by (force, auto)
    then show ?thesis using 1(1) [OF _ _ s l(2)] n Suc by auto
  qed
qed (auto split: if_splits)

lemma digits_end:
  "\<not> isdigit x \<Longrightarrow> takeWhile isdigit (show_nat n @ x # rest) = show_nat n"
  "\<not> isdigit x \<Longrightarrow> dropWhile isdigit (show_nat n @ x # rest) = x # rest"
  by (auto intro: takeWhile_stop dropWhile_stop show_nat_isdigit)

lemma atoi_in_show_int:
  assumes "c_int n" "\<not> isdigit x"
  shows "atoi_in (show_int n @ x # rest) = Some n"
proof (cases "n < 0")
  case True
  then show ?thesis using assms by (simp add: atoi_in_def atoi_def show_int_def isspace_def Let_def digits_end)
next
  case False
  obtain d ds where d: "show_nat (nat n) = d # ds" by (cases "show_nat (nat n)") simp_all
  then have "isdigit d" using show_nat_isdigit [of d "nat n"] by simp
  then have p: "\<not> isspace d" "d \<noteq> CHR ''-''" "d \<noteq> CHR ''+''" using digit_plain by auto
  then have w: "dropWhile isspace (show_nat (nat n) @ x # rest) = show_nat (nat n) @ x # rest"
    and h: "hd (show_nat (nat n) @ x # rest) \<noteq> CHR ''-''" "hd (show_nat (nat n) @ x # rest) \<noteq> CHR ''+''" by (simp_all add: d)
  have "atoi (show_nat (nat n) @ x # rest) = int (dec_val (takeWhile isdigit (show_nat (nat n) @ x # rest)))"
    using p(2,3) unfolding atoi_def Let_def w by (simp add: d split: char.splits bool.splits)
  then have "atoi (show_nat (nat n) @ x # rest) = n" using False assms(2) by (simp add: digits_end)
  with w h assms False show ?thesis by (simp add: atoi_in_def show_int_def Let_def digits_end)
qed

lemma read_status_line:
  assumes "c_int st" "rest \<noteq> []"
  shows "read_status (''HTTP/1.1 '' @ show_int st @ SP # rest) = Some st"
proof -
  have "show_int st \<noteq> []" by (simp add: show_int_def)
  with assms(2) have l: "2 \<le> length (show_int st) + length rest" by (cases "show_int st"; cases rest) auto
  have "strchr (''HTTP/1.1 '' @ show_int st @ SP # rest) SP = Some 8" by simp
  then show ?thesis
    using atoi_in_show_int [OF assms(1), of SP rest] l by (simp add: read_status_def isdigit_def)
qed

text \<open>
  A status line that is cut short right behind its digits makes \<open>atoi\<close> read on behind the bytes
  received, which nothing terminates.
\<close>

lemma read_status_cut: "read_status ''HTTP/1.1 200'' = None"
  by code_simp

lemma mnet_read_response_message:
  assumes "orderly es" "payload es = ''HTTP/1.1 '' @ show_int st @ SP # rest" "c_int st" "rest \<noteq> []"
    "strstr (payload es) CRLF2 = Some m" "\<forall>j<m. \<not> prefix LF2 (drop j (payload es))"
    "m + 4 \<le> 8192" "length (payload es) \<le> m + 4 + max_body"
  shows "mnet_read_response es max_body [] = Some (Some (drop (m + 4) (payload es), st), [])"
proof -
  obtain raw where r: "read_loop (max_body + 8192) [] 0 es [] = Some (Read_ok raw, [])" "raw = payload es"
    using read_loop_outcome [of "[]" 0 "max_body + 8192" es "[]"] assms(1,7,8) by (auto simp: read_end_ok_def)
  moreover have "raw \<noteq> []" "read_status raw = Some st" using r(2) read_status_line [OF assms(3,4)] assms(2) by simp_all
  moreover have "blank_end 0 raw = Some (m + 4)" using blank_end_first [OF assms(5,6)] r(2) by simp
  ultimately show ?thesis using assms(8) by (simp add: mnet_read_response_def Let_def)
qed

section \<open>Every call is clean\<close>

text \<open>Connecting goes through the addresses the way listening does.\<close>

definition answering :: "connect_entry \<Rightarrow> bool" where
  "answering e \<longleftrightarrow> ce_socket e \<noteq> None \<and> ce_connect e"

interpretation connecting: address_walk ce_socket answering connect_loop
  by unfold_locales (auto simp: answering_def mnet_close_def split: option.splits)

abbreviation opened :: "connect_entry list \<Rightarrow> int list" where
  "opened \<equiv> created ce_socket answering"

lemmas connect_loop_opened = connecting.walk_accounts

lemma mnet_url_parse_bounds:
  assumes "mnet_url_parse url hs ps = Some (Some (host, port, path))"
  shows "length host < hs" "length path < ps" "0 < port" "port < 65536"
proof -
  have "0 < url_port t k" "url_port t k < 65536" for t k
    by (auto simp: url_port_def nat_less_iff split: prod.splits)
  then show "length host < hs" "length path < ps" "0 < port" "port < 65536"
    using assms by (auto simp: mnet_url_parse_def Let_def split: option.splits if_split_asm)
qed

lemma call_request_fits: "length host < 1024 \<Longrightarrow> length path < 2048 \<Longrightarrow> length (call_request path host) < 4096"
  by (simp add: call_request_def)

text \<open>
  C36. A call leaves nothing behind. However name resolution, connecting, sending and receiving go,
  every socket that was created is closed exactly once before \<open>mnet_call\<close> returns; the request
  always fits its buffer, and it is the one request for the path and host of the URL; a body is
  returned only when a connection was made.
\<close>

theorem mnet_call_clean:
  assumes "mnet_url_parse url 1024 2048 = Some (Some (host, port, path))"
    "mnet_call net url al = Some (res, sent, closed, al')"
  shows "closed = (case cn_resolve net host (show_nat port) of Inl e \<Rightarrow> [] | Inr es \<Rightarrow> opened es) \<and>
    sent = (if fst (mnet_socket_connect (cn_resolve net) (Some host) port) = None then [] else [call_request path host]) \<and>
    length (call_request path host) < 4096 \<and> (res \<noteq> None \<longrightarrow> sent \<noteq> [])"
proof -
  note B = mnet_url_parse_bounds [OF assms(1)]
  have f: "length (call_request path host) < 4096" using call_request_fits B by simp
  obtain sock cl where c: "mnet_socket_connect (cn_resolve net) (Some host) port = (sock, cl)" by fastforce
  have "snprintf_out 16 (show_nat port) = show_nat port"
    using port_string_fits [OF B(4)] by (simp add: snprintf_out_def)
  then have o: "cl @ mnet_close sock = (case cn_resolve net host (show_nat port) of Inl e \<Rightarrow> [] | Inr es \<Rightarrow> opened es)"
    using c connect_loop_opened [of _ "[]" sock cl]
    by (auto simp: mnet_socket_connect_def mnet_close_def split: sum.splits)
  have "closed = cl @ mnet_close sock \<and> sent = (if sock = None then [] else [call_request path host]) \<and> (res \<noteq> None \<longrightarrow> sent \<noteq> [])"
  proof (cases sock)
    case None
    then show ?thesis using assms c by (simp add: mnet_call_def mnet_close_def)
  next
    case (Some fd)
    then show ?thesis using assms c f
      by (auto simp: mnet_call_def Let_def split: option.splits prod.splits if_splits)
  qed
  with o f c show ?thesis by auto
qed

theorem mnet_call_clean_witness:
  "mnet_call \<lparr>cn_resolve = \<lambda>h p. Inr [\<lparr>ce_socket = Some 5, ce_connect = False\<rparr>, \<lparr>ce_socket = Some 6, ce_connect = True\<rparr>],
      cn_send_ok = False, cn_recv = []\<rparr> (Some ''h/x'') [] = Some (None, [call_request ''/x'' ''h''], [5, 6], [])"
proof -
  let ?net = "\<lparr>cn_resolve = \<lambda>h p. Inr [\<lparr>ce_socket = Some 5, ce_connect = False\<rparr>, \<lparr>ce_socket = Some 6, ce_connect = True\<rparr>],
      cn_send_ok = False, cn_recv = []\<rparr>"
  have u: "mnet_url_parse (Some ''h/x'') 1024 2048 = Some (Some (''h'', 80, ''/x''))"
    using mnet_url_parse_text [of "''''" "''h''" None "''/x''" 1024 2048] by (simp add: port_text_def)
  have c: "mnet_socket_connect (cn_resolve ?net) (Some ''h'') 80 = (Some 6, [5])"
    by (simp add: mnet_socket_connect_def mnet_close_def)
  have f: "length (call_request ''/x'' ''h'') < 4096" by (simp add: call_request_def)
  have r: "mnet_call ?net (Some ''h/x'') [] = Some (None, [call_request ''/x'' ''h''], [5] @ mnet_close (Some 6), [])"
    using f unfolding mnet_call_def u option.case prod.case c by (simp add: Let_def)
  with mnet_call_clean [OF u r] show ?thesis by (simp add: mnet_close_def)
qed

end
