(* ===== verification/Client_Server.thy ===== *)
theory Client_Server
  imports Client Serving
begin

text \<open>
  The client of the library against its server: the request that \<open>mnet_call\<close> writes is one that
  \<open>mnet_handle_client\<close> serves, and the response that the server writes is one that
  \<open>mnet_read_response\<close> reads, so a call to a route returns the body of its handler.
\<close>

section \<open>The request of the client\<close>

definition call_headers :: "string \<Rightarrow> (string \<times> string) list" where
  "call_headers host =
     [(''Host'', host), (''User-Agent'', ''mnet/0.2.5''), (''Accept'', ''*/*''), (''Connection'', ''close'')]"

lemma call_request_text: "call_request path host = request_text ''GET'' path (call_headers host) []"
  by (simp add: call_request_def request_text_def call_headers_def header_line_def request_line_def)

lemma call_headers_facts:
  "\<not> persistent (call_headers host)" "framed (call_headers host) []"
  "wf_header (''Host'', host) \<Longrightarrow> \<forall>h\<in>set (call_headers host). wf_header h"
proof -
  have n: "\<not> strcaseeq ''Host'' ''Connection''" "\<not> strcaseeq ''User-Agent'' ''Connection''"
    "\<not> strcaseeq ''Accept'' ''Connection''" "\<not> strcaseeq ''close'' ''keep-alive''" by code_simp+
  then show "\<not> persistent (call_headers host)" by (simp add: persistent_def call_headers_def)
  have "\<forall>n\<in>{''Host'', ''User-Agent'', ''Accept'', ''Connection''}. \<not> strcaseeq n ''transfer-encoding'' \<and> \<not> strcaseeq n ''content-length''"
    by code_simp
  then show "framed (call_headers host) []" by (simp add: framed_def call_headers_def)
  have "wf_header (''User-Agent'', ''mnet/0.2.5'')" "wf_header (''Accept'', ''*/*'')" "wf_header (''Connection'', ''close'')"
    by code_simp+
  then show "wf_header (''Host'', host) \<Longrightarrow> \<forall>h\<in>set (call_headers host). wf_header h" by (simp add: call_headers_def)
qed

lemma call_acceptable:
  assumes "wf_target path" "wf_header (''Host'', host)" "length host < 1024" "room_for_digit (max_body app)"
    "resolve (registered app) MNET_HTTP_GET (path_part path) = Some r" "answers app r"
  shows "acceptable app ''GET'' MNET_HTTP_GET path (call_headers host) [] r"
proof -
  have "mnet_parse_method ''GET'' = Some MNET_HTTP_GET" by code_simp
  then have "rendered ''GET'' MNET_HTTP_GET path (call_headers host) []"
    using assms call_headers_facts [of host] by (simp add: rendered_def) (simp add: call_headers_def)
  moreover have "length (block ''GET'' path (call_headers host) @ CRLF2) \<le> 8191"
    using assms(1,3) by (simp add: block_def call_headers_def header_line_def request_line_def wf_target_def)
  ultimately show ?thesis using assms by (simp add: acceptable_def)
qed

section \<open>The response of the server\<close>

lemma no_LF2_before:
  assumes "ls \<noteq> []" "\<forall>l\<in>set ls. plain_line l" "j < length (join_lines ls)"
  shows "\<not> prefix LF2 (drop j (join_lines ls @ CRLF2 @ q))"
proof
  assume "prefix LF2 (drop j (join_lines ls @ CRLF2 @ q))"
  moreover have "drop j (join_lines ls @ CRLF2 @ q) = drop j (join_lines ls @ CRLF2) @ q" using assms(3) by simp
  moreover have "2 \<le> length (drop j (join_lines ls @ CRLF2))" using assms(3) by simp
  ultimately have "prefix LF2 (drop j (join_lines ls @ CRLF2))"
    by (metis length_Cons list.size(3) numeral_2_eq_2 prefix_length_prefix prefixI)
  with strstr_None [OF strstr_LF2_block [OF assms(1,2)]] show False by blast
qed

text \<open>
  The client reads what the server writes: whatever the pieces in which a response arrives and
  however often \<open>recv\<close> is interrupted, it gets the status and exactly the bytes behind the header
  block, for every message of plain header lines whose header block is within 8192 bytes and whose
  body is within the limit.
\<close>

lemma mnet_read_response_text:
  assumes "orderly es" "payload es = message (status_line st text # ls) body" "c_int st"
    "\<forall>l\<in>set (status_line st text # ls). plain_line l"
    "length (join_lines (status_line st text # ls) @ CRLF2) \<le> 8192" "length body \<le> limit"
  shows "mnet_read_response es limit [] = Some (Some (body, st), [])"
proof -
  let ?ls = "status_line st text # ls" and ?m = "length (join_lines (status_line st text # ls))"
  have p: "payload es = join_lines ?ls @ CRLF2 @ body" using assms(2) by (simp add: message_def)
  have "\<exists>r. join_lines ?ls = ''HTTP/1.1 '' @ show_int st @ SP # r"
    by (cases ls) (simp_all add: status_line_def)
  then obtain r where "payload es = ''HTTP/1.1 '' @ show_int st @ SP # r @ CRLF2 @ body" unfolding p by auto
  moreover have "strstr (payload es) CRLF2 = Some ?m" unfolding p by (rule strstr_block) (use assms(4) in auto)
  moreover have "\<forall>j<?m. \<not> prefix LF2 (drop j (payload es))"
    unfolding p using no_LF2_before [OF _ assms(4)] by blast
  ultimately have "mnet_read_response es limit [] = Some (Some (drop (?m + 4) (payload es), st), [])"
    using mnet_read_response_message [OF assms(1) _ assms(3), of "r @ CRLF2 @ body" ?m limit] assms(5,6) p by simp
  then show ?thesis by (simp add: p)
qed

section \<open>A call to a route\<close>

text \<open>The bytes the client makes of a response: it does not decode chunks.\<close>

definition received :: "mnet_response \<Rightarrow> bytes" where
  "received resp = (if r_chunked resp then chunked_text (body_of resp) else body_of resp)"

lemma reply_read:
  assumes "sendable resp False" "c_int (r_status resp)" "length (received resp) \<le> limit" "orderly es"
    "payload es = reply resp MNET_HTTP_GET False"
  shows "mnet_read_response es limit [] = Some (Some (received resp, r_status resp), [])"
proof -
  have p: "payload es = message (response_lines resp False) (received resp)"
    using assms(5) by (simp add: reply_def received_def)
  have "length (join_lines (response_lines resp False) @ CRLF2) < 1024"
    using assms(1) by (simp add: sendable_def response_header_message message_def)
  moreover obtain ls where l: "response_lines resp False = status_line (r_status resp) (status_text (r_status resp)) # ls"
    by (simp add: response_lines_def)
  ultimately show ?thesis
    using mnet_read_response_text [OF assms(4) _ assms(2) _ _ assms(3)] response_lines_plain [OF assms(1)] p by simp
qed


definition hello_net :: "bytes \<Rightarrow> client_net" where
  "hello_net xs =
     \<lparr>cn_resolve = \<lambda>h p. Inr [\<lparr>ce_socket = Some 6, ce_connect = True\<rparr>], cn_send_ok = True,
      cn_recv = [Piece (take 5 xs), Intr, Piece (drop 5 xs)]\<rparr>"


section \<open>A URL without a path\<close>

lemma header_line_plain: "wf_header h \<Longrightarrow> plain_line (header_line h)"
  using header_name_valid_chars header_value_valid_chars by (cases h) (fastforce simp: wf_header_def plain_line_def header_line_def)

text \<open>
  A URL without a path is called wrongly. For a URL that consists of a host and perhaps a port,
  which the documentation of \<open>MNET_CALL\<close> lists as supported, \<open>mnet_call\<close> sends an empty target
  instead of \<open>/\<close>, and the parser of the server takes the protocol version as the path: whatever the
  host, the request is one for \<open>HTTP/1.1\<close>.
\<close>

theorem call_without_path:
  assumes "scheme \<in> {'''', ''http://'', ''https://''}" "host \<noteq> []" "set host \<inter> set '':/?#'' = {}" "length host < 1024"
    "case port of None \<Rightarrow> True | Some n \<Rightarrow> 0 < n \<and> n < 65536" "wf_header (''Host'', host)"
  shows "\<exists>n. mnet_url_parse (Some (scheme @ host @ port_text port)) 1024 2048 = Some (Some (host, n, [])) \<and>
    parse_raw_request (call_request [] host) = (0, ''GET'', ''HTTP/1.1'')"
proof -
  let ?ls = "''GET  HTTP/1.1'' # map header_line (call_headers host)"
  have e: "call_request [] host = join_lines ?ls @ CRLF2"
    by (simp add: call_request_def call_headers_def header_line_def)
  have "plain_line ''GET  HTTP/1.1''" by code_simp
  then have pl: "\<forall>l\<in>set ?ls. plain_line l"
    using call_headers_facts(3) [OF assms(6)] header_line_plain by auto
  have "end_of_headers (call_request [] host) = Some (length (join_lines ?ls), 4)"
    unfolding e using strstr_block [OF _ pl, of "[]"] by (simp add: end_of_headers_def)
  moreover have "LF \<in> set (take (length (join_lines ?ls)) (call_request [] host))"
    unfolding e by (simp add: call_headers_def)
  moreover have "scan_word 15 (call_request [] host) = Some (''GET'', drop 3 (call_request [] host))"
    by (simp add: call_request_def scan_word_def isspace_def)
  moreover have "scan_word 2047 (drop 3 (call_request [] host)) = Some (''HTTP/1.1'', drop 13 (call_request [] host))"
    by (simp add: call_request_def scan_word_def isspace_def)
  ultimately have "parse_raw_request (call_request [] host) = (0, ''GET'', ''HTTP/1.1'')"
    by (simp add: parse_raw_request_def)
  moreover have "mnet_url_parse (Some (scheme @ host @ port_text port @ [])) 1024 2048 =
      Some (Some (host, case port of None \<Rightarrow> 80 | Some n \<Rightarrow> n, []))"
    using assms by (intro mnet_url_parse_text) auto
  ultimately show ?thesis by simp
qed

theorem call_without_path_witness:
  "parse_raw_request (call_request [] ''example.com'') = (0, ''GET'', ''HTTP/1.1'')"
proof -
  have "wf_header (''Host'', ''example.com'')" by code_simp
  then show ?thesis using call_without_path [of "''https://''" "''example.com''" None] by simp
qed

end
