(* ===== verification/Json_Escape.thy ===== *)
theory Json_Escape
  imports C_Lib
begin

text \<open>
  \<open>mnet_json_escape\<close> of \<^verbatim>\<open>src/mnet_response.c\<close>: the routine writes into a buffer of
  \<open>out_size\<close> bytes, every write checked against the memory it is given. The specification is
  the concatenation of the escapes of the bytes, and \<open>json_read\<close> is a reader of JSON string
  literals (RFC 8259) against which the result is judged.
\<close>

section \<open>Definitions\<close>

text \<open>The two-byte escapes of the \<open>switch\<close>.\<close>

definition json_short :: "char \<Rightarrow> char option" where
  "json_short c =
     (if c = DQUOTE then Some DQUOTE
      else if c = BACKSLASH then Some BACKSLASH
      else if c = LF then Some (CHR ''n'')
      else if c = CR then Some (CHR ''r'')
      else if c = TAB then Some (CHR ''t'')
      else None)"

fun json_escape_loop :: "bytes \<Rightarrow> nat \<Rightarrow> nat \<Rightarrow> string \<Rightarrow> (nat \<times> bytes) option" where
  "json_escape_loop out out_size pos [] = do { out' \<leftarrow> wr out pos NUL; Some (pos, out') }"
| "json_escape_loop out out_size pos (c # cs) =
     (if \<not> pos < out_size - 1 then do { out' \<leftarrow> wr out pos NUL; Some (pos, out') }
      else (case json_short c of
        Some e \<Rightarrow>
          if pos + 2 \<le> out_size - 1
          then do { out' \<leftarrow> wrs out pos [BACKSLASH, e]; json_escape_loop out' out_size (pos + 2) cs }
          else json_escape_loop out out_size pos cs
      | None \<Rightarrow>
          if uchar c < 32 then
            if pos + 6 \<le> out_size - 1
            then do { out' \<leftarrow> wrs out pos ([BACKSLASH, CHR ''u''] @ show_hex4 (uchar c) @ [NUL]);
                      json_escape_loop out' out_size (pos + 6) cs }
            else json_escape_loop out out_size pos cs
          else do { out' \<leftarrow> wr out pos c; json_escape_loop out' out_size (pos + 1) cs }))"

definition mnet_json_escape :: "bytes \<Rightarrow> nat \<Rightarrow> string option \<Rightarrow> (nat \<times> bytes) option" where
  "mnet_json_escape out out_size s =
     (if out_size = 0 then Some (0, out)
      else json_escape_loop out out_size 0 (case s of None \<Rightarrow> [] | Some t \<Rightarrow> t))"

section \<open>Specification\<close>

definition json_esc :: "char \<Rightarrow> string" where
  "json_esc c =
     (case json_short c of
        Some e \<Rightarrow> [BACKSLASH, e]
      | None \<Rightarrow> if uchar c < 32 then [BACKSLASH, CHR ''u''] @ show_hex4 (uchar c) else [c])"

definition json_esc_str :: "string \<Rightarrow> string" where
  "json_esc_str s = concat (map json_esc s)"

definition hex_digit_val :: "char \<Rightarrow> nat option" where
  "hex_digit_val c =
     (if 48 \<le> uchar c \<and> uchar c \<le> 57 then Some (uchar c - 48)
      else if 97 \<le> uchar c \<and> uchar c \<le> 102 then Some (uchar c - 87)
      else if 65 \<le> uchar c \<and> uchar c \<le> 70 then Some (uchar c - 55)
      else None)"

definition json_unshort :: "char \<Rightarrow> char option" where
  "json_unshort e =
     (if e \<in> {DQUOTE, BACKSLASH, CHR ''/''} then Some e
      else if e = CHR ''b'' then Some (CHR 0x08)
      else if e = CHR ''f'' then Some (CHR 0x0C)
      else if e = CHR ''n'' then Some LF
      else if e = CHR ''r'' then Some CR
      else if e = CHR ''t'' then Some TAB
      else None)"

text \<open>
  Reads the rest of a string literal whose opening quote has been read: the denoted bytes and
  the text after the closing quote. Raw control bytes are not allowed in a literal.
\<close>

fun json_read :: "string \<Rightarrow> (string \<times> string) option" where
  "json_read [] = None"
| "json_read (c # cs) =
     (if c = DQUOTE then Some ([], cs)
      else if c = BACKSLASH then
        (case cs of
           [] \<Rightarrow> None
         | e # rest \<Rightarrow>
             if e = CHR ''u'' then
               (case rest of
                  h1 # h2 # h3 # h4 # rest' \<Rightarrow>
                    do { a \<leftarrow> hex_digit_val h1; b \<leftarrow> hex_digit_val h2;
                         x \<leftarrow> hex_digit_val h3; y \<leftarrow> hex_digit_val h4;
                         let v = ((a * 16 + b) * 16 + x) * 16 + y;
                         (t, r) \<leftarrow> json_read rest';
                         if v < 128 then Some (char_of v # t, r) else None }
                | _ \<Rightarrow> None)
             else do { d \<leftarrow> json_unshort e; (t, r) \<leftarrow> json_read rest; Some (d # t, r) })
      else if uchar c < 32 then None
      else do { (t, r) \<leftarrow> json_read cs; Some (c # t, r) })"

section \<open>Escapes of single bytes\<close>

lemma digit_char_0: "digit_char 0 = CHR ''0''"
  by code_simp

lemma show_hex4_ctrl:
  assumes "n < 32"
  shows "show_hex4 n = [CHR ''0'', CHR ''0'', digit_char (n div 16), digit_char (n mod 16)]"
proof (cases "n < 16")
  case True
  then show ?thesis
    by (simp add: show_hex4_def show_hex_def radix.simps [of 16 n] digit_char_0 numeral_3_eq_3)
next
  case False
  with assms have "n div 16 = 1" by simp
  with False have "show_hex n = [digit_char (n div 16), digit_char (n mod 16)]"
    by (simp add: show_hex_def radix.simps [of 16 n] radix.simps [of 16 "Suc 0"])
  then show ?thesis by (simp add: show_hex4_def numeral_2_eq_2)
qed

lemma length_json_esc: "0 < length (json_esc c) \<and> length (json_esc c) \<le> 6"
  by (auto simp: json_esc_def show_hex4_ctrl split: option.splits)

lemma length_json_esc_str: "length (json_esc_str s) \<le> 6 * length s"
  by (induction s) (use length_json_esc in \<open>auto simp: json_esc_str_def intro: add_mono\<close>)

lemma json_esc_str_Nil [simp]: "json_esc_str [] = []"
  by (simp add: json_esc_str_def)

lemma json_esc_str_Cons [simp]: "json_esc_str (c # s) = json_esc c @ json_esc_str s"
  by (simp add: json_esc_str_def)

lemma json_esc_str_append: "json_esc_str (s @ t) = json_esc_str s @ json_esc_str t"
  by (simp add: json_esc_str_def)

lemma hex_digit_val_digit_char: "d < 16 \<Longrightarrow> hex_digit_val (digit_char d) = Some d"
  by (auto simp: hex_digit_val_def uchar_digit_char)

lemma json_esc_no_ctrl: "x \<in> set (json_esc c) \<Longrightarrow> 32 \<le> uchar x"
proof -
  assume x: "x \<in> set (json_esc c)"
  have "32 \<le> uchar (digit_char d)" if "d < 16" for d
    using that by (simp add: uchar_digit_char)
  then show ?thesis
    using x by (auto simp: json_esc_def json_short_def show_hex4_ctrl split: if_splits)
qed

lemma json_read_esc:
  "json_read (json_esc c @ rest) = map_option (\<lambda>(t, r). (c # t, r)) (json_read rest)"
proof (cases "json_short c")
  case (Some e)
  then have "json_unshort e = Some c" "e \<noteq> CHR ''u''"
    by (auto simp: json_short_def json_unshort_def split: if_splits)
  with Some show ?thesis
    by (cases "json_read rest") (auto simp: json_esc_def)
next
  case None
  then have plain: "c \<noteq> DQUOTE" "c \<noteq> BACKSLASH" by (auto simp: json_short_def split: if_splits)
  show ?thesis
  proof (cases "uchar c < 32")
    case True
    have z: "hex_digit_val (CHR ''0'') = Some 0" by (simp add: hex_digit_val_def)
    have v: "((0 * 16 + 0) * 16 + uchar c div 16) * 16 + uchar c mod 16 = uchar c" by simp
    have e: "json_esc c = [BACKSLASH, CHR ''u'', CHR ''0'', CHR ''0'',
        digit_char (uchar c div 16), digit_char (uchar c mod 16)]"
      using None True by (simp add: json_esc_def show_hex4_ctrl)
    have "hex_digit_val (digit_char (uchar c div 16)) = Some (uchar c div 16)"
      "hex_digit_val (digit_char (uchar c mod 16)) = Some (uchar c mod 16)"
      using uchar_div16 by (auto intro: hex_digit_val_digit_char)
    then show ?thesis
      using True z v by (cases "json_read rest") (simp_all add: e Let_def split_beta)
  next
    case False
    with None plain show ?thesis
      by (cases "json_read rest") (auto simp: json_esc_def)
  qed
qed

section \<open>The loop\<close>

text \<open>
  From position \<open>pos\<close> on, with room up to \<open>out_size\<close>: the escapes of some of the bytes, in
  order and each complete, then the terminator; all of the bytes when they fit.
\<close>

definition json_escaped :: "bytes \<Rightarrow> nat \<Rightarrow> nat \<Rightarrow> string \<Rightarrow> (nat \<times> bytes) option \<Rightarrow> bool" where
  "json_escaped out out_size pos s r \<longleftrightarrow>
     (\<exists>u out'. r = Some (pos + length (json_esc_str u), out') \<and> subseq u s \<and>
        pos + length (json_esc_str u) < out_size \<and> length out' = length out \<and>
        take (pos + length (json_esc_str u) + 1) out' = take pos out @ json_esc_str u @ [NUL] \<and>
        drop out_size out' = drop out_size out \<and>
        (pos + length (json_esc_str s) < out_size \<longrightarrow> u = s))"

lemma json_escaped_stop:
  assumes "out_size \<le> length out" "pos < out_size" "s = [] \<or> out_size \<le> pos + 1"
  shows "json_escaped out out_size pos s (do { out' \<leftarrow> wr out pos NUL; Some (pos, out') })"
proof -
  have "out_size \<le> pos + length (json_esc_str s)" if ne: "s \<noteq> []"
  proof -
    obtain c t where s: "s = c # t" using ne by (cases s) auto
    then have "0 < length (json_esc_str s)" using length_json_esc [of c] by simp
    moreover have "out_size \<le> pos + 1" using s assms(3) by simp
    ultimately show ?thesis by linarith
  qed
  then have "pos + length (json_esc_str s) < out_size \<longrightarrow> [] = s"
    by (cases s) auto
  then show ?thesis
    using assms(1,2)
    by (auto simp: json_escaped_def wr_def take_Suc_conv_app_nth intro!: exI [of _ "[]"])
qed

lemma json_escaped_skip:
  "json_escaped out out_size pos s r \<Longrightarrow> out_size \<le> pos + length (json_esc c) \<Longrightarrow>
   json_escaped out out_size pos (c # s) r"
  unfolding json_escaped_def by (fastforce intro: list_emb.intros)

lemma json_escaped_emit:
  assumes "json_escaped out1 out_size (pos + length (json_esc c)) s r"
    and "length out1 = length out" "take (pos + length (json_esc c)) out1 = take pos out @ json_esc c"
    and "drop out_size out1 = drop out_size out"
  shows "json_escaped out out_size pos (c # s) r"
proof -
  obtain u out' where "r = Some (pos + length (json_esc_str (c # u)), out')" "subseq u s"
    "pos + length (json_esc_str (c # u)) < out_size" "length out' = length out"
    "take (pos + length (json_esc_str (c # u)) + 1) out' = take pos out @ json_esc_str (c # u) @ [NUL]"
    "drop out_size out' = drop out_size out"
    "pos + length (json_esc_str (c # s)) < out_size \<longrightarrow> u = s"
    using assms by (auto simp: json_escaped_def add.assoc)
  then show ?thesis
    unfolding json_escaped_def by (intro exI [of _ "c # u"] exI [of _ out']) auto
qed

text \<open>One turn of the loop, in terms of the escape of its byte (\<open>snprintf\<close> also terminates it).\<close>

definition json_tail :: "char \<Rightarrow> string" where
  "json_tail c = (if json_short c = None \<and> uchar c < 32 then [NUL] else [])"

lemma json_escape_loop_Cons:
  assumes "pos < out_size - 1"
  shows "json_escape_loop out out_size pos (c # s) =
    (if pos + length (json_esc c) \<le> out_size - 1
     then do { out' \<leftarrow> wrs out pos (json_esc c @ json_tail c);
               json_escape_loop out' out_size (pos + length (json_esc c)) s }
     else json_escape_loop out out_size pos s)"
proof (cases "json_short c")
  case (Some e)
  then have "json_esc c = [BACKSLASH, e]" "json_tail c = []" "length (json_esc c) = 2"
    by (simp_all add: json_esc_def json_tail_def)
  with Some assms show ?thesis by (simp del: wrs.simps)
next
  case None
  show ?thesis
  proof (cases "uchar c < 32")
    case True
    with None have "json_esc c = [BACKSLASH, CHR ''u''] @ show_hex4 (uchar c)" "json_tail c = [NUL]"
      "length (json_esc c) = 6"
      by (simp_all add: json_esc_def json_tail_def show_hex4_ctrl)
    with None True assms show ?thesis by (simp del: wrs.simps)
  next
    case False
    with None have "json_esc c = [c]" "json_tail c = []"
      by (simp_all add: json_esc_def json_tail_def)
    with None False assms show ?thesis by simp
  qed
qed

lemma json_escape_loop_spec:
  assumes "out_size \<le> length out" "pos < out_size"
  shows "json_escaped out out_size pos s (json_escape_loop out out_size pos s)"
  using assms
proof (induction s arbitrary: out pos)
  case Nil
  then show ?case unfolding json_escape_loop.simps by (intro json_escaped_stop) auto
next
  case (Cons c s)
  show ?case
  proof (cases "pos < out_size - 1")
    case False
    with Cons.prems have "out_size \<le> pos + 1" by simp
    then have "json_escaped out out_size pos (c # s) (do { out' \<leftarrow> wr out pos NUL; Some (pos, out') })"
      using Cons.prems by (intro json_escaped_stop) auto
    with False show ?thesis by simp
  next
    case True
    note L = json_escape_loop_Cons [OF True]
    show ?thesis
    proof (cases "pos + length (json_esc c) \<le> out_size - 1")
      case False
      then have "json_escape_loop out out_size pos (c # s) = json_escape_loop out out_size pos s"
        by (simp only: L if_False)
      moreover have "json_escaped out out_size pos s (json_escape_loop out out_size pos s)"
        using Cons by blast
      ultimately show ?thesis using False by (simp only: json_escaped_skip)
    next
      case fits: True
      let ?e = "json_esc c @ json_tail c"
      let ?o = "take pos out @ ?e @ drop (pos + length ?e) out"
      have room: "pos + length ?e \<le> out_size" "pos + length (json_esc c) < out_size"
        using fits True by (auto simp: json_tail_def)
      then have "wrs out pos ?e = Some ?o"
        using Cons.prems by (intro wrs_Some) simp
      moreover have "json_escaped ?o out_size (pos + length (json_esc c)) s
          (json_escape_loop ?o out_size (pos + length (json_esc c)) s)"
        using room Cons.prems by (intro Cons.IH) auto
      then have "json_escaped out out_size pos (c # s)
          (json_escape_loop ?o out_size (pos + length (json_esc c)) s)"
        using room Cons.prems by (elim json_escaped_emit) auto
      ultimately show ?thesis using fits by (simp only: L if_True Option.bind.bind_lunit)
    qed
  qed
qed

section \<open>Correctness\<close>

lemma json_read_str:
  "json_read (json_esc_str s @ DQUOTE # rest) = Some (s, rest)"
  by (induction s) (simp_all add: json_read_esc)

text \<open>
  C28. \<open>mnet_json_escape\<close> never writes outside its buffer, terminates what it writes, and what
  it writes is a sequence of complete escapes of bytes of the input, in order: a short buffer
  can lose bytes but never cuts an escape in two. When the whole escaped text fits, nothing is
  lost; six bytes of room per input byte always suffice.
\<close>

theorem mnet_json_escape_safe:
  assumes "0 < out_size" "out_size \<le> length out"
  shows "\<exists>u out'. mnet_json_escape out out_size (Some s) = Some (length (json_esc_str u), out') \<and>
    subseq u s \<and> length (json_esc_str u) < out_size \<and>
    take (length (json_esc_str u) + 1) out' = json_esc_str u @ [NUL] \<and>
    length out' = length out \<and> drop out_size out' = drop out_size out \<and>
    (length (json_esc_str s) < out_size \<longrightarrow> u = s) \<and> (6 * length s < out_size \<longrightarrow> u = s)"
proof -
  have "6 * length s < out_size \<Longrightarrow> length (json_esc_str s) < out_size"
    using length_json_esc_str [of s] by linarith
  then show ?thesis
    using json_escape_loop_spec [of out_size out 0 s] assms
    by (auto simp: mnet_json_escape_def json_escaped_def)
qed

theorem mnet_json_escape_safe_witness:
  "\<exists>u out'. mnet_json_escape ''........'' 8 (Some ''a/b'') = Some (length (json_esc_str u), out') \<and>
    u = ''a/b'' \<and> take (length (json_esc_str u) + 1) out' = json_esc_str u @ [NUL]"
proof -
  have "json_esc_str ''a/b'' = ''a/b''" by code_simp
  then show ?thesis
    using mnet_json_escape_safe [of 8 "''........''" "''a/b''"] by auto
qed

text \<open>
  The escaped text is safe inside a JSON string literal: written between quotes by
  \<open>mnet_json_escape\<close> into a buffer of six bytes per input byte (what \<open>mnet_jsonfv\<close> allocates),
  a JSON reader gets back exactly the input bytes and stops at the closing quote, whatever the
  input and whatever follows; no raw control byte is written.
\<close>

theorem mnet_json_escape_roundtrip:
  assumes "6 * length s < length out"
  shows "\<exists>n out'. mnet_json_escape out (length out) (Some s) = Some (n, out') \<and>
    json_read (take n out' @ DQUOTE # rest) = Some (s, rest) \<and>
    list_all (\<lambda>c. 32 \<le> uchar c) (take n out')"
proof -
  have fits: "length (json_esc_str s) < length out"
    using length_json_esc_str [of s] assms by linarith
  obtain out' where r: "mnet_json_escape out (length out) (Some s) = Some (length (json_esc_str s), out')"
    and t: "take (length (json_esc_str s) + 1) out' = json_esc_str s @ [NUL]"
    using json_escape_loop_spec [of "length out" out 0 s] fits
    by (cases "out = []") (auto simp: mnet_json_escape_def json_escaped_def)
  have "take (length (json_esc_str s)) (take (length (json_esc_str s) + 1) out') = json_esc_str s"
    unfolding t by simp
  then have t': "take (length (json_esc_str s)) out' = json_esc_str s"
    by (simp add: min_def)
  have "list_all (\<lambda>c. 32 \<le> uchar c) (json_esc_str s)"
    using json_esc_no_ctrl by (auto simp: list_all_iff json_esc_str_def)
  with r show ?thesis by (simp add: t' json_read_str)
qed

theorem mnet_json_escape_roundtrip_witness:
  "\<exists>n out'. mnet_json_escape (replicate 13 NUL) (length (replicate 13 NUL)) (Some [DQUOTE, LF]) = Some (n, out') \<and>
    json_read (take n out' @ DQUOTE # '',1'') = Some ([DQUOTE, LF], '',1'')"
  using mnet_json_escape_roundtrip [of "[DQUOTE, LF]" "replicate 13 NUL" "'',1''"] by auto

end
