(* ===== verification/Jsonf.thy ===== *)
theory Jsonf
  imports Json_Escape Response
begin

text \<open>
  \<open>mnet_jsonfv\<close> and \<open>mnet_jsonf\<close> of \<^verbatim>\<open>src/src/mnet_response.c\<close>: a JSON body from a format with
  directives, where strings and characters are escaped, numbers are printed by \<open>snprintf\<close> with a
  rebuilt directive, and dangerous directives are rejected. The argument list is a list of typed
  values for the LP64 data model; reading an argument of another type, or one that is not there,
  is undefined (\<open>None\<close>), as is a directive that \<open>snprintf\<close> does not define. Integers are printed
  by a model of the integer conversions of \<open>printf\<close>; how the C library prints floating-point
  values is a parameter, the function \<open>fl\<close> of a directive and a value.
\<close>

section \<open>Integer conversions of printf\<close>

definition has_flag :: "char \<Rightarrow> string \<Rightarrow> bool" where "has_flag c flags \<longleftrightarrow> c \<in> set flags"

text \<open>Flags, width, precision and the rest of a directive, behind the percent sign.\<close>

definition split_spec :: "string \<Rightarrow> string \<times> nat \<times> nat option \<times> string" where
  "split_spec s =
     (let flags = takeWhile (\<lambda>c. c \<in> set ''-+ #0'') s;
          s1 = dropWhile (\<lambda>c. c \<in> set ''-+ #0'') s;
          width = dec_val (takeWhile isdigit s1);
          s2 = dropWhile isdigit s1
      in case s2 of
           [] \<Rightarrow> (flags, width, None, [])
         | c # s3 \<Rightarrow>
             if c = CHR ''.'' then (flags, width, Some (dec_val (takeWhile isdigit s3)), dropWhile isdigit s3)
             else (flags, width, None, s2))"

definition pad_field :: "string \<Rightarrow> nat \<Rightarrow> bool \<Rightarrow> string \<Rightarrow> string \<Rightarrow> string" where
  "pad_field flags width zeros sign digits =
     (let n = width - (length sign + length digits)
      in if has_flag CHR ''-'' flags then sign @ digits @ replicate n SP
         else if zeros then sign @ replicate n CHR ''0'' @ digits
         else replicate n SP @ sign @ digits)"

definition to_upper :: "char \<Rightarrow> char" where
  "to_upper c = (if 97 \<le> uchar c \<and> uchar c \<le> 122 then char_of (uchar c - 32) else c)"

text \<open>The digits of a magnitude, and the prefix of the alternative form.\<close>

definition conv_digits :: "char \<Rightarrow> nat \<Rightarrow> string" where
  "conv_digits conv n =
     (if conv = CHR ''o'' then radix 8 n
      else if conv = CHR ''x'' then radix 16 n
      else if conv = CHR ''X'' then map to_upper (radix 16 n)
      else radix 10 n)"

definition min_digits :: "nat \<Rightarrow> string \<Rightarrow> string" where
  "min_digits k ds = replicate (k - length ds) CHR ''0'' @ ds"

text \<open>
  \<open>snprintf\<close> with one \<open>ll\<close> integer conversion and the value it is given (for the unsigned
  conversions a number below \<open>2 ^ 64\<close>).
\<close>

definition printf_ll :: "string \<Rightarrow> int \<Rightarrow> string option" where
  "printf_ll spec v =
     (case split_spec (drop 1 spec) of (flags, width, prec, rest) \<Rightarrow>
        if length rest \<noteq> 3 \<or> take 2 rest \<noteq> ''ll'' \<or> rest ! 2 \<notin> set ''diouxX'' \<or>
           \<not> c_int (int width) \<or> (case prec of None \<Rightarrow> False | Some p \<Rightarrow> \<not> c_int (int p)) then None
        else
          let conv = rest ! 2; n = nat \<bar>v\<bar>;
              p = (case prec of None \<Rightarrow> 1 | Some p \<Rightarrow> p);
              ds = (if n = 0 \<and> p = 0 then [] else min_digits p (conv_digits conv n));
              ds' = (if has_flag CHR ''#'' flags \<and> conv = CHR ''o'' \<and> (ds = [] \<or> hd ds \<noteq> CHR ''0'')
                     then CHR ''0'' # ds else ds);
              sign = (if conv \<in> set ''di'' then
                        (if v < 0 then ''-'' else if has_flag CHR ''+'' flags then ''+''
                         else if has_flag SP flags then [SP] else [])
                      else if has_flag CHR ''#'' flags \<and> n \<noteq> 0 \<and> conv = CHR ''x'' then ''0x''
                      else if has_flag CHR ''#'' flags \<and> n \<noteq> 0 \<and> conv = CHR ''X'' then ''0X''
                      else [])
          in Some (pad_field flags width (has_flag CHR ''0'' flags \<and> prec = None) sign ds'))"

text \<open>A floating-point directive that \<open>printf\<close> defines: at most one length modifier.\<close>

definition float_spec_ok :: "string \<Rightarrow> bool \<Rightarrow> bool" where
  "float_spec_ok spec long_double \<longleftrightarrow>
     (case split_spec (drop 1 spec) of (flags, width, prec, rest) \<Rightarrow>
        c_int (int width) \<and> (case prec of None \<Rightarrow> True | Some p \<Rightarrow> c_int (int p)) \<and>
        (if long_double then length rest = 2 \<and> hd rest = CHR ''L'' \<and> rest ! 1 \<in> set ''fFeEgGaA''
         else length rest = 1 \<and> hd rest \<in> set ''fFeEgGaA'' \<or>
              length rest = 2 \<and> hd rest = CHR ''l'' \<and> rest ! 1 \<in> set ''fFeEgGaA''))"

section \<open>The directives\<close>

datatype 'd va_arg = A_str "string option" | A_int "32 word" | A_long "64 word" | A_double 'd | A_ldouble 'd

text \<open>The error response; its body is a copy that may fail as well.\<close>

definition json_fail :: "alloc \<Rightarrow> mnet_response \<times> alloc" where
  "json_fail al =
     (case malloc al of (ok, al') \<Rightarrow>
        (\<lparr>r_status = 500, r_content_type = Some ''application/json'', r_body = if ok then Some ''null'' else None,
          r_body_length = 4, r_chunked = False\<rparr>, al'))"

text \<open>
  What a directive does: it is rejected, or it appends a text (after making room for it, unless the
  check at the top of the loop is enough) and goes on with the rest of the format and arguments.
\<close>

datatype 'd directive = Reject alloc | Emit bool string string "'d va_arg list" alloc

subsection \<open>Strings and characters\<close>

definition is_cont :: "char \<Rightarrow> bool" where "is_cont c \<longleftrightarrow> 128 \<le> uchar c \<and> uchar c < 192"

fun back_up :: "string \<Rightarrow> nat \<Rightarrow> nat" where
  "back_up s 0 = 0"
| "back_up s (Suc t) = (if is_cont (s ! Suc t) then back_up s t else Suc t)"

definition seq_len :: "char \<Rightarrow> nat" where
  "seq_len b =
     (if 192 \<le> uchar b \<and> uchar b < 224 then 2
      else if 224 \<le> uchar b \<and> uchar b < 240 then 3
      else if 240 \<le> uchar b \<and> uchar b < 248 then 4 else 0)"

text \<open>The length to which \<open>%.Ns\<close> cuts a string.\<close>

definition cut_length :: "string \<Rightarrow> nat \<Rightarrow> nat" where
  "cut_length s precision =
     (if precision < length s then
        let t = back_up s precision
        in if t > 0 \<and> 128 \<le> uchar (s ! t) \<and> seq_len (s ! t) > 0 \<and> t + seq_len (s ! t) > precision then 0 else t
      else length s)"

definition string_arg :: "string option \<Rightarrow> string" where
  "string_arg s = (case s of None \<Rightarrow> ''(null)'' | Some t \<Rightarrow> t)"

text \<open>Escaping into a fresh block of six bytes per byte and one more.\<close>

definition escape_block :: "string \<Rightarrow> string option" where
  "escape_block s =
     map_option (\<lambda>(elen, escaped). take elen escaped)
       (mnet_json_escape (replicate (length s * 6 + 1) NUL) (length s * 6 + 1) (Some s))"

definition string_directive :: "string \<Rightarrow> 'd va_arg list \<Rightarrow> alloc \<Rightarrow> 'd directive option" where
  "string_directive f args al =
     (case args of
        A_str s # args' \<Rightarrow>
          (case malloc al of
             (False, al1) \<Rightarrow> Some (Reject al1)
           | (True, al1) \<Rightarrow> map_option (\<lambda>t. Emit True t f args' al1) (escape_block (string_arg s)))
      | _ \<Rightarrow> None)"

definition precision_directive :: "nat \<Rightarrow> string \<Rightarrow> 'd va_arg list \<Rightarrow> alloc \<Rightarrow> 'd directive option" where
  "precision_directive precision f args al =
     (if \<not> c_int (int precision) then None
      else
        (case args of
           A_str s # args' \<Rightarrow>
             let t = take (cut_length (string_arg s) precision) (string_arg s)
             in (case malloc al of
                   (False, al1) \<Rightarrow> Some (Reject al1)
                 | (True, al1) \<Rightarrow>
                     (case malloc al1 of
                        (False, al2) \<Rightarrow> Some (Reject al2)
                      | (True, al2) \<Rightarrow> map_option (\<lambda>e. Emit True e f args' al2) (escape_block t)))
         | _ \<Rightarrow> None))"

text \<open>\<open>%c\<close>: only the first six bytes of the escape of a control character are used.\<close>

definition char_text :: "int \<Rightarrow> string" where
  "char_text c =
     (if c = 34 then [BACKSLASH, DQUOTE]
      else if c = 92 then [BACKSLASH, BACKSLASH]
      else if c = 10 then [BACKSLASH, CHR ''n'']
      else if c = 13 then [BACKSLASH, CHR ''r'']
      else if c = 9 then [BACKSLASH, CHR ''t'']
      else if c = 0 then [BACKSLASH] @ ''u0000''
      else if c < 32 then take 6 ([BACKSLASH, CHR ''u''] @ show_hex4 (nat (c mod 2 ^ 32)))
      else [char_of (nat (c mod 256))])"

definition char_directive :: "string \<Rightarrow> 'd va_arg list \<Rightarrow> alloc \<Rightarrow> 'd directive option" where
  "char_directive f args al =
     (case args of A_int c # args' \<Rightarrow> Some (Emit True (char_text (sint c)) f args' al) | _ \<Rightarrow> None)"

subsection \<open>Numbers\<close>

text \<open>The test for dangerous directives: \<open>body\<close> is the directive behind the percent sign.\<close>

definition spec_rejected :: "string \<Rightarrow> char \<Rightarrow> bool" where
  "spec_rejected body conv \<longleftrightarrow>
     (\<exists>c\<in>set (takeWhile (\<lambda>c. c \<noteq> CHR ''%'') body).
        c \<in> set ''0123456789+-# *.'' \<and> conv \<notin> set ''diouxXfFeEgGaA'' \<or>
        c \<in> set ''npa'' \<or>
        c \<in> set ''lhzjtL'' \<and> conv \<notin> set ''diouxXfFeEgGaA'') \<or>
     conv \<in> set ''npa''"

text \<open>The integer argument, by the length modifier found in the directive.\<close>

definition read_int :: "string \<Rightarrow> bool \<Rightarrow> 'd va_arg list \<Rightarrow> (int \<times> 'd va_arg list) option" where
  "read_int spec is_signed args =
     (let ll = (strstr spec ''ll'' \<noteq> None); l1 = (\<not> ll \<and> CHR ''l'' \<in> set spec);
          hh = (strstr spec ''hh'' \<noteq> None); h1 = (\<not> hh \<and> CHR ''h'' \<in> set spec);
          wide = (CHR ''z'' \<in> set spec \<or> CHR ''j'' \<in> set spec \<or> CHR ''t'' \<in> set spec)
      in case args of
           A_long w # args' \<Rightarrow>
             if ll \<or> l1 \<or> (\<not> hh \<and> \<not> h1 \<and> wide) then Some (if is_signed then sint w else uint w, args') else None
         | A_int w # args' \<Rightarrow>
             if ll \<or> l1 then None
             else if hh then
               Some (if is_signed then sint (ucast w :: 8 word) else uint (ucast w :: 8 word), args')
             else if h1 then
               Some (if is_signed then sint (ucast w :: 16 word) else uint (ucast w :: 16 word), args')
             else if wide then None
             else Some (if is_signed then sint w else uint w, args')
         | _ \<Rightarrow> None)"

definition int_spec :: "string \<Rightarrow> char \<Rightarrow> string" where
  "int_spec spec conv = CHR ''%'' # filter (\<lambda>c. c \<notin> set ''lhzjt'') (butlast (drop 1 spec)) @ ''ll'' @ [conv]"

definition long_double_spec :: "string \<Rightarrow> char \<Rightarrow> string" where
  "long_double_spec spec conv = CHR ''%'' # filter (\<lambda>c. c \<noteq> CHR ''L'') (butlast (drop 1 spec)) @ [CHR ''L'', conv]"

text \<open>
  The printed value with the rest of the arguments. The rebuilt directive of an integer is written
  to an array of 64 bytes without a check.
\<close>

definition number_text :: "(string \<Rightarrow> 'd \<Rightarrow> string) \<Rightarrow> string \<Rightarrow> char \<Rightarrow> 'd va_arg list \<Rightarrow> (string \<times> 'd va_arg list) option" where
  "number_text fl spec conv args =
     (if conv \<in> set ''fFeEgGaA'' then
        if CHR ''L'' \<in> set spec then
          (case args of
             A_ldouble d # args' \<Rightarrow>
               if float_spec_ok (long_double_spec spec conv) True
               then Some (fl (long_double_spec spec conv) d, args') else None
           | _ \<Rightarrow> None)
        else
          (case args of
             A_double d # args' \<Rightarrow> if float_spec_ok spec False then Some (fl spec d, args') else None
           | _ \<Rightarrow> None)
      else
        (case read_int spec (conv \<in> set ''di'') args of
           None \<Rightarrow> None
         | Some (v, args') \<Rightarrow>
             if length (int_spec spec conv) + 1 > 64 then None
             else map_option (\<lambda>t. (t, args')) (printf_ll (int_spec spec conv) v)))"

definition not_finite :: "string \<Rightarrow> bool" where
  "not_finite t \<longleftrightarrow>
     strstr t ''nan'' \<noteq> None \<or> strstr t ''inf'' \<noteq> None \<or> strstr t ''NAN'' \<noteq> None \<or> strstr t ''INF'' \<noteq> None"

definition number_directive :: "(string \<Rightarrow> 'd \<Rightarrow> string) \<Rightarrow> string \<Rightarrow> 'd va_arg list \<Rightarrow> alloc \<Rightarrow> 'd directive option" where
  "number_directive fl f args al =
     (let pre = takeWhile (\<lambda>c. c \<noteq> CHR ''%'' \<and> c \<notin> set ''diouxXfFeEgGaAcCpPn'') f;
          p = drop (length pre) f
      in case p of
           [] \<Rightarrow> Some (Reject al)
         | conv # rest \<Rightarrow>
             let spec = CHR ''%'' # pre @ [conv]
             in if length spec \<ge> 64 then Some (Emit False [] rest args al)
                else if spec_rejected (pre @ [conv]) conv then Some (Reject al)
                else if int (dec_val (takeWhile isdigit (pre @ [conv]))) \<ge> 2 ^ 63 then None
                else if int (dec_val (takeWhile isdigit (pre @ [conv]))) > 4096 then Some (Reject al)
                else
                  (case number_text fl spec conv args of
                     None \<Rightarrow> None
                   | Some (t, args') \<Rightarrow>
                       (case (if length t + 1 > 64 then malloc al else (True, al)) of
                          (False, al1) \<Rightarrow> Some (Reject al1)
                        | (True, al1) \<Rightarrow>
                            if t = [] then Some (Emit False [] rest args' al1)
                            else Some (Emit True
                                   (if conv \<in> set ''fFeEgGaA'' \<and> not_finite t then ''null'' else t)
                                   rest args' al1))))"

text \<open>A directive, from behind its percent sign.\<close>

definition directive :: "(string \<Rightarrow> 'd \<Rightarrow> string) \<Rightarrow> string \<Rightarrow> 'd va_arg list \<Rightarrow> alloc \<Rightarrow> 'd directive option" where
  "directive fl f args al =
     (case f of
        [] \<Rightarrow> Some (Reject al)
      | c # f1 \<Rightarrow>
          if c = CHR ''%'' then Some (Emit False ''%'' f1 args al)
          else if c = CHR ''*'' then Some (Reject al)
          else
            let ds = takeWhile isdigit f1; after = dropWhile isdigit f1
            in if c = CHR ''.'' \<and> after \<noteq> [] \<and> hd after = CHR ''s''
               then precision_directive (dec_val ds) (drop 1 after) args al
               else if c = CHR ''s'' then string_directive f1 args al
               else if c = CHR ''c'' then char_directive f1 args al
               else number_directive fl f args al)"

section \<open>The loop\<close>

text \<open>The loops that double the capacity until \<open>need\<close> bytes and a terminator fit; it is never 0.\<close>

function make_room :: "nat \<Rightarrow> nat \<Rightarrow> alloc \<Rightarrow> bool \<times> nat \<times> alloc" where
  "make_room need cap al =
     (if 0 < cap \<and> need + 1 \<ge> cap then
        (case malloc al of
           (False, al1) \<Rightarrow> (False, cap * 2, al1)
         | (True, al1) \<Rightarrow> make_room need (cap * 2) al1)
      else (True, cap, al))"
  by pat_completeness auto
termination
  by (relation "measure (\<lambda>(need, cap, al). need + 2 - cap)") auto

declare make_room.simps [simp del]

definition json_ok :: "bytes \<Rightarrow> mnet_response" where
  "json_ok out =
     \<lparr>r_status = 200, r_content_type = Some ''application/json'', r_body = Some out,
      r_body_length = length out, r_chunked = False\<rparr>"

lemma simple_directive_rest:
  "string_directive f args al = Some (Emit room t f' args' al') \<Longrightarrow> f' = f"
  "precision_directive n f args al = Some (Emit room t f' args' al') \<Longrightarrow> f' = f"
  "char_directive f args al = Some (Emit room t f' args' al') \<Longrightarrow> f' = f"
  by (auto simp: string_directive_def precision_directive_def char_directive_def Let_def
      split: list.splits va_arg.splits prod.splits bool.splits if_splits)

lemma number_directive_rest:
  assumes "number_directive fl f args al = Some (Emit room t f' args' al')"
  shows "length f' \<le> length f"
proof -
  let ?pre = "takeWhile (\<lambda>c. c \<noteq> CHR ''%'' \<and> c \<notin> set ''diouxXfFeEgGaAcCpPn'') f"
  obtain conv rest where p: "drop (length ?pre) f = conv # rest"
    using assms by (cases "drop (length ?pre) f") (auto simp: number_directive_def Let_def)
  have "f' = rest"
    using assms unfolding number_directive_def Let_def p list.case
    by (simp split: if_split_asm option.splits prod.splits bool.splits)
  with arg_cong [OF p, of length] show ?thesis by simp
qed

lemma directive_shorter:
  assumes "directive fl f args al = Some (Emit room t f' args' al')"
  shows "length f' \<le> length f"
proof (cases f)
  case Nil
  with assms show ?thesis by (simp add: directive_def)
next
  case (Cons c f1)
  have "length (drop 1 (dropWhile isdigit f1)) \<le> length f" using length_dropWhile_le [of isdigit f1] Cons by simp
  then show ?thesis
    using assms Cons unfolding directive_def Let_def
    by (auto split: if_split_asm dest: simple_directive_rest number_directive_rest)
qed

function jsonf_loop ::
  "(string \<Rightarrow> 'd \<Rightarrow> string) \<Rightarrow> string \<Rightarrow> 'd va_arg list \<Rightarrow> bytes \<Rightarrow> nat \<Rightarrow> alloc \<Rightarrow> (mnet_response \<times> alloc) option" where
  "jsonf_loop fl f args out cap al =
     (case f of
        [] \<Rightarrow> if length out < cap then Some (json_ok out, al) else None
      | c # f1 \<Rightarrow>
          (case (if length out + 1 \<ge> cap then (case malloc al of (ok, al1) \<Rightarrow> (ok, cap * 2, al1)) else (True, cap, al)) of
             (False, cap1, al1) \<Rightarrow> Some (json_fail al1)
           | (True, cap1, al1) \<Rightarrow>
               if c \<noteq> CHR ''%'' then
                 (case put_block out cap1 [c] of None \<Rightarrow> None | Some out1 \<Rightarrow> jsonf_loop fl f1 args out1 cap1 al1)
               else
                 (case directive fl f1 args al1 of
                    None \<Rightarrow> None
                  | Some (Reject al2) \<Rightarrow> Some (json_fail al2)
                  | Some (Emit room t f2 args2 al2) \<Rightarrow>
                      (case (if room then make_room (length out + length t) cap1 al2 else (True, cap1, al2)) of
                         (False, cap2, al3) \<Rightarrow> Some (json_fail al3)
                       | (True, cap2, al3) \<Rightarrow>
                           (case put_block out cap2 t of
                              None \<Rightarrow> None
                            | Some out2 \<Rightarrow> jsonf_loop fl f2 args2 out2 cap2 al3)))))"
  by pat_completeness auto
termination
  by (relation "measure (\<lambda>(fl, f, args, out, cap, al). length f)") (auto dest: directive_shorter)

declare jsonf_loop.simps [simp del]

definition mnet_jsonfv ::
  "(string \<Rightarrow> 'd \<Rightarrow> string) \<Rightarrow> string option \<Rightarrow> 'd va_arg list \<Rightarrow> alloc \<Rightarrow> (mnet_response \<times> alloc) option" where
  "mnet_jsonfv fl format args al =
     (case malloc al of
        (False, al1) \<Rightarrow> Some (json_fail al1)
      | (True, al1) \<Rightarrow>
          (case format of
             None \<Rightarrow> Some (json_fail al1)
           | Some f \<Rightarrow> jsonf_loop fl f args [] 256 al1))"

definition mnet_jsonf ::
  "(string \<Rightarrow> 'd \<Rightarrow> string) \<Rightarrow> string option \<Rightarrow> 'd va_arg list \<Rightarrow> alloc \<Rightarrow> (mnet_response \<times> alloc) option" where
  "mnet_jsonf fl format args al = mnet_jsonfv fl format args al"

section \<open>Templates\<close>

text \<open>A format with its arguments, piece by piece, and the text each piece stands for.\<close>

datatype 'd piece =
    P_char char
  | P_percent
  | P_str "string option"
  | P_prec nat "string option"
  | P_chr "32 word"
  | P_num string char "'d va_arg"

fun piece_format :: "'d piece \<Rightarrow> string" where
  "piece_format (P_char c) = [c]"
| "piece_format P_percent = ''%%''"
| "piece_format (P_str s) = ''%s''"
| "piece_format (P_prec n s) = ''%.'' @ show_nat n @ ''s''"
| "piece_format (P_chr c) = ''%c''"
| "piece_format (P_num pre conv a) = CHR ''%'' # pre @ [conv]"

fun piece_args :: "'d piece \<Rightarrow> 'd va_arg list" where
  "piece_args (P_str s) = [A_str s]"
| "piece_args (P_prec n s) = [A_str s]"
| "piece_args (P_chr c) = [A_int c]"
| "piece_args (P_num pre conv a) = [a]"
| "piece_args p = []"

fun piece_text :: "(string \<Rightarrow> 'd \<Rightarrow> string) \<Rightarrow> 'd piece \<Rightarrow> string" where
  "piece_text fl (P_char c) = [c]"
| "piece_text fl P_percent = ''%''"
| "piece_text fl (P_str s) = json_esc_str (string_arg s)"
| "piece_text fl (P_prec n s) = json_esc_str (take (cut_length (string_arg s) n) (string_arg s))"
| "piece_text fl (P_chr c) = char_text (sint c)"
| "piece_text fl (P_num pre conv a) =
     (case number_text fl (CHR ''%'' # pre @ [conv]) conv [a] of
        Some (t, args) \<Rightarrow> if conv \<in> set ''fFeEgGaA'' \<and> not_finite t then ''null'' else t
      | None \<Rightarrow> [])"

text \<open>
  A number: flags, width, precision and length in front of a conversion letter, in less than 64
  bytes, a width of at most 4096, and an argument of the type the directive reads.
\<close>

fun piece_ok :: "(string \<Rightarrow> 'd \<Rightarrow> string) \<Rightarrow> 'd piece \<Rightarrow> bool" where
  "piece_ok fl (P_char c) \<longleftrightarrow> c \<noteq> CHR ''%''"
| "piece_ok fl (P_prec n s) \<longleftrightarrow> c_int (int n)"
| "piece_ok fl (P_num pre conv a) \<longleftrightarrow>
     set pre \<inter> set ''%scdiouxXfFeEgGaACpPn'' = {} \<and> (pre = [] \<or> hd pre \<noteq> CHR ''*'') \<and>
     conv \<in> set ''diouxXfFeEgGA'' \<and> length pre < 62 \<and>
     int (dec_val (takeWhile isdigit (pre @ [conv]))) \<le> 4096 \<and>
     number_text fl (CHR ''%'' # pre @ [conv]) conv [a] \<noteq> None"
| "piece_ok fl p = True"

section \<open>One piece\<close>

lemma escape_block_eq: "escape_block s = Some (json_esc_str s)"
proof -
  let ?n = "length s * 6 + 1"
  have "length (json_esc_str s) < ?n" using length_json_esc_str [of s] by simp
  then obtain out' where r: "json_escape_loop (replicate ?n NUL) ?n 0 s = Some (length (json_esc_str s), out')"
    and t: "take (length (json_esc_str s) + 1) out' = json_esc_str s @ [NUL]"
    using json_escape_loop_spec [of ?n "replicate ?n NUL" 0 s] by (auto simp: json_escaped_def)
  have "take (length (json_esc_str s)) (take (length (json_esc_str s) + 1) out') = json_esc_str s"
    unfolding t by simp
  then have "take (length (json_esc_str s)) out' = json_esc_str s" by (simp add: min_def)
  with r show ?thesis by (simp add: escape_block_def mnet_json_escape_def)
qed

text \<open>A directive does what its piece says, or an allocation has failed.\<close>

definition emits :: "(string \<Rightarrow> 'd \<Rightarrow> string) \<Rightarrow> 'd piece \<Rightarrow> string \<Rightarrow> 'd va_arg list \<Rightarrow> alloc \<Rightarrow> 'd directive option \<Rightarrow> bool" where
  "emits fl p rest args al d \<longleftrightarrow>
     (\<exists>al'. set al' \<subseteq> set al \<and>
        ((\<exists>room. d = Some (Emit room (piece_text fl p) rest args al') \<and> (room \<or> length (piece_text fl p) \<le> 1)) \<or>
         d = Some (Reject al') \<and> False \<in> set al))"

lemma number_text_frame:
  "number_text fl spec conv (a # args) = map_option (\<lambda>(t, as). (t, as @ args)) (number_text fl spec conv [a])"
  by (cases a) (auto simp: number_text_def read_int_def Let_def option.map_comp comp_def)

lemma number_text_consumes: "number_text fl spec conv [a] = Some (t, as) \<Longrightarrow> as = []"
  by (cases a) (auto simp: number_text_def read_int_def Let_def split: if_splits)

lemma directive_number:
  assumes "set pre \<inter> set ''%scdiouxXfFeEgGaACpPn'' = {}" "conv \<in> set ''diouxXfFeEgGAnpa''" "pre = [] \<or> hd pre \<noteq> CHR ''*''"
  shows "directive fl (pre @ conv # rest) args al = number_directive fl (pre @ conv # rest) args al"
proof (cases pre)
  case Nil
  then show ?thesis using assms(2) by (auto simp: directive_def Let_def)
next
  case (Cons x xs)
  have "\<not> isdigit conv" using assms(2) by (auto simp: isdigit_def)
  then have "hd (dropWhile isdigit (xs @ conv # rest)) \<in> set xs \<union> {conv}" by (induction xs) auto
  then have "hd (dropWhile isdigit (xs @ conv # rest)) \<noteq> CHR ''s''" using assms(1,2) Cons by auto
  then show ?thesis using assms(1,3) Cons by (auto simp: directive_def Let_def)
qed

lemma emits_number:
  assumes "piece_ok fl (P_num pre conv a)"
  shows "emits fl (P_num pre conv a) rest args al (directive fl (pre @ conv # rest) (a # args) al)"
proof -
  let ?spec = "CHR ''%'' # pre @ [conv]" and ?f = "pre @ conv # rest"
  have pre: "set pre \<inter> set ''%scdiouxXfFeEgGaACpPn'' = {}" "conv \<in> set ''diouxXfFeEgGA''" "length pre < 62"
    "int (dec_val (takeWhile isdigit (pre @ [conv]))) \<le> 4096" "pre = [] \<or> hd pre \<noteq> CHR ''*''"
    using assms by simp_all
  obtain t where t: "number_text fl ?spec conv [a] = Some (t, [])"
    using assms number_text_consumes [of fl ?spec conv a] by fastforce
  have pt: "piece_text fl (P_num pre conv a) = (if conv \<in> set ''fFeEgGaA'' \<and> not_finite t then ''null'' else t)"
    by (simp add: t)
  have tw: "takeWhile (\<lambda>c. c \<noteq> CHR ''%'' \<and> c \<notin> set ''diouxXfFeEgGaAcCpPn'') ?f = pre"
    using pre(1,2) by (intro takeWhile_stop) auto
  have dr: "drop (length pre) ?f = conv # rest" by simp
  have rj: "\<not> spec_rejected (pre @ [conv]) conv"
    using pre(1,2) unfolding spec_rejected_def by (auto dest!: set_takeWhileD)
  have d: "directive fl ?f (a # args) al = number_directive fl ?f (a # args) al"
    using pre(1,2,5) by (intro directive_number) auto
  obtain ok al' where m: "(if length t + 1 > 64 then malloc al else (True, al)) = (ok, al')" by fastforce
  then have mm: "set al' \<subseteq> set al" "\<not> ok \<Longrightarrow> False \<in> set al" using malloc_script [of al ok al'] by (auto split: if_splits)
  have n: "number_text fl ?spec conv (a # args) = Some (t, args)"
    using number_text_frame [of fl ?spec conv a args] t by simp
  have l: "\<not> 64 \<le> length ?spec" using pre(3) by simp
  have w: "\<not> 2 ^ 63 \<le> int (dec_val (takeWhile isdigit (pre @ [conv])))" "\<not> 4096 < int (dec_val (takeWhile isdigit (pre @ [conv])))"
    using pre(4) by simp_all
  have "number_directive fl ?f (a # args) al =
      (if \<not> ok then Some (Reject al') else if t = [] then Some (Emit False [] rest args al')
       else Some (Emit True (piece_text fl (P_num pre conv a)) rest args al'))"
    unfolding number_directive_def Let_def tw dr list.case if_not_P [OF l] if_not_P [OF rj] if_not_P [OF w(1)]
      if_not_P [OF w(2)] n option.case prod.case m pt by (cases ok) auto
  moreover have "t = [] \<Longrightarrow> piece_text fl (P_num pre conv a) = []" unfolding pt by (simp add: not_finite_def)
  ultimately show ?thesis unfolding d emits_def using mm by (intro exI [of _ al']) auto
qed

lemma emits_piece:
  assumes "piece_ok fl p" "piece_format p = CHR ''%'' # g"
  shows "emits fl p rest args al (directive fl (g @ rest) (piece_args p @ args) al)"
proof (cases p)
  case (P_char c)
  with assms show ?thesis by simp
next
  case P_percent
  with assms show ?thesis by (auto simp: emits_def directive_def)
next
  case (P_str s)
  obtain ok al' where m: "malloc al = (ok, al')" by fastforce
  show ?thesis using P_str assms m malloc_script [OF m]
    by (cases ok) (auto simp: emits_def directive_def string_directive_def escape_block_eq isdigit_def intro!: exI [of _ al'])
next
  case (P_prec n s)
  obtain ok al1 where m: "malloc al = (ok, al1)" by fastforce
  obtain ok2 al2 where m2: "malloc al1 = (ok2, al2)" by fastforce
  have "\<not> isdigit CHR ''s''" by (simp add: isdigit_def)
  then have w: "takeWhile isdigit (show_nat n @ CHR ''s'' # rest) = show_nat n"
    "dropWhile isdigit (show_nat n @ CHR ''s'' # rest) = CHR ''s'' # rest"
    by (auto intro: takeWhile_stop dropWhile_stop show_nat_isdigit)
  have "directive fl (g @ rest) (piece_args p @ args) al = precision_directive n rest (A_str s # args) al"
    using P_prec assms(2) w by (auto simp: directive_def Let_def)
  then show ?thesis using P_prec assms m m2 malloc_script [OF m] malloc_script [OF m2]
    by (cases ok; cases ok2) (auto simp: emits_def precision_directive_def escape_block_eq Let_def)
next
  case (P_chr c)
  with assms show ?thesis by (auto simp: emits_def directive_def char_directive_def intro!: exI [of _ al])
next
  case (P_num pre conv a)
  then show ?thesis using emits_number [of fl pre conv a rest args al] assms by auto
qed

section \<open>The whole format\<close>

lemma make_room_outcome:
  "0 < cap \<Longrightarrow> make_room need cap al = (ok, cap', al') \<Longrightarrow>
    set al' \<subseteq> set al \<and> (ok \<longrightarrow> need + 1 < cap') \<and> (\<not> ok \<longrightarrow> False \<in> set al)"
proof (induction need cap al rule: make_room.induct)
  case (1 need cap al)
  obtain b al1 where m: "malloc al = (b, al1)" by fastforce
  show ?case
  proof (cases "need + 1 \<ge> cap \<and> b")
    case True
    then have "make_room need (cap * 2) al1 = (ok, cap', al')"
      using 1(2,3) m by (simp add: make_room.simps [of need cap al])
    with 1(1) [OF _ m [symmetric]] True 1(2) malloc_script(1) [OF m] show ?thesis by auto
  next
    case False
    then show ?thesis using 1(2,3) m malloc_script [OF m] by (auto simp: make_room.simps [of need cap al] split: if_splits)
  qed
qed

text \<open>The loop has written the text and goes on with the rest, or an allocation has failed.\<close>

definition jsonf_goes_on ::
  "(string \<Rightarrow> 'd \<Rightarrow> string) \<Rightarrow> bytes \<Rightarrow> string \<Rightarrow> 'd va_arg list \<Rightarrow> alloc \<Rightarrow> (mnet_response \<times> alloc) option \<Rightarrow> bool" where
  "jsonf_goes_on fl text tail args al res \<longleftrightarrow>
     (\<exists>cap' al'. set al' \<subseteq> set al \<and> length text < cap' \<and> res = jsonf_loop fl tail args text cap' al') \<or>
     (\<exists>al'. res = Some (json_fail al') \<and> False \<in> set al)"

lemma jsonf_goes_on_mono:
  "jsonf_goes_on fl text tail args al' res \<Longrightarrow> set al' \<subseteq> set al \<Longrightarrow> jsonf_goes_on fl text tail args al res"
  unfolding jsonf_goes_on_def by blast

text \<open>The check at the top of the loop: there is room for one byte and the terminator.\<close>

lemma loop_room:
  assumes "length out < cap"
    "(if length out + 1 \<ge> cap then (case malloc al of (ok, al1) \<Rightarrow> (ok, cap * 2, al1)) else (True, cap, al)) = (ok, cap1, al1)"
  shows "set al1 \<subseteq> set al" "length out + 1 < cap1" "\<not> ok \<Longrightarrow> False \<in> set al"
  using assms malloc_script [of al ok al1] by (auto split: if_splits prod.splits)

lemma jsonf_loop_pieces:
  "\<forall>p\<in>set ps. piece_ok fl p \<Longrightarrow> length out < cap \<Longrightarrow>
    jsonf_goes_on fl (out @ concat (map (piece_text fl) ps)) tail extra al
      (jsonf_loop fl (concat (map piece_format ps) @ tail) (concat (map piece_args ps) @ extra) out cap al)"
proof (induction ps arbitrary: out cap al)
  case Nil
  then show ?case by (auto simp: jsonf_goes_on_def)
next
  case (Cons p ps)
  let ?f = "concat (map piece_format ps) @ tail" and ?as = "concat (map piece_args ps) @ extra"
    and ?t = "concat (map (piece_text fl) ps)"
  have ok: "piece_ok fl p" using Cons.prems by simp
  obtain b cap1 al1 where top:
    "(if length out + 1 \<ge> cap then (case malloc al of (ok, al1) \<Rightarrow> (ok, cap * 2, al1)) else (True, cap, al)) = (b, cap1, al1)"
    by (metis prod_cases3)
  note R = loop_room [OF Cons.prems(2) top]
  obtain c g where f: "piece_format p = c # g" by (cases p) auto
  note U = jsonf_loop.simps [of fl "c # g @ ?f" "piece_args p @ ?as" out cap al, unfolded list.case top prod.case]
  have IH: "jsonf_goes_on fl ((out @ piece_text fl p) @ ?t) tail extra al (jsonf_loop fl ?f ?as (out @ piece_text fl p) cap2 al2)"
    if "length out + length (piece_text fl p) < cap2" "set al2 \<subseteq> set al" for cap2 al2
    using jsonf_goes_on_mono [OF Cons.IH that(2), of "out @ piece_text fl p" cap2] that(1) Cons.prems(1) by simp
  show ?case
  proof (cases "b")
    case False
    then show ?thesis using U f R by (auto simp: jsonf_goes_on_def)
  next
    case b: True
    show ?thesis
    proof (cases "c = CHR ''%''")
      case False
      then obtain x where "p = P_char x" using f by (cases p) auto
      then show ?thesis using U f b False R(1,2) IH [of cap1 al1] by (simp add: put_block_def)
    next
      case True
      from emits_piece [OF ok, of g ?f ?as al1] f True
      consider (emit) al2 room where "set al2 \<subseteq> set al1" "room \<or> length (piece_text fl p) \<le> 1"
          "directive fl (g @ ?f) (piece_args p @ ?as) al1 = Some (Emit room (piece_text fl p) ?f ?as al2)"
        | (reject) al2 where "directive fl (g @ ?f) (piece_args p @ ?as) al1 = Some (Reject al2)" "False \<in> set al1"
        by (auto simp: emits_def)
      then show ?thesis
      proof cases
        case reject
        then show ?thesis using U f b True R(1) by (auto simp: jsonf_goes_on_def)
      next
        case emit
        obtain ok2 cap2 al3 where m: "(if room then make_room (length out + length (piece_text fl p)) cap1 al2 else (True, cap1, al2)) = (ok2, cap2, al3)"
          by (metis prod_cases3)
        have M: "set al3 \<subseteq> set al2" "ok2 \<longrightarrow> length out + length (piece_text fl p) < cap2" "\<not> ok2 \<longrightarrow> False \<in> set al2"
          using make_room_outcome [of cap1 "length out + length (piece_text fl p)" al2 ok2 cap2 al3] m R(2) emit(2)
          by (auto split: if_splits)
        then show ?thesis
          using U f b True emit m R(1) IH [of cap2 al3] by (cases ok2) (auto simp: put_block_def jsonf_goes_on_def)
      qed
    qed
  qed
qed

lemma jsonf_template:
  assumes "\<forall>p\<in>set ps. piece_ok fl p"
  shows "jsonf_goes_on fl (concat (map (piece_text fl) ps)) tail extra al
    (mnet_jsonfv fl (Some (concat (map piece_format ps) @ tail)) (concat (map piece_args ps) @ extra) al)"
proof -
  obtain ok al1 where m: "malloc al = (ok, al1)" by fastforce
  note M = malloc_script [OF m]
  show ?thesis
  proof (cases ok)
    case True
    then show ?thesis
      using jsonf_goes_on_mono [OF jsonf_loop_pieces [OF assms, of "[]" 256 tail extra al1] M(1)] m
      by (simp add: mnet_jsonfv_def)
  next
    case False
    then show ?thesis using m M(2) by (auto simp: mnet_jsonfv_def jsonf_goes_on_def)
  qed
qed

lemma jsonf_loop_end: "length out < cap \<Longrightarrow> jsonf_loop fl [] args out cap al = Some (json_ok out, al)"
  by (simp add: jsonf_loop.simps)

lemma jsonf_text:
  assumes "\<forall>p\<in>set ps. piece_ok fl p"
  shows "mnet_jsonf fl (Some (concat (map piece_format ps))) (concat (map piece_args ps)) [] =
    Some (json_ok (concat (map (piece_text fl) ps)), [])"
  using jsonf_template [OF assms, of "[]" "[]" "[]"] by (auto simp: jsonf_goes_on_def mnet_jsonf_def jsonf_loop_end)



text \<open>
  C15. No argument can break out of a JSON string. Wherever a template has \<open>%s\<close> in front of a quote,
  a JSON reader that starts behind the opening quote gets exactly the argument back, byte for byte
  (the text \<open>(null)\<close> for a null pointer), and stops at the closing quote of the template, whatever
  bytes the argument has and whatever surrounds it.
\<close>

theorem jsonf_no_injection:
  assumes "\<forall>p\<in>set (before @ after). piece_ok fl p"
  shows "\<exists>t al'. mnet_jsonf fl
      (Some (concat (map piece_format (before @ [P_str s, P_char DQUOTE] @ after))))
      (concat (map piece_args (before @ [P_str s, P_char DQUOTE] @ after))) [] =
      Some (json_ok (concat (map (piece_text fl) before) @ t), al') \<and>
    json_read t = Some (string_arg s, concat (map (piece_text fl) after))"
proof -
  let ?ps = "before @ [P_str s, P_char DQUOTE] @ after" and ?t = "json_esc_str (string_arg s) @ DQUOTE # concat (map (piece_text fl) after)"
  have "\<forall>p\<in>set ?ps. piece_ok fl p" using assms by auto
  note jsonf_text [OF this]
  moreover have "concat (map (piece_text fl) ?ps) = concat (map (piece_text fl) before) @ ?t" by simp
  ultimately show ?thesis using json_read_str by metis
qed

theorem jsonf_no_injection_witness:
  "\<exists>t al'. mnet_jsonf (\<lambda>spec (d :: nat). ''1.5'') (Some ([DQUOTE] @ ''%s'' @ [DQUOTE])) [A_str (Some [DQUOTE, CHR '',''])] [] =
      Some (json_ok (DQUOTE # t), al') \<and> json_read t = Some ([DQUOTE, CHR '',''], [])"
  using jsonf_no_injection [of "[P_char DQUOTE]" "[]" "\<lambda>spec (d :: nat). ''1.5''" "Some [DQUOTE, CHR '','']"]
  by (simp add: string_arg_def)

section \<open>Directives that are rejected\<close>

text \<open>A lone percent sign, a dynamic width, no conversion letter, and the letters n, p and a.\<close>

definition dangerous :: "string \<Rightarrow> bool" where
  "dangerous f \<longleftrightarrow>
     f = [] \<or> hd f = CHR ''*'' \<or>
     set f \<inter> set ''%scdiouxXfFeEgGaACpPn'' = {} \<or>
     (\<exists>pre conv rest. f = pre @ conv # rest \<and> set pre \<inter> set ''%scdiouxXfFeEgGaACpPn'' = {} \<and> conv \<in> set ''npa'' \<and> length pre < 62)"

lemma dangerous_rejected:
  assumes "dangerous f"
  shows "directive fl f args al = Some (Reject al)"
proof (cases f)
  case Nil
  then show ?thesis by (simp add: directive_def)
next
  case (Cons c f1)
  show ?thesis
  proof (cases "c = CHR ''*''")
    case True
    then show ?thesis using Cons by (simp add: directive_def)
  next
    case False
    then consider (open_end) "set f \<inter> set ''%scdiouxXfFeEgGaACpPn'' = {}"
      | (letter) pre conv rest where "f = pre @ conv # rest" "set pre \<inter> set ''%scdiouxXfFeEgGaACpPn'' = {}"
          "conv \<in> set ''npa''" "length pre < 62"
      using assms Cons by (auto simp: dangerous_def)
    then show ?thesis
    proof cases
      case open_end
      then have tw: "takeWhile (\<lambda>c. c \<noteq> CHR ''%'' \<and> c \<notin> set ''diouxXfFeEgGaAcCpPn'') f = f" by (intro takeWhile_all) auto
      have "number_directive fl f args al = Some (Reject al)" unfolding number_directive_def Let_def tw by simp
      moreover have "x \<noteq> CHR ''s''" if "x \<in> set f" for x using open_end that by auto
      then have "\<not> (dropWhile isdigit f1 \<noteq> [] \<and> hd (dropWhile isdigit f1) = CHR ''s'')"
        using Cons hd_in_set [of "dropWhile isdigit f1"] set_dropWhileD [of _ isdigit f1] by fastforce
      moreover have "c \<noteq> CHR ''%''" "c \<noteq> CHR ''s''" "c \<noteq> CHR ''c''" using open_end Cons by auto
      ultimately show ?thesis using False unfolding Cons directive_def Let_def list.case by auto
    next
      case letter
      have tw: "takeWhile (\<lambda>c. c \<noteq> CHR ''%'' \<and> c \<notin> set ''diouxXfFeEgGaAcCpPn'') f = pre"
        unfolding letter(1) using letter(2,3) by (intro takeWhile_stop) auto
      have "pre = [] \<or> hd pre \<noteq> CHR ''*''" using False Cons letter(1) by (cases pre) auto
      then have "directive fl f args al = number_directive fl f args al"
        unfolding letter(1) using letter(2,3) by (intro directive_number) auto
      moreover have "spec_rejected (pre @ [conv]) conv" using letter(3) by (auto simp: spec_rejected_def)
      moreover have dr: "drop (length pre) f = conv # rest" using letter(1) by simp
      have "number_directive fl f args al = Some (Reject al)"
        using \<open>spec_rejected (pre @ [conv]) conv\<close> letter(4) unfolding number_directive_def Let_def tw dr list.case by simp
      ultimately show ?thesis by simp
    qed
  qed
qed

lemma jsonf_loop_reject:
  assumes "directive fl f args [] = Some (Reject [])" "length out < cap"
  shows "jsonf_loop fl (CHR ''%'' # f) args out cap [] = Some (json_fail [])"
  using assms by (simp add: jsonf_loop.simps [of fl "CHR ''%'' # f"])



section \<open>Precision and UTF-8\<close>

text \<open>The structure of UTF-8 text: ASCII bytes, and lead bytes with their continuation bytes.\<close>

function utf8 :: "string \<Rightarrow> bool" where
  "utf8 [] = True"
| "utf8 (c # cs) =
     (if uchar c < 128 then utf8 cs
      else 0 < seq_len c \<and> seq_len c - 1 \<le> length cs \<and> list_all is_cont (take (seq_len c - 1) cs) \<and>
        utf8 (drop (seq_len c - 1) cs))"
  by pat_completeness auto
termination
  by (relation "measure length") auto

lemma utf8_take: "utf8 s \<Longrightarrow> t < length s \<Longrightarrow> \<not> is_cont (s ! t) \<Longrightarrow> utf8 (take t s)"
proof (induction s arbitrary: t rule: utf8.induct)
  case (2 c cs)
  show ?case
  proof (cases t)
    case (Suc k)
    show ?thesis
    proof (cases "uchar c < 128")
      case True
      then show ?thesis using 2 Suc by simp
    next
      case False
      let ?n = "seq_len c - 1"
      have n: "0 < seq_len c" "?n \<le> length cs" "list_all is_cont (take ?n cs)" "utf8 (drop ?n cs)" using 2(3) False by auto
      have "?n \<le> k"
      proof (rule ccontr)
        assume "\<not> ?n \<le> k"
        then have "cs ! k \<in> set (take ?n cs)" using n(2) by (auto simp: in_set_conv_nth intro!: exI [of _ k])
        then show False using n(3) 2(5) Suc by (auto simp: list_all_iff)
      qed
      then have "utf8 (take (k - ?n) (drop ?n cs))"
        using 2(2) [OF False n(4), of "k - ?n"] 2(4,5) Suc n(2) by simp
      with n \<open>?n \<le> k\<close> False Suc show ?thesis by (simp add: drop_take min_def)
    qed
  qed simp
qed simp

lemma back_up_facts: "back_up s t \<le> t \<and> (0 < back_up s t \<longrightarrow> \<not> is_cont (s ! back_up s t))"
  by (induction t) auto

text \<open>
  A precision never splits a character. For every string and every precision, \<open>%.Ns\<close> writes a
  prefix of at most \<open>N\<close> bytes of the string, and if the string is UTF-8, so is the prefix; a string
  within the precision is written in full, and of ASCII text exactly the first \<open>N\<close> bytes.
\<close>

theorem cut_length_utf8:
  assumes "utf8 s"
  shows "cut_length s n \<le> min n (length s) \<and> utf8 (take (cut_length s n) s) \<and>
    (length s \<le> n \<longrightarrow> cut_length s n = length s) \<and>
    (list_all (\<lambda>c. uchar c < 128) s \<longrightarrow> cut_length s n = min n (length s))"
proof (cases "n < length s")
  case False
  then show ?thesis using assms by (simp add: cut_length_def)
next
  case True
  let ?t = "back_up s n"
  have t: "?t \<le> n" "0 < ?t \<Longrightarrow> \<not> is_cont (s ! ?t)" using back_up_facts [of s n] by auto
  have "utf8 (take ?t s)"
  proof (cases "?t = 0")
    case False
    then show ?thesis using utf8_take [OF assms, of ?t] t True by simp
  qed simp
  moreover have "?t = n" "uchar (s ! ?t) < 128" if "list_all (\<lambda>c. uchar c < 128) s"
  proof -
    have "\<not> is_cont (s ! k)" if "k < length s" for k
      using \<open>list_all _ s\<close> nth_mem [OF that] by (fastforce simp: list_all_iff is_cont_def)
    then show "?t = n" using True by (cases n) auto
    then show "uchar (s ! ?t) < 128" using that True by (auto simp: list_all_iff)
  qed
  ultimately show ?thesis using True t by (auto simp: cut_length_def Let_def)
qed

theorem cut_length_utf8_witness:
  "utf8 (take (cut_length (''ab'' @ [CHR 0xC3, CHR 0xA9]) 3) (''ab'' @ [CHR 0xC3, CHR 0xA9]))"
proof -
  have "utf8 (''ab'' @ [CHR 0xC3, CHR 0xA9])" by code_simp
  then show ?thesis using cut_length_utf8 by blast
qed

text \<open>What is cut in front of a character of several bytes is lost as a whole.\<close>

lemma cut_loses_prefix: "cut_length (''ab'' @ [CHR 0xC3, CHR 0xA9]) 2 = 0"
  by code_simp

section \<open>Integers\<close>

lemma min_digits_radix: "min_digits (Suc 0) (radix b n) = radix b n"
  using length_radix_pos [of b n] by (simp add: min_digits_def Suc_le_eq)

lemma printf_plain:
  "printf_ll ''%lld'' v = Some (show_int v)"
  "0 \<le> v \<Longrightarrow> printf_ll ''%llu'' v = Some (show_nat (nat v))"
  "0 \<le> v \<Longrightarrow> printf_ll ''%llx'' v = Some (show_hex (nat v))"
  by (auto simp: printf_ll_def split_spec_def isdigit_def Let_def dec_val_def c_int_def pad_field_def has_flag_def
      conv_digits_def min_digits_radix show_int_def show_nat_def show_hex_def)

text \<open>
  Integers are printed at their width. A plain \<open>%d\<close> prints the signed and \<open>%u\<close> the unsigned value
  of its 32-bit argument, \<open>%ld\<close>, \<open>%lld\<close> and \<open>%zu\<close> those of a 64-bit one, and \<open>%hhd\<close>, \<open>%hu\<close> the value
  of the low 8 and 16 bits.
\<close>

theorem jsonf_integers:
  "number_text fl ''%d'' CHR ''d'' (A_int w # args) = Some (show_int (sint w), args) \<and>
   number_text fl ''%u'' CHR ''u'' (A_int w # args) = Some (show_nat (unat w), args) \<and>
   number_text fl ''%x'' CHR ''x'' (A_int w # args) = Some (show_hex (unat w), args) \<and>
   number_text fl ''%hhd'' CHR ''d'' (A_int w # args) = Some (show_int (sint (ucast w :: 8 word)), args) \<and>
   number_text fl ''%hu'' CHR ''u'' (A_int w # args) = Some (show_nat (unat (ucast w :: 16 word)), args) \<and>
   number_text fl ''%ld'' CHR ''d'' (A_long z # args) = Some (show_int (sint z), args) \<and>
   number_text fl ''%lld'' CHR ''d'' (A_long z # args) = Some (show_int (sint z), args) \<and>
   number_text fl ''%zu'' CHR ''u'' (A_long z # args) = Some (show_nat (unat z), args)"
proof -
  have spec: "int_spec ''%d'' CHR ''d'' = ''%lld''" "int_spec ''%u'' CHR ''u'' = ''%llu''" "int_spec ''%x'' CHR ''x'' = ''%llx''"
    "int_spec ''%hhd'' CHR ''d'' = ''%lld''" "int_spec ''%hu'' CHR ''u'' = ''%llu''" "int_spec ''%ld'' CHR ''d'' = ''%lld''"
    "int_spec ''%lld'' CHR ''d'' = ''%lld''" "int_spec ''%zu'' CHR ''u'' = ''%llu''"
    by (simp_all add: int_spec_def)
  show ?thesis
    by (simp add: number_text_def read_int_def Let_def spec printf_plain flip: nat_uint_eq)
qed

section \<open>Directives that are not rejected\<close>

text \<open>
  C40. A modified \<open>%s\<close> is not rejected. The code means to reject any modifier on \<open>%s\<close>, but it looks for
  the end of the directive behind the \<open>s\<close>: in a format like \<open>%-10s id\<close> the letter \<open>i\<close> of the text that
  follows is taken as the conversion, the string argument is read as an integer, and \<open>snprintf\<close> gets a
  directive with \<open>%-10s\<close> and that integer. For every such format the behaviour is undefined.
\<close>

theorem jsonf_modified_string:
  assumes "\<forall>p\<in>set ps. piece_ok fl p" "CHR ''s'' \<in> set pre" "hd pre \<notin> set ''.*sc''"
    "set pre \<inter> set ''%diouxXfFeEgGaAcCpPn'' = {}" "conv \<in> set ''diouxX''" "length pre < 62"
    "int (dec_val (takeWhile isdigit pre)) \<le> 4096"
  shows "mnet_jsonf fl (Some (concat (map piece_format ps) @ CHR ''%'' # pre @ conv # rest))
    (concat (map piece_args ps) @ A_str s # extra) [] = None"
proof -
  let ?f = "pre @ conv # rest"
  obtain x xs where x: "pre = x # xs" using assms(2) by (cases pre) auto
  have tw: "takeWhile (\<lambda>c. c \<noteq> CHR ''%'' \<and> c \<notin> set ''diouxXfFeEgGaAcCpPn'') ?f = pre"
    using assms(4,5) by (intro takeWhile_stop) auto
  have dr: "drop (length pre) ?f = conv # rest" by simp
  have rj: "\<not> spec_rejected (pre @ [conv]) conv"
    using assms(4,5) unfolding spec_rejected_def by (auto dest!: set_takeWhileD)
  have "\<not> isdigit conv" using assms(5) by (auto simp: isdigit_def)
  then have "takeWhile isdigit (pre @ [conv]) = takeWhile isdigit pre" by (induction pre) auto
  then have w: "\<not> 2 ^ 63 \<le> int (dec_val (takeWhile isdigit (pre @ [conv])))" "\<not> 4096 < int (dec_val (takeWhile isdigit (pre @ [conv])))"
    using assms(7) by simp_all
  have l: "\<not> 64 \<le> length (CHR ''%'' # pre @ [conv])" using assms(6) by simp
  have n: "number_text fl (CHR ''%'' # pre @ [conv]) conv (A_str s # extra) = None"
    using assms(5) by (auto simp: number_text_def read_int_def Let_def)
  have "number_directive fl ?f (A_str s # extra) al = None" for al
    unfolding number_directive_def Let_def tw dr list.case if_not_P [OF l] if_not_P [OF rj] if_not_P [OF w(1)] if_not_P [OF w(2)] n
    by simp
  moreover have "x \<noteq> CHR ''%''" "x \<noteq> CHR ''*''" "x \<noteq> CHR ''.''" "x \<noteq> CHR ''s''" "x \<noteq> CHR ''c''"
    using assms(3,4) x by auto
  ultimately have d: "directive fl ?f (A_str s # extra) al = None" for al by (simp add: x directive_def Let_def)
  have "jsonf_loop fl (CHR ''%'' # ?f) (A_str s # extra) out cap [] = None" for out cap
    by (simp add: jsonf_loop.simps [of fl "CHR ''%'' # ?f"] d)
  then show ?thesis
    using jsonf_template [OF assms(1), of "CHR ''%'' # ?f" "A_str s # extra" "[]"] by (auto simp: jsonf_goes_on_def mnet_jsonf_def)
qed

theorem jsonf_modified_string_witness:
  "mnet_jsonf (\<lambda>spec (d :: nat). ''1.5'') (Some ''%-10s id'') [A_str (Some ''x'')] [] = None"
  using jsonf_modified_string [of "[]" "\<lambda>spec (d :: nat). ''1.5''" "''-10s ''" "CHR ''i''" "''d''" "Some ''x''" "[]"]
  by (simp add: isdigit_def dec_val_def)

text \<open>The rebuilt directive of an integer overruns its array when the format's directive has 62 bytes or more.\<close>

lemma long_directive_overruns: "number_text fl (CHR ''%'' # replicate 60 CHR ''0'' @ ''d'') CHR ''d'' [A_int w] = None"
proof -
  have "length (int_spec (CHR ''%'' # replicate 60 CHR ''0'' @ ''d'') CHR ''d'') + 1 > 64" by code_simp
  then show ?thesis by (auto simp: number_text_def split: option.splits)
qed

text \<open>The error response announces four bytes of body even when their copy could not be allocated.\<close>

lemma json_fail_lies: "\<not> wf_response (fst (json_fail [False]))"
  by (simp add: json_fail_def wf_response_def)

end
