(* ===== verification/Examples.thy ===== *)
theory Examples
  imports Run Client_Server Jsonf
begin

text \<open>
  The API server of \<^verbatim>\<open>src/example/example_api_server.c\<close> with \<^verbatim>\<open>src/example/example_common.h\<close>: an
  application written against the library, as the documentation shows it. Its handlers are stated
  over the accessors and the response builders of the model, its \<open>main\<close> over the operations of the
  application. \<open>None\<close> as the result of a handler is undefined behaviour.
\<close>

section \<open>Writing into a fixed buffer\<close>

text \<open>
  \<open>offset += snprintf(buf + offset, sizeof(buf) - offset, ...)\<close>: the offset grows by the length of
  the whole text, also when it is cut; \<open>None\<close> is a pointer beyond the end of the buffer.
\<close>

definition append_out :: "nat \<Rightarrow> string \<Rightarrow> nat \<times> string \<Rightarrow> (nat \<times> string) option" where
  "append_out sz text st =
     (case st of (offset, out) \<Rightarrow>
        if offset \<le> sz then Some (offset + length text, out @ snprintf_out (sz - offset) text) else None)"

text \<open>
  The loop over an array that ends with NULL: the entries are written with commas between them, an
  entry for which \<open>entry\<close> is \<open>None\<close> is passed over.
\<close>

fun entries_loop ::
  "nat \<Rightarrow> (nat \<Rightarrow> string \<Rightarrow> string option) \<Rightarrow> bool \<Rightarrow> nat \<Rightarrow> string option list \<Rightarrow> nat \<times> string \<Rightarrow> (nat \<times> string) option" where
  "entries_loop sz entry first i [] st = None"
| "entries_loop sz entry first i (None # xs) st = Some st"
| "entries_loop sz entry first i (Some x # xs) st =
     (case entry i x of
        None \<Rightarrow> entries_loop sz entry first (Suc i) xs st
      | Some t \<Rightarrow>
          do { st1 \<leftarrow> (if first then Some st else append_out sz '','' st);
               st2 \<leftarrow> append_out sz t st1;
               entries_loop sz entry False (Suc i) xs st2 })"

definition json_entries :: "nat \<Rightarrow> (nat \<Rightarrow> string \<Rightarrow> string option) \<Rightarrow> string option list \<Rightarrow> string option" where
  "json_entries sz entry xs =
     do { st1 \<leftarrow> append_out sz ''['' (0, []);
          st2 \<leftarrow> entries_loop sz entry True 0 xs st1;
          st3 \<leftarrow> append_out sz '']'' st2;
          Some (snd st3) }"

section \<open>The handlers\<close>

definition items :: "string option list" where
  "items = [Some ''Item One'', Some ''Item Two'', Some ''Item Three'', None]"

definition quoted :: "string \<Rightarrow> string" where
  "quoted s = DQUOTE # s @ [DQUOTE]"

text \<open>A handler of the example: its response, or undefined behaviour.\<close>

type_synonym 'w checked_handler = "mnet_request \<Rightarrow> 'w host \<Rightarrow> (mnet_response \<times> 'w host) option"

definition on_alloc :: "(alloc \<Rightarrow> (mnet_response \<times> alloc) option) \<Rightarrow> 'w host \<Rightarrow> (mnet_response \<times> 'w host) option" where
  "on_alloc f h = map_option (\<lambda>(r, al). (r, h\<lparr>h_alloc := al\<rparr>)) (f (h_alloc h))"

text \<open>\<open>mnet_jsonf\<close> without a floating-point directive, so that the printer of such values is not called.\<close>

definition jsonf :: "string \<Rightarrow> unit va_arg list \<Rightarrow> alloc \<Rightarrow> (mnet_response \<times> alloc) option" where
  "jsonf format args = mnet_jsonf (\<lambda>spec d. []) (Some format) args"

definition list_items :: "'w checked_handler" where
  "list_items req h =
     (case json_entries 512 (\<lambda>i s. Some (quoted s)) items of
        None \<Rightarrow> None
      | Some json \<Rightarrow> Some (with_alloc (mnet_json (Some json)) h))"

definition get_item :: "'w checked_handler" where
  "get_item req h =
     (case mnet_request_param (Some req) (Some ''id'') of
        None \<Rightarrow> None
      | Some Freed \<Rightarrow> None
      | Some Null \<Rightarrow> Some (with_alloc (mnet_error 400 (Some ''missing id parameter'')) h)
      | Some (Val id_str) \<Rightarrow>
          let n = atoi (c_string id_str)
          in if \<not> c_int n then None
             else if n < 0 then Some (with_alloc (mnet_error 404 (Some ''item not found'')) h)
             else if nat n < length items then
               (case items ! nat n of
                  None \<Rightarrow> Some (with_alloc (mnet_error 404 (Some ''item not found'')) h)
                | Some name \<Rightarrow>
                    on_alloc (jsonf (''{'' @ quoted ''id'' @ '':%d,'' @ quoted ''name'' @ '':'' @ quoted ''%s'' @ ''}'')
                      [A_int (word_of_int n), A_str (Some name)]) h)
             else None)"

definition create_item :: "'w checked_handler" where
  "create_item req h =
     (case mnet_request_body (Some req) of
        None \<Rightarrow> Some (with_alloc (mnet_error 400 (Some ''empty body'')) h)
      | Some body \<Rightarrow>
          if length (c_string body) = 0 then Some (with_alloc (mnet_error 400 (Some ''empty body'')) h)
          else on_alloc (jsonf (''{'' @ quoted ''created'' @ '':true,'' @ quoted ''item'' @ '':'' @ quoted ''%s'' @ ''}'')
                 [A_str (Some (c_string body))]) h)"

text \<open>An item with its number, as \<open>search_items\<close> prints it with \<open>snprintf\<close>.\<close>

definition item_entry :: "nat \<Rightarrow> string \<Rightarrow> string" where
  "item_entry i s = ''{'' @ quoted ''id'' @ '':'' @ show_nat i @ '','' @ quoted ''name'' @ '':'' @ quoted s @ ''}''"

definition missing_q :: string where
  "missing_q = ''missing query parameter '' @ [CHR 0x27] @ ''q'' @ [CHR 0x27]"

definition search_items :: "'w checked_handler" where
  "search_items req h =
     (case mnet_request_query (Some req) (Some ''q'') of
        None \<Rightarrow> None
      | Some None \<Rightarrow> Some (with_alloc (mnet_error 400 (Some missing_q)) h)
      | Some (Some query) \<Rightarrow>
          if length (c_string query) = 0
          then Some (with_alloc (mnet_error 400 (Some missing_q)) h)
          else
            (case json_entries 512 (\<lambda>i s. if strstr s (c_string query) \<noteq> None then Some (item_entry i s) else None) items of
               None \<Rightarrow> None
             | Some json \<Rightarrow> Some (with_alloc (mnet_json (Some json)) h)))"

definition api_echo :: "'w checked_handler" where
  "api_echo req h =
     (case mnet_request_body (Some req) of
        None \<Rightarrow> Some (with_alloc (mnet_error 400 (Some ''empty body'')) h)
      | Some body \<Rightarrow>
          (case mnet_request_header (Some req) (Some ''Content-Type'') of
             None \<Rightarrow> None
           | Some content_type \<Rightarrow>
               on_alloc (jsonf (''{'' @ quoted ''echo'' @ '':{'' @ quoted ''body'' @ '':'' @ quoted ''%s'' @ '','' @
                   quoted ''content_type'' @ '':'' @ quoted ''%s'' @ ''}}'')
                 [A_str (Some (c_string body)),
                  A_str (Some (case content_type of Some ct \<Rightarrow> c_string ct | None \<Rightarrow> ''none''))]) h))"

definition health :: "'w checked_handler" where
  "health req h = Some (with_alloc (mnet_json (Some (''{'' @ quoted ''status'' @ '':'' @ quoted ''ok'' @ ''}''))) h)"

section \<open>The application\<close>

text \<open>
  A handler as a route stores it. Where the handler is undefined there is no behaviour to model, and
  nothing is proved of the value taken here.
\<close>

definition route_handler :: "'w checked_handler \<Rightarrow> 'w handler" where
  "route_handler f req h = (case f req h of Some r \<Rightarrow> r | None \<Rightarrow> (zero_response, h))"

definition example_create :: "'w host \<Rightarrow> 'w mnet_app option \<times> 'w host" where
  "example_create h =
     (case with_alloc mnet_create h of
        (None, h1) \<Rightarrow> (None, h1\<lparr>h_stderr := h_stderr h1 @ [''mnet: failed to create the application'']\<rparr>)
      | (Some a, h1) \<Rightarrow> (mnet_set_debug True (Some a), h1))"

definition api_routes :: "'w registration list" where
  "api_routes =
     [(MNET_HTTP_GET, ''/api/items'', route_handler list_items),
      (MNET_HTTP_GET, ''/api/items/:id'', route_handler get_item),
      (MNET_HTTP_POST, ''/api/items'', route_handler create_item),
      (MNET_HTTP_GET, ''/api/search'', route_handler search_items),
      (MNET_HTTP_POST, ''/api/echo'', route_handler api_echo),
      (MNET_HTTP_GET, ''/api/health'', route_handler health)]"

text \<open>\<open>main\<close> up to the call of \<open>mnet_run\<close>; the results of the registrations are not looked at.\<close>

definition setup_routes :: "'w registration list \<Rightarrow> 'w mnet_app option \<times> 'w host \<Rightarrow> 'w mnet_app option \<times> 'w host" where
  "setup_routes regs ah =
     (case ah of
        (None, h) \<Rightarrow> (None, h)
      | (Some a, h) \<Rightarrow> (case add_all register regs a (h_alloc h) of (a', al) \<Rightarrow> (Some a', h\<lparr>h_alloc := al\<rparr>)))"

definition api_setup :: "'w host \<Rightarrow> 'w mnet_app option \<times> 'w host" where
  "api_setup h = setup_routes api_routes (example_create h)"

section \<open>Arrays in JSON\<close>

lemma append_out_fits:
  "length out + length t < sz \<Longrightarrow> append_out sz t (length out, out) = Some (length (out @ t), out @ t)"
  by (simp add: append_out_def snprintf_out_def)

fun chosen :: "(nat \<Rightarrow> string \<Rightarrow> string option) \<Rightarrow> nat \<Rightarrow> string option list \<Rightarrow> string list" where
  "chosen entry i (Some x # xs) =
     (case entry i x of None \<Rightarrow> chosen entry (Suc i) xs | Some t \<Rightarrow> t # chosen entry (Suc i) xs)"
| "chosen entry i xs = []"

definition comma_list :: "string list \<Rightarrow> string" where
  "comma_list ts = concat (map (\<lambda>t. CHR '','' # t) ts)"

definition json_list :: "string list \<Rightarrow> string" where
  "json_list ts = ''['' @ drop 1 (comma_list ts) @ '']''"

lemma comma_list_simps [simp]: "comma_list [] = []" "comma_list (t # ts) = CHR '','' # t @ comma_list ts"
  by (simp_all add: comma_list_def)

lemma length_comma_list: "\<forall>t\<in>set ts. length t \<le> k \<Longrightarrow> length (comma_list ts) \<le> Suc k * length ts"
  by (induction ts) auto

lemma length_chosen: "length (chosen entry i xs) < length xs \<or> None \<notin> set xs"
  by (induction entry i xs rule: chosen.induct) (auto split: option.splits)

lemma entries_loop_fits:
  assumes "None \<in> set xs" "length out + length (comma_list (chosen entry i xs)) < sz"
  shows "entries_loop sz entry first i xs (length out, out) =
    (let out' = out @ (if first then drop 1 else id) (comma_list (chosen entry i xs)) in Some (length out', out'))"
  using assms
proof (induction xs arbitrary: i first out)
  case (Cons y xs)
  show ?case
  proof (cases y)
    case None
    then show ?thesis by simp
  next
    case y: (Some x)
    show ?thesis
    proof (cases "entry i x")
      case None
      with Cons y show ?thesis by simp
    next
      case (Some t)
      let ?o = "out @ (if first then [] else '','')"
      have l: "length (?o @ t) + length (comma_list (chosen entry (Suc i) xs)) < sz" using Cons(3) y Some by simp
      have "(if first then Some (length out, out) else append_out sz '','' (length out, out)) = Some (length ?o, ?o)"
        using append_out_fits [of out "'',''" sz] l by (cases first) simp_all
      moreover have "append_out sz t (length ?o, ?o) = Some (length (?o @ t), ?o @ t)"
        using l by (intro append_out_fits) simp
      moreover have "None \<in> set xs" using Cons(2) y by simp
      note Cons.IH [OF this l, of False]
      ultimately show ?thesis using y Some by (simp add: Let_def)
    qed
  qed
qed simp

lemma json_entries_fits:
  assumes "None \<in> set xs" "length (comma_list (chosen entry 0 xs)) + 2 < sz"
  shows "json_entries sz entry xs = Some (json_list (chosen entry 0 xs))"
proof -
  let ?o = "''['' @ drop 1 (comma_list (chosen entry 0 xs))"
  have "append_out sz ''['' (0, []) = Some (length ''['', ''['')" using append_out_fits [of "[]" "''[''" sz] assms(2) by simp
  moreover have "entries_loop sz entry True 0 xs (length ''['', ''['') = Some (length ?o, ?o)"
    using entries_loop_fits [OF assms(1), of "''[''" entry 0 sz True] assms(2) by (simp add: Let_def)
  moreover have "append_out sz '']'' (length ?o, ?o) = Some (length (?o @ '']''), ?o @ '']'')"
    using assms(2) by (intro append_out_fits) simp
  ultimately show ?thesis by (simp add: json_entries_def json_list_def)
qed

section \<open>Formats\<close>

text \<open>Literal text in a template of \<open>mnet_jsonf\<close>.\<close>

abbreviation lit :: "string \<Rightarrow> unit piece list" where "lit s \<equiv> map P_char s"

lemma lit_text [simp]:
  "concat (map piece_format (lit s)) = s" "concat (map piece_args (lit s)) = []" "concat (map (piece_text fl) (lit s)) = s"
  by (induction s) simp_all

lemma lit_ok: "CHR ''%'' \<notin> set s \<Longrightarrow> \<forall>p\<in>set (lit s). piece_ok fl p"
  by auto

lemma int_piece_ok: "piece_ok fl (P_num [] CHR ''d'' (A_int w))"
  using jsonf_integers [THEN conjunct1, of fl w "[]"] by (simp add: isdigit_def dec_val_def)

lemma jsonf_pieces:
  assumes "\<forall>p\<in>set ps. piece_ok (\<lambda>spec d. []) p" "format = concat (map piece_format ps)" "args = concat (map piece_args ps)"
    "h_alloc h = []"
  shows "on_alloc (jsonf format args) h = Some (json_ok (concat (map (piece_text (\<lambda>spec d. [])) ps)), h)"
  using jsonf_text [OF assms(1)] assms(2-4) by (simp add: on_alloc_def jsonf_def)

section \<open>What the handlers answer\<close>

lemma builders_without_failure:
  assumes "h_alloc h = []"
  shows "with_alloc (mnet_json (Some t)) h = (json_ok t, h)"
    "with_alloc (mnet_error st (Some t)) h =
      (\<lparr>r_status = st, r_content_type = Some ''text/plain; charset=utf-8'', r_body = Some t, r_body_length = length t,
        r_chunked = False\<rparr>, h)"
  using assms by (simp_all add: with_alloc_def mnet_json_def text_response_def mnet_error_def status_response_def
      zero_response_def json_ok_def)

definition item_json :: "nat \<Rightarrow> string \<Rightarrow> string" where
  "item_json i s = ''{'' @ quoted ''id'' @ '':'' @ show_nat i @ '','' @ quoted ''name'' @ '':'' @ quoted (json_esc_str s) @ ''}''"

lemma get_item_json:
  assumes "h_alloc h = []" "i < 2147483648"
  shows "on_alloc (jsonf (''{'' @ quoted ''id'' @ '':%d,'' @ quoted ''name'' @ '':'' @ quoted ''%s'' @ ''}'')
     [A_int (word_of_int (int i)), A_str (Some s)]) h = Some (json_ok (item_json i s), h)"
proof -
  let ?d = "P_num [] CHR ''d'' (A_int (word_of_int (int i))) :: unit piece"
  let ?ps = "lit (''{'' @ quoted ''id'' @ '':'') @ [?d] @ lit ('','' @ quoted ''name'' @ '':'' @ [DQUOTE]) @ [P_str (Some s)] @ lit (DQUOTE # ''}'')"
  have v: "sint (word_of_int (int i) :: 32 word) = int i"
    using assms(2) by (simp add: signed_of_nat signed_take_bit_int_eq_self)
  have "\<forall>p\<in>set ?ps. piece_ok (\<lambda>spec d. []) p"
    using int_piece_ok [of _ "word_of_int (int i)"] by (simp add: quoted_def del: piece_ok.simps(3))
  note jsonf_pieces [OF this refl refl assms(1)]
  moreover have "piece_text (\<lambda>spec d. []) ?d = show_nat i"
    using jsonf_integers [THEN conjunct1, of "\<lambda>spec (d :: unit). []" "word_of_int (int i)" "[]"]
    unfolding v by (simp add: show_int_def)
  ultimately show ?thesis by (simp add: item_json_def quoted_def string_arg_def)
qed

definition item_names :: "string list" where
  "item_names = [''Item One'', ''Item Two'', ''Item Three'']"

lemma items_eq: "items = map Some item_names @ [None]"
  by (simp add: items_def item_names_def)

lemma json_esc_items: "s \<in> set item_names \<Longrightarrow> json_esc_str s = s"
proof -
  have "\<forall>s\<in>set item_names. json_esc_str s = s" by code_simp
  then show "s \<in> set item_names \<Longrightarrow> json_esc_str s = s" by blast
qed

text \<open>
  C38. The example's \<open>GET /api/items/:id\<close> reads outside its array. Whatever the identifier, the handler
  answers the numbers 0, 1 and 2 with the JSON of the item, and 3 and the negative numbers with 404;
  but for every number above 3 it reads \<open>items[id]\<close> beyond the NULL that ends the array, which is
  undefined behaviour that any client can cause.
\<close>

theorem get_item_outcome:
  assumes "mnet_request_param (Some req) (Some ''id'') = Some (Val v)" "h_alloc h = []"
  shows "get_item req h =
    (let n = atoi (c_string v) in
     if \<not> c_int n \<or> 3 < n then None
     else if 0 \<le> n \<and> n < 3 then Some (json_ok (item_entry (nat n) (item_names ! nat n)), h)
     else Some (with_alloc (mnet_error 404 (Some ''item not found'')) h))"
proof -
  let ?n = "atoi (c_string v)"
  consider "\<not> c_int ?n" | "c_int ?n" "?n < 0 \<or> 3 \<le> ?n" | "0 \<le> ?n" "?n < 3" by linarith
  then show ?thesis
  proof cases
    case 1
    with assms(1) show ?thesis by (simp add: get_item_def)
  next
    case 2
    have "items ! nat ?n = None" if "?n = 3" by (simp add: that items_def numeral_3_eq_3)
    with 2 assms(1) show ?thesis by (auto simp: get_item_def Let_def items_def)
  next
    case 3
    then have l: "nat ?n < length item_names" "c_int ?n" by (auto simp: item_names_def c_int_def)
    then have i: "items ! nat ?n = Some (item_names ! nat ?n)" "nat ?n < length items"
      by (simp_all add: items_eq nth_append)
    have "item_names ! nat ?n \<in> set item_names" using l(1) by (rule nth_mem)
    then have "item_json (nat ?n) (item_names ! nat ?n) = item_entry (nat ?n) (item_names ! nat ?n)"
      by (simp add: item_json_def item_entry_def json_esc_items)
    with 3 i l(2) assms(1) show ?thesis
      using get_item_json [OF assms(2), of "nat ?n" "item_names ! nat ?n"] by (simp add: get_item_def Let_def)
  qed
qed

theorem get_item_outcome_witness:
  "get_item (sample_request\<lparr>rq_path_param_values := Some [Val ''4'']\<rparr>) sample_host = None"
proof -
  let ?req = "sample_request\<lparr>rq_path_param_values := Some [Val ''4'']\<rparr>"
  have "mnet_request_param (Some ?req) (Some ''id'') = Some (Val ''4'')" by code_simp
  moreover have "atoi (c_string ''4'') = 4" by code_simp
  moreover have "h_alloc sample_host = []" by (simp add: sample_host_def)
  ultimately show ?thesis using get_item_outcome [of ?req "''4''" sample_host] by simp
qed

lemma chosen_all: "chosen entry i (map Some xs @ [None]) = List.map_filter (\<lambda>(i, s). entry i s) (enumerate i xs)"
  by (induction xs arbitrary: i) (simp_all add: map_filter_simps split: option.splits)

text \<open>
  The example's \<open>GET /api/search\<close> gives the JSON array of exactly the items whose names contain
  the query, in their order and each with its number, whatever the query: the buffer of 512 bytes is
  never left and the answer never cut. Without a query, or with an empty one, it answers 400.
\<close>

lemma search_items_answer:
  assumes "mnet_request_query (Some req) (Some ''q'') = Some q" "h_alloc h = []"
  shows "search_items req h =
    (case q of
       Some query \<Rightarrow>
         if c_string query = [] then Some (with_alloc (mnet_error 400 (Some missing_q)) h)
         else Some (json_ok (json_list [item_entry i s. (i, s) \<leftarrow> enumerate 0 item_names, sublist (c_string query) s]), h)
     | None \<Rightarrow> Some (with_alloc (mnet_error 400 (Some missing_q)) h))"
proof (cases q)
  case None
  with assms(1) show ?thesis by (simp add: search_items_def)
next
  case (Some query)
  let ?e = "\<lambda>i s. if strstr s (c_string query) \<noteq> None then Some (item_entry i s) else None"
  have c: "chosen ?e 0 items = [item_entry i s. (i, s) \<leftarrow> enumerate 0 item_names, sublist (c_string query) s]"
    by (simp add: items_eq chosen_all item_names_def map_filter_simps strstr_None_iff)
  have "\<forall>(i, s)\<in>set (enumerate 0 item_names). length (item_entry i s) \<le> 100" by code_simp
  then have "\<forall>t\<in>set (chosen ?e 0 items). length t \<le> 100" unfolding c by auto
  from length_comma_list [OF this] have "length (comma_list (chosen ?e 0 items)) + 2 < 512"
    using length_chosen [of ?e 0 items] by (simp add: items_def)
  moreover have "None \<in> set items" by (simp add: items_def)
  ultimately have "json_entries 512 ?e items = Some (json_list (chosen ?e 0 items))"
    by (intro json_entries_fits)
  then show ?thesis
    using assms Some unfolding search_items_def c by (simp add: builders_without_failure)
qed

lemma search_items_sample:
  "search_items (sample_request\<lparr>rq_query_names := Some [''q''], rq_query_values := Some [''T'']\<rparr>) sample_host =
    Some (json_ok (json_list [item_entry 1 ''Item Two'', item_entry 2 ''Item Three'']), sample_host)"
proof -
  let ?req = "sample_request\<lparr>rq_query_names := Some [''q''], rq_query_values := Some [''T'']\<rparr>"
  have "mnet_request_query (Some ?req) (Some ''q'') = Some (Some ''T'')" by code_simp
  moreover have "h_alloc sample_host = []" by (simp add: sample_host_def)
  moreover have "[item_entry i s. (i, s) \<leftarrow> enumerate 0 item_names, sublist (c_string ''T'') s] =
      [item_entry 1 ''Item Two'', item_entry 2 ''Item Three'']" "c_string ''T'' \<noteq> []" by code_simp+
  ultimately show ?thesis using search_items_answer [of ?req "Some ''T''" sample_host] by simp
qed

definition echo_front :: string where
  "echo_front = ''{'' @ quoted ''echo'' @ '':{'' @ quoted ''body'' @ '':'' @ [DQUOTE]"

definition echo_middle :: string where
  "echo_middle = '','' @ quoted ''content_type'' @ '':'' @ [DQUOTE]"

lemma api_echo_text:
  assumes "rq_body req = Some body" "mnet_request_header (Some req) (Some ''Content-Type'') = Some ct" "h_alloc h = []"
  shows "api_echo req h = Some (json_ok (echo_front @ json_esc_str (c_string body) @ DQUOTE # echo_middle @
    json_esc_str (case ct of Some v \<Rightarrow> c_string v | None \<Rightarrow> ''none'') @ DQUOTE # ''}}''), h)"
proof -
  let ?ct = "case ct of Some v \<Rightarrow> c_string v | None \<Rightarrow> ''none''"
  let ?ps = "lit echo_front @ [P_str (Some (c_string body))] @ lit (DQUOTE # echo_middle) @ [P_str (Some ?ct)] @ lit (DQUOTE # ''}}'')"
  have "\<forall>p\<in>set ?ps. piece_ok (\<lambda>spec d. []) p" by (simp add: echo_front_def echo_middle_def quoted_def)
  note jsonf_pieces [OF this refl refl assms(3)]
  then show ?thesis
    using assms(1,2) by (simp add: api_echo_def mnet_request_body_def echo_front_def echo_middle_def quoted_def string_arg_def)
qed

text \<open>
  The example's \<open>POST /api/echo\<close> cannot be made to answer anything but its own JSON. Whatever bytes
  the body and the \<open>Content-Type\<close> header of a request have, a JSON reader gets back exactly the body
  (up to its first zero byte) as the one string and the value of the header as the other, and finds
  the text of the handler's format around them.
\<close>

theorem api_echo_no_injection:
  assumes "wf_request req" "rq_body req = Some body" "h_alloc h = []"
  shows "\<exists>t u. api_echo req h = Some (json_ok (echo_front @ t), h) \<and>
    json_read t = Some (c_string body, echo_middle @ u) \<and>
    json_read u = Some (case first_match strcaseeq
        (pairs_of (rq_header_names req) (rq_header_values req) (rq_header_count req)) ''Content-Type'' of
      Some v \<Rightarrow> c_string v | None \<Rightarrow> ''none'', ''}}'')"
proof -
  let ?ct = "first_match strcaseeq (pairs_of (rq_header_names req) (rq_header_values req) (rq_header_count req)) ''Content-Type''"
  have "mnet_request_header (Some req) (Some ''Content-Type'') = Some ?ct"
    using assms(1) by (simp add: mnet_request_header_def wf_request_def scan_array_pairs)
  note api_echo_text [OF assms(2) this assms(3)]
  then show ?thesis using json_read_str by blast
qed

theorem api_echo_no_injection_witness:
  "\<exists>t u. api_echo (sample_request\<lparr>rq_body := Some [DQUOTE, CHR '',''], rq_body_length := 2\<rparr>) sample_host =
      Some (json_ok (echo_front @ t), sample_host) \<and> json_read t = Some ([DQUOTE, CHR '',''], echo_middle @ u) \<and>
    json_read u = Some (''none'', ''}}'')"
proof -
  let ?req = "sample_request\<lparr>rq_body := Some [DQUOTE, CHR '',''], rq_body_length := 2\<rparr>"
  have "wf_request ?req" by (simp add: wf_request_def arrays_ok_def sample_request_def)
  moreover have "h_alloc sample_host = []" by (simp add: sample_host_def)
  moreover have "c_string [DQUOTE, CHR '',''] = [DQUOTE, CHR '','']" "first_match strcaseeq
      (pairs_of (rq_header_names ?req) (rq_header_values ?req) (rq_header_count ?req)) ''Content-Type'' = None" by code_simp+
  ultimately show ?thesis using api_echo_no_injection [of ?req "[DQUOTE, CHR '','']" sample_host] by simp
qed

section \<open>The server as a whole\<close>

definition settings_of :: "'w mnet_app \<Rightarrow> int \<times> int \<times> size_t \<times> 'w middleware option \<times> int" where
  "settings_of a =
     (app_timeout_seconds a, app_keep_alive_timeout a, app_max_body_size a, app_middleware a, app_workers a)"

lemma grow_settings: "grow_routes a al = (Some a1, al1) \<Longrightarrow> settings_of a1 = settings_of a"
  by (auto simp: grow_routes_def settings_of_def Let_def split: if_splits prod.splits bool.splits)

lemma put_settings [simp]:
  "settings_of (put_route a r) = settings_of a" "settings_of (put_route a r\<lparr>app_route_count := n\<rparr>) = settings_of a"
  by (simp_all add: put_route_def settings_of_def)

lemma register_keeps:
  "settings_of (snd (fst (register i a al))) = settings_of a \<and> set (snd (register i a al)) \<subseteq> set al"
proof -
  obtain meth p f where i: "i = (meth, p, f)" by (metis surj_pair)
  obtain rc app' al' where r: "mnet_route (Some a) meth (Some p) (Some f) al = ((rc, app'), al')" by (metis surj_pair)
  obtain g al1 where g: "grow_routes a al = (g, al1)" by fastforce
  obtain ns al2 where n: "param_names_loop p [] al1 = (ns, al2)" by fastforce
  have "settings_of (case app' of Some a' \<Rightarrow> a' | None \<Rightarrow> a) = settings_of a"
    using r g n grow_settings [of a al _ al1] by (cases g; cases ns) (auto simp: mnet_route_def mnet_add_route_def Let_def)
  then show ?thesis using mnet_route_subset [OF r] by (simp add: register_def i r)
qed

lemma add_all_keeps:
  "settings_of (fst (add_all register is a al)) = settings_of a \<and> set (snd (add_all register is a al)) \<subseteq> set al"
proof (induction "is" arbitrary: a al)
  case (Cons i "is")
  obtain ok a' al' where r: "register i a al = ((ok, a'), al')" by (metis surj_pair)
  with register_keeps [of i a al] Cons [of a' al'] show ?case by auto
qed simp

lemma setup_routes_registers:
  assumes "wf_app a" "registered a = []" "h_alloc h = []"
  shows "\<exists>a'. setup_routes regs (Some a, h) = (Some a', h) \<and> wf_app a' \<and> registered a' = map route_for regs \<and>
    settings_of a' = settings_of a"
proof -
  obtain a' al where r: "add_all register regs a [] = (a', al)" by fastforce
  with add_all_keeps [of regs a "[]"] have "al = []" "settings_of a' = settings_of a" by simp_all
  with r assms show ?thesis
    using routes.add_all_routes [OF assms(1), of "[]" regs] routes.add_all_inv [OF assms(1), of regs "[]"]
    by (simp add: setup_routes_def)
qed

lemma example_create_fresh:
  assumes "h_alloc h = []"
  shows "\<exists>a. example_create h = (Some a, h) \<and> wf_app a \<and> registered a = [] \<and> settings_of a = (30, 5, 0, None, 4)"
  using assms by (auto simp: example_create_def with_alloc_def mnet_create_def mnet_set_debug_def wf_app_def registered_def
      settings_of_def zero_app_def)

lemma api_setup_facts:
  assumes "api_setup h0 = (Some app, h)" "h_alloc h0 = []"
  shows "registered app = map route_for api_routes" "wf_app app" "settings_of app = (30, 5, 0, None, 4)" "h = h0"
proof -
  obtain a where a: "example_create h0 = (Some a, h0)" "wf_app a" "registered a = []" "settings_of a = (30, 5, 0, None, 4)"
    using example_create_fresh [OF assms(2)] by blast
  from setup_routes_registers [OF a(2,3) assms(2), of api_routes] a(1,4) assms(1)
  show "registered app = map route_for api_routes" "wf_app app" "settings_of app = (30, 5, 0, None, 4)" "h = h0"
    by (auto simp: api_setup_def)
qed

lemma api_setup_done: "h_alloc h = [] \<Longrightarrow> \<exists>a. api_setup h = (Some a, h)"
  using example_create_fresh [of h] setup_routes_registers [of _ h api_routes] by (fastforce simp: api_setup_def)

lemma api_paths:
  "\<forall>p\<in>{''/api/items'', ''/api/items/:id'', ''/api/search'', ''/api/echo'', ''/api/health''}.
     pattern_params p \<le> 1 \<and> pattern_params p \<le> length (pattern_names 0 p)"
  by code_simp

lemma api_ready:
  assumes "api_setup h0 = (Some app, h)" "h_alloc h0 = []"
  shows "app_ready app" "routes_named app" "request_timeout app False = Some 30000" "max_body app = 16777216"
proof -
  note F = api_setup_facts [OF assms]
  have "request_timeout app keep = Some (if keep then 5000 else 30000)" for keep
    using F(3) by (simp add: settings_of_def request_timeout_def c_int_def)
  moreover have "routes_fit app"
    using api_paths unfolding routes_fit_def F(1)
    by (auto simp: api_routes_def route_for_def new_route_def route_fits_def)
  ultimately show "app_ready app" "request_timeout app False = Some 30000" using F(2) by (simp_all add: app_ready_def)
  show "routes_named app"
    using api_paths unfolding routes_named_def F(1)
    by (auto simp: api_routes_def route_for_def new_route_def route_named_def)
  show "max_body app = 16777216" using F(3) by (simp add: settings_of_def max_body_def)
qed

definition items_json :: string where
  "items_json = json_list (map quoted item_names)"

lemma list_items_text: "h_alloc h = [] \<Longrightarrow> list_items req h = Some (json_ok items_json, h)"
proof -
  have "json_entries 512 (\<lambda>i s. Some (quoted s)) items = Some items_json" by code_simp
  then show "h_alloc h = [] \<Longrightarrow> list_items req h = Some (json_ok items_json, h)"
    by (simp add: list_items_def builders_without_failure)
qed

lemma json_ok_sendable: "length t < 2 ^ 64 \<Longrightarrow> sendable (json_ok t) keep"
proof -
  have "mnet_header_value_valid (Some ''application/json'')" by code_simp
  then show "length t < 2 ^ 64 \<Longrightarrow> sendable (json_ok t) keep"
    by (intro sendable_short) (simp_all add: json_ok_def content_type_of_def wf_response_def c_int_def)
qed

lemma items_sendable: "sendable (json_ok items_json) keep"
proof -
  have "length items_json < 100" by code_simp
  then show ?thesis by (intro json_ok_sendable) simp
qed

definition list_route :: "'w mnet_route" where
  "list_route = route_for (MNET_HTTP_GET, ''/api/items'', route_handler list_items)"

lemma list_route_served:
  assumes "api_setup h0 = (Some app, h)" "h_alloc h0 = []"
  shows "resolve (registered app) MNET_HTTP_GET ''/api/items'' = Some list_route"
    "h_alloc h1 = [] \<Longrightarrow> call_handler app list_route req h1 = (json_ok items_json, h1)" "answers app list_route"
proof -
  note F = api_setup_facts [OF assms]
  have "route_values ''api/items'' ''api/items'' = Some []" by code_simp
  then have "serves MNET_HTTP_GET ''/api/items'' (list_route :: 'a mnet_route)"
    by (simp add: serves_def route_result_def list_route_def route_for_def new_route_def)
  moreover have "registered app = list_route # map route_for (tl api_routes)"
    unfolding F(1) by (simp add: api_routes_def list_route_def)
  ultimately show "resolve (registered app) MNET_HTTP_GET ''/api/items'' = Some list_route"
    by (simp add: resolve_def)
  have c: "call_handler app list_route req h1 = (json_ok items_json, h1)" if "h_alloc h1 = []" for h1 :: "'a host" and req
    using F(3) list_items_text [OF that]
    by (simp add: call_handler_def settings_of_def list_route_def route_for_def new_route_def route_handler_def)
  then show "h_alloc h1 = [] \<Longrightarrow> call_handler app list_route req h1 = (json_ok items_json, h1)" .
  show "answers app list_route"
    using items_sendable by (auto simp: answers_def c) (simp add: json_ok_def)
qed

text \<open>A GET request whose route answers with JSON, from the application that \<open>main\<close> sets up to the wire.\<close>

lemma api_get_json:
  assumes "api_setup h0 = (Some app, h)" "h_alloc h0 = []"
    and "resolve (registered app) MNET_HTTP_GET (path_part target) = Some r" "answers app r"
    and "\<And>req. carries r ''GET'' target hs [] req \<Longrightarrow> call_handler app r req h = (json_ok t, h)"
    and "rendered ''GET'' MNET_HTTP_GET target hs []" "\<not> persistent hs" "length (block ''GET'' target hs @ CRLF2) \<le> 8191"
    and "stream c = request_text ''GET'' target hs [] @ rest" "data_only (c_inbox c)" "total_delay (c_inbox c) < 30000"
  shows "\<exists>c' h' fr. mnet_handle_client env app c h = Some (c', h', fr) \<and> h_world h' = h_world h0 \<and>
    sent_since c c' = message (response_lines (json_ok t) False) t"
proof -
  note F = api_setup_facts [OF assms(1,2)] and R = api_ready [OF assms(1,2)]
  have A: "acceptable app ''GET'' MNET_HTTP_GET target hs [] r"
    using assms(3,4,6,8) R(4) by (simp add: acceptable_def room_for_digit_def)
  have d: "int (total_delay (c_inbox c)) < 30000" and al: "h_alloc h = []" using assms(2,11) F(4) by simp_all
  obtain req resp h2 c' h' fr where H: "mnet_handle_client env app c h = Some (c', h', fr)"
    "carries r ''GET'' target hs [] req" "call_handler app r req h = (resp, h2)" "h_world h' = h_world h2"
    "sent_since c c' = reply resp MNET_HTTP_GET False"
    using handle_client_reply [OF R(1,2) al A assms(7,9,10) R(3) d, of env] by blast
  moreover from this have "resp = json_ok t" "h2 = h" using assms(5) [OF H(2)] by simp_all
  moreover have "body_of (json_ok t) = t" "\<not> r_chunked (json_ok t)" by (simp_all add: body_of_def json_ok_def)
  ultimately show ?thesis using F(4) by (simp add: reply_def)
qed

text \<open>
  The example server as a whole, from \<open>main\<close> to the wire. On the application that \<open>main\<close> sets up, a
  client that sends \<open>GET /api/items\<close> with any headers, in pieces of any size within half a minute,
  gets exactly the JSON array of the three items as the body of one response with status 200, and
  the state of the program is unchanged.
\<close>

theorem api_server_lists_items:
  assumes "api_setup h0 = (Some app, h)" "h_alloc h0 = []"
    and "rendered ''GET'' MNET_HTTP_GET ''/api/items'' hs []" "\<not> persistent hs"
    and "length (block ''GET'' ''/api/items'' hs @ CRLF2) \<le> 8191"
    and "stream c = request_text ''GET'' ''/api/items'' hs [] @ rest" "data_only (c_inbox c)"
    and "total_delay (c_inbox c) < 30000"
  shows "\<exists>c' h' fr. mnet_handle_client env app c h = Some (c', h', fr) \<and> h_world h' = h_world h0 \<and>
    sent_since c c' = message (response_lines (json_ok items_json) False) items_json"
proof -
  note F = api_setup_facts [OF assms(1,2)] and L = list_route_served [OF assms(1,2)]
  have "path_part ''/api/items'' = ''/api/items''" by code_simp
  then have p: "resolve (registered app) MNET_HTTP_GET (path_part ''/api/items'') = Some list_route" using L(1) by simp
  have "h_alloc h = []" using assms(2) F(4) by simp
  from api_get_json [OF assms(1,2) p L(3) L(2) [OF this] assms(3-8), of env] show ?thesis .
qed

theorem api_server_lists_items_witness:
  "\<exists>app h c' h' fr. api_setup sample_host = (Some app, h) \<and> mnet_handle_client sample_env app
      \<lparr>c_clock = 0, c_inbox = [Data 10 ''GET /api/ite'', Data 20 (''ms HTTP/1.1'' @ CRLF @ ''Host: h'' @ CRLF2)], c_sent = []\<rparr>
      h = Some (c', h', fr) \<and>
    concat (c_sent c') = message (response_lines (json_ok items_json) False) items_json"
proof -
  let ?c = "\<lparr>c_clock = 0, c_inbox = [Data 10 ''GET /api/ite'', Data 20 (''ms HTTP/1.1'' @ CRLF @ ''Host: h'' @ CRLF2)], c_sent = []\<rparr>"
  let ?hs = "[(''Host'', ''h'')]"
  have al: "h_alloc sample_host = []" by (simp add: sample_host_def)
  obtain app h where s: "api_setup sample_host = (Some app, h)" using api_setup_done [OF al] by blast
  have "stream ?c = request_text ''GET'' ''/api/items'' ?hs [] @ []" "\<not> persistent ?hs" "total_delay (c_inbox ?c) = 30"
    "data_only (c_inbox ?c)" "length (block ''GET'' ''/api/items'' ?hs @ CRLF2) \<le> 8191" by code_simp+
  moreover have "wf_target ''/api/items''" "mnet_parse_method ''GET'' = Some MNET_HTTP_GET" "\<forall>h\<in>set ?hs. wf_header h"
    "\<forall>h\<in>set ?hs. \<not> strcaseeq (fst h) ''transfer-encoding'' \<and> \<not> strcaseeq (fst h) ''content-length''" by code_simp+
  then have "rendered ''GET'' MNET_HTTP_GET ''/api/items'' ?hs []" by (simp add: rendered_def framed_def)
  ultimately show ?thesis
    using api_server_lists_items [OF s al, of ?hs ?c "[]" sample_env] s by (auto simp: sent_since_def)
qed

end
