(* ===== verification/Example_Pages.thy ===== *)
theory Example_Pages
  imports Examples
begin

text \<open>
  The other two example programs: \<^verbatim>\<open>src/example/example_combined.c\<close>, pages and an API with a custom
  404 page, and \<^verbatim>\<open>src/example/example_http_server.c\<close>, a few pages. What the programs ask the system
  for (the time, and the network of \<open>mnet_call\<close>) is an argument of the handler.
\<close>

section \<open>The pages of the combined example\<close>

definition users :: "string option list" where
  "users = [Some ''Alice'', Some ''Bob'', Some ''Charlie'', None]"

definition link :: "string \<Rightarrow> string \<Rightarrow> string" where
  "link target text = ''<a href='' @ quoted target @ ''>'' @ text @ ''</a>''"

definition home_page :: "'w handler" where
  "home_page req =
     with_alloc (mnet_html (Some (
       ''<!doctype html>'' @
       ''<html><head><title>mnet Combined Example</title></head>'' @
       ''<body>'' @
       ''<h1>mnet Combined Example</h1>'' @
       ''<p>This server serves both HTML pages and a JSON API.</p>'' @
       ''<h2>Web Pages</h2>'' @
       ''<ul>'' @
       ''  <li>'' @ link ''/'' ''Home'' @ '' (this page)</li>'' @
       ''  <li>'' @ link ''/users'' ''Users List'' @ ''</li>'' @
       ''  <li>'' @ link ''/users/0'' ''User Details (ID 0)'' @ ''</li>'' @
       ''</ul>'' @
       ''<h2>API Endpoints</h2>'' @
       ''<ul>'' @
       ''  <li><code>GET /api/users</code> - list users</li>'' @
       ''  <li><code>GET /api/users/:id</code> - get user by ID</li>'' @
       ''  <li><code>POST /api/users</code> - create user (JSON body)</li>'' @
       ''  <li><code>GET /api/search?q=...</code> - search users</li>'' @
       ''  <li><code>GET /api/protected</code> - protected (requires header)</li>'' @
       ''  <li><code>GET /api/health</code> - health check</li>'' @
       ''</ul>'' @
       ''</body></html>'')))"

text \<open>The loop of \<open>users_page\<close>: one line per user.\<close>

fun user_lines :: "nat \<Rightarrow> nat \<Rightarrow> string option list \<Rightarrow> nat \<times> string \<Rightarrow> (nat \<times> string) option" where
  "user_lines sz i [] st = None"
| "user_lines sz i (None # us) st = Some st"
| "user_lines sz i (Some u # us) st =
     do { st1 \<leftarrow> append_out sz (''<li>'' @ link (''/users/'' @ show_nat i) u @ ''</li>'') st;
          user_lines sz (Suc i) us st1 }"

definition users_page :: "'w checked_handler" where
  "users_page req h =
     do { st1 \<leftarrow> append_out 1024 (''<!doctype html><html><head><title>Users</title></head><body>'' @ ''<h1>Users</h1><ul>'') (0, []);
          st2 \<leftarrow> user_lines 1024 0 users st1;
          st3 \<leftarrow> append_out 1024 (''</ul><p>'' @ link ''/'' ''Back home'' @ ''</p></body></html>'') st2;
          Some (with_alloc (mnet_html (Some (snd st3))) h) }"

definition user_not_found :: string where
  "user_not_found =
     ''<!doctype html><html><head><title>404</title></head><body>'' @
     ''<h1>User Not Found</h1><p>'' @ link ''/users'' ''Back to users'' @ ''</p>'' @
     ''</body></html>''"

definition user_page_text :: "int \<Rightarrow> string \<Rightarrow> string" where
  "user_page_text n name =
     ''<!doctype html><html><head><title>User '' @ show_int n @ ''</title></head><body>'' @
     ''<h1>User '' @ show_int n @ '': '' @ name @ ''</h1>'' @
     ''<p>'' @ link ''/users'' ''Back to users'' @ '' | '' @
     link (''/api/users/'' @ show_int n) ''API view'' @ ''</p>'' @
     ''</body></html>''"

definition user_detail_page :: "'w checked_handler" where
  "user_detail_page req h =
     (case mnet_request_param (Some req) (Some ''id'') of
        None \<Rightarrow> None
      | Some Freed \<Rightarrow> None
      | Some Null \<Rightarrow> Some (with_alloc (mnet_error 400 (Some ''missing id'')) h)
      | Some (Val id_str) \<Rightarrow>
          let n = atoi (c_string id_str);
              missing = (case with_alloc (mnet_html (Some user_not_found)) h of (r, h1) \<Rightarrow> (r\<lparr>r_status := 404\<rparr>, h1))
          in if \<not> c_int n then None
             else if n < 0 then Some missing
             else if nat n < length users then
               (case users ! nat n of
                  None \<Rightarrow> Some missing
                | Some name \<Rightarrow>
                    Some (with_alloc (mnet_html (Some (snprintf_out 256 (user_page_text n name)))) h))
             else None)"

section \<open>The API of the combined example\<close>

definition api_list_users :: "'w checked_handler" where
  "api_list_users req h =
     (case json_entries 512 (\<lambda>i s. Some (item_entry i s)) users of
        None \<Rightarrow> None
      | Some json \<Rightarrow> Some (with_alloc (mnet_json (Some json)) h))"

definition api_get_user :: "'w checked_handler" where
  "api_get_user req h =
     (case mnet_request_param (Some req) (Some ''id'') of
        None \<Rightarrow> None
      | Some Freed \<Rightarrow> None
      | Some Null \<Rightarrow> Some (with_alloc (mnet_error 400 (Some ''missing id'')) h)
      | Some (Val id_str) \<Rightarrow>
          let n = atoi (c_string id_str)
          in if \<not> c_int n then None
             else if n < 0 then Some (with_alloc (mnet_error 404 (Some ''user not found'')) h)
             else if nat n < length users then
               (case users ! nat n of
                  None \<Rightarrow> Some (with_alloc (mnet_error 404 (Some ''user not found'')) h)
                | Some name \<Rightarrow>
                    on_alloc (jsonf (''{'' @ quoted ''id'' @ '':%d,'' @ quoted ''name'' @ '':'' @ quoted ''%s'' @ ''}'')
                      [A_int (word_of_int n), A_str (Some name)]) h)
             else None)"

definition api_create_user :: "'w checked_handler" where
  "api_create_user req h =
     (case mnet_request_header (Some req) (Some ''Authorization'') of
        None \<Rightarrow> None
      | Some auth \<Rightarrow>
          if auth = None \<or> c_string (the auth) \<noteq> ''Bearer secret''
          then Some (with_alloc (mnet_error 401 (Some ''unauthorized'')) h)
          else
            (case mnet_request_body (Some req) of
               None \<Rightarrow> Some (with_alloc (mnet_error 400 (Some ''empty body'')) h)
             | Some body \<Rightarrow>
                 if length (c_string body) = 0 then Some (with_alloc (mnet_error 400 (Some ''empty body'')) h)
                 else on_alloc (jsonf (''{'' @ quoted ''created'' @ '':true,'' @ quoted ''name'' @ '':'' @ quoted ''%s'' @ ''}'')
                        [A_str (Some (c_string body))]) h))"

definition api_search :: "'w checked_handler" where
  "api_search req h =
     (let missing = Some (with_alloc (mnet_error 400 (Some (''missing '' @ [CHR 0x27] @ ''q'' @ [CHR 0x27] @ '' parameter''))) h)
      in case mnet_request_query (Some req) (Some ''q'') of
           None \<Rightarrow> None
         | Some None \<Rightarrow> missing
         | Some (Some q) \<Rightarrow>
             if length (c_string q) = 0 then missing
             else
               (case json_entries 512 (\<lambda>i s. if strstr s (c_string q) \<noteq> None then Some (item_entry i s) else None) users of
                  None \<Rightarrow> None
                | Some json \<Rightarrow> Some (with_alloc (mnet_json (Some json)) h)))"

definition api_protected :: "'w checked_handler" where
  "api_protected req h =
     (case mnet_request_header (Some req) (Some ''Authorization'') of
        None \<Rightarrow> None
      | Some None \<Rightarrow> Some (with_alloc (mnet_error 401 (Some ''missing Authorization header'')) h)
      | Some (Some auth) \<Rightarrow>
          on_alloc (jsonf (''{'' @ quoted ''message'' @ '':'' @ quoted ''access granted'' @ '','' @ quoted ''auth'' @ '':'' @ quoted ''%s'' @ ''}'')
            [A_str (Some (c_string auth))]) h)"

definition api_health :: "64 word \<Rightarrow> 'w checked_handler" where
  "api_health now req h =
     on_alloc (jsonf (''{'' @ quoted ''status'' @ '':'' @ quoted ''ok'' @ '','' @ quoted ''timestamp'' @ '':%ld,'' @
         quoted ''users_count'' @ '':%d}'')
       [A_long now, A_int 3]) h"

definition combined_api_echo :: "'w checked_handler" where
  "combined_api_echo req h =
     (case (mnet_request_header (Some req) (Some ''Content-Type''), mnet_request_header (Some req) (Some ''User-Agent'')) of
        (Some ct, Some ua) \<Rightarrow>
          on_alloc (jsonf (''{'' @ quoted ''echo'' @ '':{'' @ quoted ''body'' @ '':'' @ quoted ''%s'' @ '','' @
              quoted ''content_type'' @ '':'' @ quoted ''%s'' @ '','' @ quoted ''user_agent'' @ '':'' @ quoted ''%s'' @ ''}}'')
            [A_str (Some (case mnet_request_body (Some req) of Some b \<Rightarrow> c_string b | None \<Rightarrow> ''(empty)'')),
             A_str (Some (case ct of Some v \<Rightarrow> c_string v | None \<Rightarrow> ''(none)'')),
             A_str (Some (case ua of Some v \<Rightarrow> c_string v | None \<Rightarrow> ''(none)''))]) h
      | _ \<Rightarrow> None)"

text \<open>\<open>api_call\<close>: the sockets and requests of \<open>mnet_call\<close> are the last two results.\<close>

definition api_call :: "client_net \<Rightarrow> mnet_request \<Rightarrow> 'w host \<Rightarrow> ((mnet_response \<times> 'w host) \<times> bytes list \<times> int list) option" where
  "api_call net req h =
     (let missing = (with_alloc (mnet_error 400 (Some (''missing '' @ [CHR 0x27] @ ''url'' @ [CHR 0x27] @ '' query parameter''))) h)
      in case mnet_request_query (Some req) (Some ''url'') of
           None \<Rightarrow> None
         | Some None \<Rightarrow> Some (missing, [], [])
         | Some (Some url) \<Rightarrow>
             if length (c_string url) = 0 then Some (missing, [], [])
             else
               (case mnet_call net (Some (c_string url)) (h_alloc h) of
                  None \<Rightarrow> None
                | Some (None, sent, closed, al) \<Rightarrow>
                    Some (with_alloc (mnet_error 502 (Some ''failed to call URL'')) (h\<lparr>h_alloc := al\<rparr>), sent, closed)
                | Some (Some result, sent, closed, al) \<Rightarrow>
                    Some (with_alloc (mnet_json (Some (c_string result))) (h\<lparr>h_alloc := al\<rparr>), sent, closed)))"

definition custom_404 :: "'w handler" where
  "custom_404 req =
     with_alloc (mnet_html (Some (
       ''<!doctype html><html><head><title>404</title></head><body>'' @
       ''<h1>404 - Not Found</h1>'' @
       ''<p>The page you requested doesn'' @ [CHR 0x27] @ ''t exist.</p>'' @
       ''<p>'' @ link ''/'' ''Go home'' @ ''</p>'' @
       ''</body></html>'')))"

section \<open>The pages of the HTTP server\<close>

definition home :: "'w handler" where
  "home req =
     with_alloc (mnet_html (Some (
       ''<!doctype html>'' @
       ''<html>'' @
       ''<head><title>mnet HTTP Server</title></head>'' @
       ''<body>'' @
       ''<h1>Welcome to mnet!</h1>'' @
       ''<p>This is a basic HTTP server example.</p>'' @
       ''<ul>'' @
       ''  <li>'' @ link ''/about'' ''About'' @ ''</li>'' @
       ''  <li>'' @ link ''/contact'' ''Contact'' @ ''</li>'' @
       ''  <li>'' @ link ''/time'' ''Current Time'' @ ''</li>'' @
       ''</ul>'' @
       ''</body></html>'')))"

definition about :: "'w handler" where
  "about req =
     with_alloc (mnet_html (Some (
       ''<!doctype html>'' @
       ''<html><head><title>About</title></head>'' @
       ''<body>'' @
       ''<h1>About mnet</h1>'' @
       ''<p>mnet is a simple, ergonomic web framework for C.</p>'' @
       ''<p>'' @ link ''/'' ''Back home'' @ ''</p>'' @
       ''</body></html>'')))"

definition contact :: "'w handler" where
  "contact req =
     with_alloc (mnet_html (Some (
       ''<!doctype html>'' @
       ''<html><head><title>Contact</title></head>'' @
       ''<body>'' @
       ''<h1>Contact</h1>'' @
       ''<p>Email: example@example.com</p>'' @
       ''<p>'' @ link ''/'' ''Back home'' @ ''</p>'' @
       ''</body></html>'')))"

text \<open>\<open>time_str\<close> is what \<open>strftime\<close> leaves in the buffer of 64 bytes.\<close>

definition time_page_text :: "string \<Rightarrow> string" where
  "time_page_text time_str =
     ''<!doctype html>'' @
     ''<html><head><title>Current Time</title></head>'' @
     ''<body>'' @
     ''<h1>Current Time</h1>'' @
     ''<p>'' @ time_str @ ''</p>'' @
     ''<p>'' @ link ''/'' ''Back home'' @ ''</p>'' @
     ''</body></html>''"

definition current_time :: "string \<Rightarrow> 'w handler" where
  "current_time time_str req = with_alloc (mnet_html (Some (snprintf_out 256 (time_page_text time_str))))"

definition not_found :: "'w handler" where
  "not_found req =
     with_alloc (mnet_html (Some (
       ''<!doctype html>'' @
       ''<html><head><title>404</title></head>'' @
       ''<body>'' @
       ''<h1>404 - Page Not Found</h1>'' @
       ''<p>The page you'' @ [CHR 0x27] @ ''re looking for doesn'' @ [CHR 0x27] @ ''t exist.</p>'' @
       ''<p>'' @ link ''/'' ''Go home'' @ ''</p>'' @
       ''</body></html>'')))"

section \<open>The two applications\<close>

text \<open>\<open>main\<close> of each program, up to the call of \<open>mnet_run\<close>.\<close>

definition combined_routes :: "64 word \<Rightarrow> client_net \<Rightarrow> 'w registration list" where
  "combined_routes now net =
     [(MNET_HTTP_GET, ''/'', home_page),
      (MNET_HTTP_GET, ''/users'', route_handler users_page),
      (MNET_HTTP_GET, ''/users/:id'', route_handler user_detail_page),
      (MNET_HTTP_GET, ''/api/users'', route_handler api_list_users),
      (MNET_HTTP_GET, ''/api/users/:id'', route_handler api_get_user),
      (MNET_HTTP_POST, ''/api/users'', route_handler api_create_user),
      (MNET_HTTP_GET, ''/api/search'', route_handler api_search),
      (MNET_HTTP_GET, ''/api/protected'', route_handler api_protected),
      (MNET_HTTP_GET, ''/api/health'', route_handler (api_health now)),
      (MNET_HTTP_POST, ''/api/echo'', route_handler combined_api_echo),
      (MNET_HTTP_GET, ''/api/call'', route_handler (\<lambda>req h. map_option fst (api_call net req h)))]"

definition combined_setup :: "64 word \<Rightarrow> client_net \<Rightarrow> 'w host \<Rightarrow> 'w mnet_app option \<times> 'w host" where
  "combined_setup now net h =
     (case example_create h of
        (None, h1) \<Rightarrow> (None, h1)
      | (app, h1) \<Rightarrow>
          setup_routes (combined_routes now net)
            (mnet_set_max_body_size 1048576 (mnet_set_keep_alive_timeout 30 (mnet_set_max_connections 100
               (mnet_set_workers 4 (mnet_set_not_found_handler (Some custom_404) app)))), h1))"

definition http_setup :: "string \<Rightarrow> 'w host \<Rightarrow> 'w mnet_app option \<times> 'w host" where
  "http_setup time_str h =
     (case example_create h of
        (None, h1) \<Rightarrow> (None, h1)
      | (app, h1) \<Rightarrow>
          setup_routes
            [(MNET_HTTP_GET, ''/'', home), (MNET_HTTP_GET, ''/about'', about),
             (MNET_HTTP_GET, ''/contact'', contact), (MNET_HTTP_GET, ''/time'', current_time time_str)]
            (mnet_set_not_found_handler (Some not_found) app, h1))"

section \<open>What the handlers answer\<close>

lemma user_pages_fit: "\<forall>(i, u)\<in>set (enumerate 0 [''Alice'', ''Bob'', ''Charlie'']). length (user_page_text (int i) u) < 256"
  by code_simp

lemma time_page_fits: "length s < 64 \<Longrightarrow> snprintf_out 256 (time_page_text s) = time_page_text s"
  by (simp add: snprintf_out_def time_page_text_def link_def quoted_def)

text \<open>The pages for paths that do not exist are sent with status 200, not 404.\<close>

lemma not_found_pages_say_ok:
  "h_alloc h = [] \<Longrightarrow> r_status (fst (custom_404 req h)) = 200 \<and> r_status (fst (not_found req h)) = 200"
  by (simp add: custom_404_def not_found_def with_alloc_def mnet_html_def text_response_def)

text \<open>
  Only the bearer of the secret creates users. The handler of \<open>POST /api/users\<close> answers 200 exactly
  when the first \<open>Authorization\<close> header of the request, in any spelling of its name, has the value
  \<open>Bearer secret\<close> and the body is not empty, and then the JSON it answers reads back as the body;
  without the header it answers 401 and nothing else.
\<close>

theorem api_create_user_guarded:
  assumes "wf_request req" "h_alloc h = []"
  shows "\<exists>r. api_create_user req h = Some (r, h) \<and>
    (let auth = first_match strcaseeq (pairs_of (rq_header_names req) (rq_header_values req) (rq_header_count req)) ''Authorization'';
         body = (case rq_body req of None \<Rightarrow> [] | Some b \<Rightarrow> c_string b)
     in if map_option c_string auth \<noteq> Some ''Bearer secret'' then r_status r = 401
        else if body = [] then r_status r = 400
        else \<exists>t. r = json_ok (''{'' @ quoted ''created'' @ '':true,'' @ quoted ''name'' @ '':'' @ DQUOTE # t) \<and>
          json_read t = Some (body, ''}''))"
proof -
  let ?auth = "first_match strcaseeq (pairs_of (rq_header_names req) (rq_header_values req) (rq_header_count req)) ''Authorization''"
  let ?pre = "''{'' @ quoted ''created'' @ '':true,'' @ quoted ''name'' @ '':'' @ [DQUOTE]"
  have a: "mnet_request_header (Some req) (Some ''Authorization'') = Some ?auth"
    using assms(1) by (simp add: mnet_request_header_def wf_request_def scan_array_pairs)
  have "on_alloc (jsonf (''{'' @ quoted ''created'' @ '':true,'' @ quoted ''name'' @ '':'' @ quoted ''%s'' @ ''}'') [A_str (Some b)]) h =
      Some (json_ok (?pre @ json_esc_str b @ DQUOTE # ''}''), h)" for b
  proof -
    let ?ps = "lit ?pre @ [P_str (Some b)] @ lit (DQUOTE # ''}'')"
    have "\<forall>p\<in>set ?ps. piece_ok (\<lambda>spec d. []) p" by (simp add: quoted_def)
    from jsonf_pieces [OF this refl refl assms(2)] show ?thesis by (simp add: quoted_def string_arg_def)
  qed
  note j = this
  show ?thesis
  proof (cases "map_option c_string ?auth = Some ''Bearer secret''")
    case False
    then show ?thesis
      unfolding api_create_user_def a
      by (cases ?auth) (simp_all add: builders_without_failure [OF assms(2)])
  next
    case True
    show ?thesis
    proof (cases "case rq_body req of None \<Rightarrow> [] | Some b \<Rightarrow> c_string b")
      case Nil
      with True show ?thesis
        unfolding api_create_user_def a
        by (auto simp: builders_without_failure [OF assms(2)] mnet_request_body_def split: option.splits)
    next
      case (Cons x xs)
      then obtain b where b: "rq_body req = Some b" "c_string b \<noteq> []" by (auto split: option.splits)
      from True b have "api_create_user req h = Some (json_ok (?pre @ json_esc_str (c_string b) @ DQUOTE # ''}''), h)"
        using j [of "c_string b"] unfolding api_create_user_def a by (auto simp: mnet_request_body_def)
      with True b show ?thesis
        using json_read_str [of "c_string b" "''}''"] by (auto simp: Let_def)
    qed
  qed
qed

theorem api_create_user_guarded_witness:
  "\<exists>r. api_create_user sample_request sample_host = Some (r, sample_host) \<and> r_status r = 401"
proof -
  have "wf_request sample_request" by (simp add: wf_request_def arrays_ok_def sample_request_def)
  moreover have "h_alloc sample_host = []" by (simp add: sample_host_def)
  moreover have "first_match strcaseeq (pairs_of (rq_header_names sample_request) (rq_header_values sample_request)
      (rq_header_count sample_request)) ''Authorization'' = None" by code_simp
  ultimately show ?thesis using api_create_user_guarded [of sample_request sample_host] by (auto simp: Let_def)
qed

text \<open>The pages and the API for one user have the flaw of \<open>get_item\<close>: a number above 3 leaves the array.\<close>

lemma users_out_of_range:
  assumes "mnet_request_param (Some req) (Some ''id'') = Some (Val v)" "3 < atoi (c_string v)"
  shows "user_detail_page req h = None" "api_get_user req h = None"
  using assms by (auto simp: user_detail_page_def api_get_user_def Let_def users_def)

text \<open>The combined example has more routes than the table starts with, and registers them all, in order.\<close>

lemma combined_setup_routes:
  assumes "h_alloc h = []"
  shows "\<exists>a. combined_setup now net h = (Some a, h) \<and> wf_app a \<and> registered a = map route_for (combined_routes now net) \<and>
    settings_of a = (30, 30, 1048576, None, 4)"
proof -
  obtain a where a: "example_create h = (Some a, h)" "wf_app a" "registered a = []" "settings_of a = (30, 5, 0, None, 4)"
    using example_create_fresh [OF assms] by blast
  let ?b = "the (mnet_set_max_body_size 1048576 (mnet_set_keep_alive_timeout 30 (mnet_set_max_connections 100
    (mnet_set_workers 4 (mnet_set_not_found_handler (Some custom_404) (Some a))))))"
  have "wf_app ?b" "registered ?b = []" "settings_of ?b = (30, 30, 1048576, None, 4)"
    using a by (simp_all add: setter_defs wf_app_def registered_def settings_of_def)
  from setup_routes_registers [OF this(1,2) assms, of "combined_routes now net"] this(3) a(1) show ?thesis
    by (auto simp: combined_setup_def setter_defs)
qed

end
