(* ===== verification/Example_Main.thy ===== *)
theory Example_Main
  imports Example_Pages
begin

text \<open>
  The example programs from start to exit: \<open>example_serve\<close> of \<^verbatim>\<open>src/example/example_common.h\<close> and the
  \<open>main\<close> functions of \<^verbatim>\<open>src/example/\<close>. A program serves until it is stopped, so its exits are a relation:
  what it printed, its exit value, the blocks and the descriptors it released.
\<close>

section \<open>Definitions\<close>

record program_exit =
  ex_output :: string
  ex_value :: int
  ex_freed :: "block list"
  ex_sockets :: "int list"

definition example_text :: "string option \<Rightarrow> string" where
  "example_text banner = (case banner of None \<Rightarrow> [] | Some b \<Rightarrow> b) @ ''Press Ctrl+C to stop'' @ [LF]"

inductive example_serve ::
  "environment \<Rightarrow> sys \<Rightarrow> 'w mnet_app option \<Rightarrow> nat \<Rightarrow> string option \<Rightarrow> 'w host \<Rightarrow> program_exit \<Rightarrow> bool" where
  "mnet_run env sy app port h = Some r \<Longrightarrow> run_returns r rc app' sockets \<Longrightarrow>
   example_serve env sy app port banner h
     \<lparr>ex_output = example_text banner, ex_value = rc, ex_freed = mnet_destroy app', ex_sockets = sockets\<rparr>"

text \<open>\<open>if (app == NULL) return 1\<close>, and the call of \<open>example_serve\<close> at the end of \<open>main\<close>.\<close>

inductive example_main ::
  "environment \<Rightarrow> sys \<Rightarrow> 'w mnet_app option \<times> 'w host \<Rightarrow> string \<Rightarrow> program_exit \<Rightarrow> bool" where
  no_app: "example_main env sy (None, h) banner \<lparr>ex_output = [], ex_value = 1, ex_freed = [], ex_sockets = []\<rparr>"
| serve: "example_serve env sy (Some app) 8080 (Some banner) h x \<Longrightarrow> example_main env sy (Some app, h) banner x"

inductive_simps example_serve_simps: "example_serve env sy app port banner h x"
inductive_simps example_main_simps: "example_main env sy (app, h) banner x"

definition text_lines :: "string list \<Rightarrow> string" where
  "text_lines ls = concat (map (\<lambda>l. l @ [LF]) ls)"

definition api_banner :: string where
  "api_banner = text_lines
     [''Starting API server on http://localhost:8080'',
      ''Endpoints:'',
      ''  GET  /api/items        - list all items'',
      ''  GET  /api/items/:id    - get item by ID'',
      ''  POST /api/items        - create item'',
      ''  GET  /api/search?q=    - search items'',
      ''  POST /api/echo         - echo back request'',
      ''  GET  /api/health       - health check'']"

definition http_banner :: string where
  "http_banner = text_lines [''Starting HTTP server on http://localhost:8080'']"

definition combined_banner :: string where
  "combined_banner = text_lines
     [''Starting combined server on http://localhost:8080'',
      '''',
      ''Web pages:'',
      ''  GET  /                    - Home page'',
      ''  GET  /users               - Users list (HTML)'',
      ''  GET  /users/:id           - User detail (HTML)'',
      '''',
      ''API endpoints:'',
      ''  GET  /api/users           - List all users'',
      ''  GET  /api/users/:id       - Get user by ID'',
      ''  POST /api/users           - Create user (Bearer secret)'',
      ''  GET  /api/search?q=       - Search users'',
      ''  GET  /api/protected       - Requires Authorization header'',
      ''  GET  /api/health          - Health check'',
      ''  POST /api/echo            - Echo request details'']"

definition api_main :: "environment \<Rightarrow> sys \<Rightarrow> 'w host \<Rightarrow> program_exit \<Rightarrow> bool" where
  "api_main env sy h = example_main env sy (api_setup h) api_banner"

definition http_main :: "environment \<Rightarrow> sys \<Rightarrow> string \<Rightarrow> 'w host \<Rightarrow> program_exit \<Rightarrow> bool" where
  "http_main env sy time_str h = example_main env sy (http_setup time_str h) http_banner"

definition combined_main :: "environment \<Rightarrow> sys \<Rightarrow> 64 word \<Rightarrow> client_net \<Rightarrow> 'w host \<Rightarrow> program_exit \<Rightarrow> bool" where
  "combined_main env sy now net h = example_main env sy (combined_setup now net h) combined_banner"

section \<open>How a program ends\<close>

text \<open>
  What \<open>mnet_run\<close> with several workers comes to when memory does not run out: it fails when no address
  works or no worker starts, and otherwise it is a pool.
\<close>

lemma start_workers_none: "start_workers create 0 n = 0 \<longleftrightarrow> n = 0 \<or> \<not> create 0"
  using start_workers_le [of 1 create "n - 1"] by (cases n) auto

lemma run_pool_outcome:
  fixes a :: "'w mnet_app" and sy :: sys
  assumes "1 < app_workers a" "h_alloc h = []"
  defines "n \<equiv> start_workers (sys_thread_create sy) 0 (nat (app_workers a))"
  shows "\<exists>h'. run_pool sy a server closed h =
    (if sys_thread_create sy 0
     then Run_pool (a\<lparr>app_workers := int n\<rparr>) h' server (pool_start (app_max_connections a) n) closed
     else Run_error (Some (a\<lparr>app_workers := int n\<rparr>)) h' (closed @ mnet_close (Some server)))"
proof -
  have z: "n = 0 \<longleftrightarrow> \<not> sys_thread_create sy 0" using assms(1) start_workers_none by (auto simp: n_def)
  have "\<exists>h'. start_pool sy a server closed h1 =
    (if n = 0 then Run_error (Some (a\<lparr>app_workers := int n\<rparr>)) h' (closed @ mnet_close (Some server))
     else Run_pool (a\<lparr>app_workers := int n\<rparr>) h' server (pool_start (app_max_connections a) n) closed)" for h1 :: "'w host"
  proof (cases "n < nat (app_workers a)")
    case True
    then show ?thesis unfolding start_pool_def Let_def n_def [symmetric] serve_with_def by simp
  next
    case False
    then have "int n = app_workers a" using start_workers_le [of 0 "sys_thread_create sy" "nat (app_workers a)"] assms(1)
      by (simp add: n_def)
    with False assms(1) show ?thesis unfolding start_pool_def Let_def n_def [symmetric] serve_with_def by simp
  qed
  from this [of "h\<lparr>h_alloc := []\<rparr>"] z assms(2) show ?thesis
    by (cases "sys_thread_create sy 0") (simp_all add: run_pool_def)
qed

lemma mnet_run_outcome:
  assumes "1 < app_workers app" "h_alloc h = []" "port < 65536" "sys_resolve sy (show_nat port) = Inr es"
  shows "\<exists>app' h' server n closed. registered app' = registered app \<and> closed @ mnet_close server = created ae_socket usable es \<and>
    mnet_run env sy (Some app) port h =
      Some (if (\<exists>e\<in>set es. usable e) \<and> sys_thread_create sy 0
            then Run_pool app' h' (the server) (pool_start (app_max_connections app') n) closed
            else Run_error (Some app') h' (created ae_socket usable es)) \<and>
    (server = None \<longleftrightarrow> (\<forall>e\<in>set es. \<not> usable e))"
proof -
  obtain server closed where w: "listen_loop es [] = (server, closed)" by fastforce
  note W = listening.walk_accounts [OF w] listening.walk_none [of es "[]", unfolded w]
  let ?a = "app\<lparr>app_port := int port, app_running := True, app_active_connections := 0\<rparr>"
  have l: "mnet_tcp_listen (sys_resolve sy) port 128 h = (server, closed, h)"
    using assms(3,4) port_string_fits [OF assms(3)] w by (simp add: mnet_tcp_listen_def)
  show ?thesis
  proof (cases server)
    case None
    with l W show ?thesis by (auto simp: mnet_run_def Let_def mnet_close_def registered_def)
  next
    case (Some fd)
    let ?n = "start_workers (sys_thread_create sy) 0 (nat (app_workers app))"
    let ?h = "mnet_app_log (Some ?a) 2 (''listening on port '' @ show_nat port) h"
    have "h_alloc ?h = []" using assms(2) by simp
    then obtain h' where "run_pool sy ?a fd closed ?h =
      (if sys_thread_create sy 0
       then Run_pool (?a\<lparr>app_workers := int ?n\<rparr>) h' fd (pool_start (app_max_connections ?a) ?n) closed
       else Run_error (Some (?a\<lparr>app_workers := int ?n\<rparr>)) h' (closed @ mnet_close (Some fd)))"
      using run_pool_outcome [of ?a ?h sy fd closed] assms(1) by auto
    with Some l W assms(1) show ?thesis
      by (intro exI [of _ "?a\<lparr>app_workers := int ?n\<rparr>"] exI [of _ h'] exI [of _ server] exI [of _ ?n] exI [of _ closed])
        (simp add: mnet_run_def Let_def registered_def)
  qed
qed

lemma mnet_destroy_registered: "registered a' = registered a \<Longrightarrow> mnet_destroy (Some a') = mnet_destroy (Some a)"
  by (simp add: mnet_destroy_def)

definition exit_of :: "string \<Rightarrow> sys \<Rightarrow> addr_entry list \<Rightarrow> block list \<Rightarrow> program_exit" where
  "exit_of banner sy es blocks =
     \<lparr>ex_output = banner @ ''Press Ctrl+C to stop'' @ [LF],
      ex_value = (if (\<exists>e\<in>set es. usable e) \<and> sys_thread_create sy 0 then 0 else -1),
      ex_freed = blocks, ex_sockets = created ae_socket usable es\<rparr>"

lemma example_main_exits:
  assumes "1 < app_workers app" "h_alloc h = []" "sys_resolve sy (show_nat 8080) = Inr es"
  shows "example_main env sy (Some app, h) banner x \<longleftrightarrow> x = exit_of banner sy es (mnet_destroy (Some app))"
proof -
  have p: "(8080 :: nat) < 65536" by simp
  obtain app' h' server n closed where R: "registered app' = registered app"
    "closed @ mnet_close server = created ae_socket usable es" "server = None \<longleftrightarrow> (\<forall>e\<in>set es. \<not> usable e)"
    "mnet_run env sy (Some app) 8080 h =
      Some (if (\<exists>e\<in>set es. usable e) \<and> sys_thread_create sy 0
            then Run_pool app' h' (the server) (pool_start (app_max_connections app') n) closed
            else Run_error (Some app') h' (created ae_socket usable es))"
    using mnet_run_outcome [OF assms(1,2) p assms(3), of env] by blast
  have "mnet_destroy (Some app') = mnet_destroy (Some app)" by (rule mnet_destroy_registered [OF R(1)])
  then show ?thesis
    using R(2-4) by (auto simp: example_main_simps example_serve_simps exit_of_def example_text_def run_returns_simps(1) pool_returns)
qed

lemma http_setup_routes:
  assumes "h_alloc h = []"
  shows "\<exists>a. http_setup time_str h = (Some a, h) \<and> settings_of a = (30, 5, 0, None, 4) \<and>
    registered a = map route_for [(MNET_HTTP_GET, ''/'', home), (MNET_HTTP_GET, ''/about'', about),
      (MNET_HTTP_GET, ''/contact'', contact), (MNET_HTTP_GET, ''/time'', current_time time_str)]"
proof -
  obtain a where a: "example_create h = (Some a, h)" "wf_app a" "registered a = []" "settings_of a = (30, 5, 0, None, 4)"
    using example_create_fresh [OF assms] by blast
  let ?b = "the (mnet_set_not_found_handler (Some not_found) (Some a))"
  have "wf_app ?b" "registered ?b = []" "settings_of ?b = (30, 5, 0, None, 4)"
    using a by (simp_all add: setter_defs wf_app_def registered_def settings_of_def)
  from setup_routes_registers [OF this(1,2) assms] this(3) a(1) show ?thesis
    by (fastforce simp: http_setup_def setter_defs)
qed

text \<open>The blocks of a table of routes: the names of the parameters of each, then the table.\<close>

definition route_blocks :: "string \<Rightarrow> block list" where
  "route_blocks p = (if pattern_names 0 p = [] then [] else map Name (pattern_names 0 p) @ [Name_array])"

lemma destroy_blocks:
  "registered a = map route_for regs \<Longrightarrow>
   mnet_destroy (Some a) = concat (map (\<lambda>(m, p, f). route_blocks p) regs) @ [Route_array, App_struct]"
  by (auto simp: mnet_destroy_def free_route_def route_for_def new_route_def route_blocks_def comp_def
      intro!: arg_cong [where f = concat])

lemma route_blocks_simps:
  "\<forall>p\<in>{''/api/items/:id'', ''/users/:id'', ''/api/users/:id''}. route_blocks p = [Name ''id'', Name_array]"
  "\<forall>p\<in>{''/'', ''/about'', ''/contact'', ''/time'', ''/users'', ''/api/items'', ''/api/search'', ''/api/echo'',
     ''/api/health'', ''/api/users'', ''/api/protected'', ''/api/call''}. route_blocks p = []"
  by code_simp+



end
