(* ===== verification/Example_Search.thy ===== *)
theory Example_Search
  imports Examples
begin

text \<open>
  A query to the example server, from the text a user searches for to the bytes that come back: the
  percent-encoding of a query string, the parser, the router, the accessor and the handler
  \<open>search_items\<close> of \<^verbatim>\<open>src/example/example_api_server.c\<close> together.
\<close>

section \<open>The route\<close>

definition found :: "string \<Rightarrow> string" where
  "found w = json_list [item_entry i s. (i, s) \<leftarrow> enumerate 0 item_names, sublist w s]"

definition search_target :: "(char \<Rightarrow> bool) \<Rightarrow> string \<Rightarrow> string" where
  "search_target plain w = ''/api/search?'' @ encode_query plain [(''q'', w)]"

definition search_route :: "'w mnet_route" where
  "search_route = route_for (MNET_HTTP_GET, ''/api/search'', route_handler search_items)"

lemma length_found: "length (found w) < 512"
proof -
  have "\<forall>(i, s)\<in>set (enumerate 0 item_names). length (item_entry i s) \<le> 100" by code_simp
  then have e: "\<forall>t\<in>set [item_entry i s. (i, s) \<leftarrow> enumerate 0 item_names, sublist w s]. length t \<le> 100" by auto
  have "length [item_entry i s. (i, s) \<leftarrow> enumerate 0 item_names, sublist w s] \<le> 3"
    by (simp add: item_names_def)
  with length_comma_list [OF e] show ?thesis by (simp add: found_def json_list_def)
qed

lemma search_route_resolved:
  assumes "api_setup h0 = (Some app, h)" "h_alloc h0 = []"
  shows "resolve (registered app) MNET_HTTP_GET ''/api/search'' = Some search_route"
proof -
  have "route_values ''api/items'' ''api/search'' = None" "route_values ''api/items/:id'' ''api/search'' = None"
    "route_values ''api/search'' ''api/search'' = Some []" by code_simp+
  then show ?thesis
    unfolding api_setup_facts(1) [OF assms]
    by (simp add: resolve_def api_routes_def search_route_def serves_def route_result_def route_for_def new_route_def)
qed

lemma search_route_call:
  assumes "api_setup h0 = (Some app, h)" "h_alloc h0 = []" "wf_request req" "h_alloc h1 = []"
  shows "call_handler app search_route req h1 =
    (case map_of (pairs_of (rq_query_names req) (rq_query_values req) (rq_query_count req)) ''q'' of
       None \<Rightarrow> with_alloc (mnet_error 400 (Some missing_q)) h1
     | Some w \<Rightarrow> if c_string w = [] then with_alloc (mnet_error 400 (Some missing_q)) h1 else (json_ok (found (c_string w)), h1))"
proof -
  have "mnet_request_query (Some req) (Some ''q'') =
      Some (map_of (pairs_of (rq_query_names req) (rq_query_values req) (rq_query_count req)) ''q'')"
    using assms(3) by (simp add: wf_request_def mnet_request_query_def scan_array_pairs first_match_map_of)
  from search_items_answer [OF this assms(4)] show ?thesis
    using api_setup_facts(3) [OF assms(1,2)]
    by (simp add: call_handler_def settings_of_def search_route_def route_for_def new_route_def route_handler_def found_def
        split: option.splits)
qed

lemma missing_q_sendable:
  assumes "h_alloc h = []"
  shows "\<exists>r. with_alloc (mnet_error 400 (Some missing_q)) h = (r, h) \<and> r_status r \<noteq> 0 \<and> (\<forall>keep. sendable r keep)"
proof -
  have "mnet_header_value_valid (Some ''text/plain; charset=utf-8'')" by code_simp
  then show ?thesis
    using assms by (auto simp: builders_without_failure content_type_of_def wf_response_def c_int_def missing_q_def
        intro!: sendable_short)
qed

lemma search_route_answers:
  assumes "api_setup h0 = (Some app, h)" "h_alloc h0 = []"
  shows "answers app search_route"
proof -
  have "sendable (json_ok (found w)) keep" for w keep
    using length_found [of w] by (intro json_ok_sendable) simp
  then show ?thesis
    unfolding answers_def using search_route_call [OF assms] missing_q_sendable
    by (fastforce simp: json_ok_def split: option.splits)
qed

section \<open>The query\<close>

lemma search_query:
  assumes "query_safe plain" "NUL \<notin> set w" "length w \<le> 341"
  shows "path_part (search_target plain w) = ''/api/search''" "query_of (search_target plain w) = [(''q'', w)]"
proof -
  have "path_part (''/api/search?'' @ t) = ''/api/search''" for t
    by (simp add: path_part_def)
  then show "path_part (search_target plain w) = ''/api/search''" by (simp add: search_target_def)
  have "strchr (''/api/search?'' @ t) CHR ''?'' = Some 11" for t by simp
  then show "query_of (search_target plain w) = [(''q'', w)]"
    using query_encode_pairs [OF assms(1), of "[(''q'', w)]"] assms(2,3)
    by (simp add: query_of_def search_target_def Let_def)
qed

text \<open>
  C8. A search on the example server, from the query to the answer. Whatever text a client searches
  for (not empty, at most 341 bytes, no zero byte; with \<open>&\<close>, \<open>=\<close>, spaces, quotes, percent signs or line
  ends in it), if it sends \<open>GET /api/search\<close> with that text percent-encoded as the parameter \<open>q\<close>, with
  any headers and in pieces of any size within half a minute, it gets one response with status 200
  whose body is the JSON array of exactly the items whose names contain the text, each with its
  number, in their order; and the state of the program is unchanged.
\<close>

theorem api_server_searches:
  assumes "api_setup h0 = (Some app, h)" "h_alloc h0 = []"
    and "query_safe plain" "w \<noteq> []" "NUL \<notin> set w" "length w \<le> 341"
    and "rendered ''GET'' MNET_HTTP_GET (search_target plain w) hs []" "\<not> persistent hs"
    and "length (block ''GET'' (search_target plain w) hs @ CRLF2) \<le> 8191"
    and "stream c = request_text ''GET'' (search_target plain w) hs [] @ rest" "data_only (c_inbox c)"
    and "total_delay (c_inbox c) < 30000"
  shows "\<exists>c' h' fr. mnet_handle_client env app c h = Some (c', h', fr) \<and> h_world h' = h_world h0 \<and>
    sent_since c c' = message (response_lines (json_ok (found w)) False) (found w)"
proof -
  note Q = search_query [OF assms(3,5,6)] and F = api_setup_facts [OF assms(1,2)]
  have al: "h_alloc h = []" using F(4) assms(2) by simp
  have "call_handler app search_route req h = (json_ok (found w), h)"
    if "carries search_route ''GET'' (search_target plain w) hs [] req" for req
    using search_route_call [OF assms(1,2) _ al, of req] that assms(4,5) Q(2) by (simp add: carries_def)
  from api_get_json [OF assms(1,2) _ search_route_answers [OF assms(1,2)] this assms(7-12), of env]
    search_route_resolved [OF assms(1,2)] Q(1) show ?thesis by simp
qed

theorem api_server_searches_witness:
  "\<exists>app h c' h' fr. api_setup sample_host = (Some app, h) \<and> mnet_handle_client sample_env app
      \<lparr>c_clock = 0, c_inbox = [Data 10 ''GET /api/search?q=m%2'', Data 20 (''0T HTTP/1.1'' @ CRLF @ ''Host: h'' @ CRLF2)], c_sent = []\<rparr>
      h = Some (c', h', fr) \<and>
    concat (c_sent c') = message (response_lines (json_ok (found ''m T'')) False) (found ''m T'') \<and>
    found ''m T'' = json_list [item_entry 1 ''Item Two'', item_entry 2 ''Item Three'']"
proof -
  let ?c = "\<lparr>c_clock = 0, c_inbox = [Data 10 ''GET /api/search?q=m%2'', Data 20 (''0T HTTP/1.1'' @ CRLF @ ''Host: h'' @ CRLF2)], c_sent = []\<rparr>"
  let ?hs = "[(''Host'', ''h'')]" and ?plain = "\<lambda>c. c \<in> set ''qmT''"
  have al: "h_alloc sample_host = []" by (simp add: sample_host_def)
  obtain app h where s: "api_setup sample_host = (Some app, h)" using api_setup_done [OF al] by blast
  have t: "search_target ?plain ''m T'' = ''/api/search?q=m%20T''" "found ''m T'' = json_list [item_entry 1 ''Item Two'', item_entry 2 ''Item Three'']"
    by code_simp+
  have "stream ?c = request_text ''GET'' ''/api/search?q=m%20T'' ?hs [] @ []" "\<not> persistent ?hs" "total_delay (c_inbox ?c) = 30"
    "data_only (c_inbox ?c)" "length (block ''GET'' ''/api/search?q=m%20T'' ?hs @ CRLF2) \<le> 8191" by code_simp+
  moreover have "wf_target ''/api/search?q=m%20T''" "mnet_parse_method ''GET'' = Some MNET_HTTP_GET" "\<forall>h\<in>set ?hs. wf_header h"
    "\<forall>h\<in>set ?hs. \<not> strcaseeq (fst h) ''transfer-encoding'' \<and> \<not> strcaseeq (fst h) ''content-length''" by code_simp+
  then have "rendered ''GET'' MNET_HTTP_GET ''/api/search?q=m%20T'' ?hs []" by (simp add: rendered_def framed_def)
  moreover have "query_safe ?plain" by (simp add: query_safe_def)
  ultimately show ?thesis
    using api_server_searches [OF s al, of ?plain "''m T''" ?hs ?c "[]" sample_env] s t by (auto simp: sent_since_def)
qed

end
