(* ===== verification/Conformance.thy ===== *)
theory Conformance
  imports Router Json_Escape Jsonf
begin

text \<open>
  The model against the repository's own unit tests: the inputs and the expected results of
  \<^verbatim>\<open>src/test/test_mnet.c\<close> and of \<open>test_jsonf\<close> in \<^verbatim>\<open>src/test/test_security.c\<close>, computed by the definitions
  of the model inside the logic.
\<close>

section \<open>Decoding and escaping\<close>

text \<open>A buffer of \<open>n\<close> bytes filled with X, and the source behind it; the results are what is returned and the string in the buffer.\<close>

definition decoded_into :: "nat \<Rightarrow> nat \<Rightarrow> string \<Rightarrow> (nat \<times> string) option" where
  "decoded_into n sz s =
     map_option (\<lambda>(k, m). (k, c_string (take n m))) (mnet_url_decode (replicate n CHR ''X'' @ s @ [NUL]) (Some 0) sz (Some n))"

definition decoded_ex :: "string \<Rightarrow> nat \<Rightarrow> nat \<Rightarrow> (int \<times> string) option" where
  "decoded_ex s len sz =
     map_option (\<lambda>(k, m). (k, c_string (take 64 m)))
       (mnet_url_decode_ex (replicate 64 NUL @ s @ [NUL]) (Some 64) len (Some 0) sz)"

lemma test_mnet_url_decode:
  "decoded_into 256 256 ''hello'' = Some (5, ''hello'')"
  "decoded_into 256 256 ''hello%20world'' = Some (11, ''hello world'')"
  "decoded_into 256 256 ''a%2Fb'' = Some (3, ''a/b'')"
  "decoded_into 256 256 ''a+b'' = Some (3, ''a b'')"
  "decoded_into 256 256 ''%C3%A9'' = Some (2, [CHR 0xC3, CHR 0xA9])"
  "decoded_into 256 256 '''' = Some (0, '''')"
  by code_simp+

lemma test_mnet_url_decode_malformed:
  "decoded_into 64 64 ''a%zzb'' = Some (0, '''')"
  "decoded_into 64 64 ''a%00b'' = Some (0, '''')"
  "decoded_into 4 4 ''abc'' = Some (3, ''abc'')"
  "decoded_into 3 3 ''abcd'' = Some (0, '''')"
  by code_simp+

lemma test_mnet_url_decode_ex:
  "decoded_ex ''hello'' 5 64 = Some (5, ''hello'')"
  "decoded_ex ''a%20b'' 5 64 = Some (3, ''a b'')"
  "decoded_ex ''a+b'' 3 64 = Some (3, ''a b'')"
  "decoded_ex ''a%2Fb'' 5 64 = Some (3, ''a/b'')"
  "map_option fst (decoded_ex ''a%zzb'' 5 64) = Some (-1)"
  "map_option fst (decoded_ex ''a%2'' 3 64) = Some (-1)"
  "map_option fst (decoded_ex ''a%'' 2 64) = Some (-1)"
  "map_option fst (decoded_ex ''a%00b'' 5 64) = Some (-1)"
  "decoded_ex ''helloXX'' 5 64 = Some (5, ''hello'')"
  "decoded_ex ''abc'' 3 4 = Some (3, ''abc'')"
  "map_option fst (decoded_ex ''abc'' 3 3) = Some (-1)"
  "map_option fst (decoded_ex ''abc'' 3 0) = Some (-1)"
  "mnet_url_decode_ex m None 0 (Some 0) 64 = Some (-1, m)"
  "mnet_url_decode_ex m (Some 0) 1 None 4 = Some (-1, m)"
  by (code_simp | simp add: mnet_url_decode_ex_def)+

definition escaped_256 :: "string \<Rightarrow> (nat \<times> string) option" where
  "escaped_256 s = map_option (\<lambda>(k, out). (k, c_string out)) (mnet_json_escape (replicate 256 NUL) 256 (Some s))"

lemma test_mnet_json_escape:
  "escaped_256 ''hello'' = Some (5, ''hello'')"
  "escaped_256 (''he'' @ [DQUOTE] @ ''llo'') = Some (7, ''he'' @ [BACKSLASH, DQUOTE] @ ''llo'')"
  "escaped_256 (''a'' @ [BACKSLASH] @ ''b'') = Some (4, ''a'' @ [BACKSLASH, BACKSLASH] @ ''b'')"
  "escaped_256 (''a'' @ [LF] @ ''b'') = Some (4, ''a'' @ [BACKSLASH] @ ''nb'')"
  "escaped_256 (''a'' @ [CR] @ ''b'') = Some (4, ''a'' @ [BACKSLASH] @ ''rb'')"
  "escaped_256 (''a'' @ [TAB] @ ''b'') = Some (4, ''a'' @ [BACKSLASH] @ ''tb'')"
  "escaped_256 '''' = Some (0, '''')"
  by code_simp+

lemma test_mnet_header_value_valid:
  "mnet_header_value_valid (Some ''text/plain'') \<and> mnet_header_value_valid (Some ''application/json; charset=utf-8'') \<and>
   mnet_header_value_valid (Some '''') \<and> mnet_header_value_valid None"
  "\<not> mnet_header_value_valid (Some (''text/plain'' @ [CR])) \<and> \<not> mnet_header_value_valid (Some (''text/plain'' @ [LF])) \<and>
   \<not> mnet_header_value_valid (Some (''text/plain'' @ CRLF @ ''X-Evil: 1'')) \<and> \<not> mnet_header_value_valid (Some (''a'' @ [LF] @ ''b''))"
  "\<not> mnet_header_value_valid (Some [CHR ''a'', CHR 0x01, CHR ''b'']) \<and> \<not> mnet_header_value_valid (Some [CHR ''a'', CHR 0x7F, CHR ''b''])"
  by code_simp+

lemma test_mnet_header_name_valid:
  "mnet_header_name_valid (Some ''Content-Type'') \<and> mnet_header_name_valid (Some ''X-Custom_Header'')"
  "\<not> mnet_header_name_valid (Some '''') \<and> \<not> mnet_header_name_valid None \<and> \<not> mnet_header_name_valid (Some ''Bad Name'') \<and>
   \<not> mnet_header_name_valid (Some ''Bad:Name'') \<and> \<not> mnet_header_name_valid (Some (''Bad'' @ CRLF @ ''Name'')) \<and>
   \<not> mnet_header_name_valid (Some (''Bad'' @ [LF] @ ''Name''))"
  by code_simp+

section \<open>Matching\<close>

definition matched :: "string \<Rightarrow> string \<Rightarrow> nat \<Rightarrow> (int \<times> slot list) option" where
  "matched pat path max_values = map_option fst (mnet_route_match (sample_route pat) (Some path) (replicate 4 Null) max_values [])"

lemma test_mnet_route_match:
  "matched ''/api/users/:id'' ''/api/users/42'' 4 = Some (1, [Val ''42'', Null, Null, Null])"
  "matched ''/api/posts/:post_id/comments/:comment_id'' ''/api/posts/5/comments/99'' 4 = Some (2, [Val ''5'', Val ''99'', Null, Null])"
  "map_option fst (matched ''/api/users/:id'' ''/api/users'' 4) = Some (-1)"
  "map_option fst (matched ''/'' ''/'' 4) = Some 0"
  "matched ''/api/users/:id/posts/:post_id'' ''/api/users/42'' 4 = Some (-1, [Freed, Null, Null, Null])"
  "matched ''/static/*'' ''/static/css/style.css'' 4 = Some (1, [Val ''css/style.css'', Null, Null, Null])"
  "matched ''/a/:x/b/:y'' ''/a/1/b/2'' 1 = Some (2, [Val ''1'', Null, Null, Null])"
  by code_simp+

section \<open>Formatting\<close>

text \<open>In the texts below \<open>#\<close> stands for a quote and \<open>$\<close> for a backslash. The tests with floating-point directives are left out, and those with numbers or texts that are too
  long to compute in the logic.\<close>

definition dq :: "string \<Rightarrow> string" where
  "dq s = map (\<lambda>c. if c = CHR ''#'' then DQUOTE else if c = CHR ''$'' then BACKSLASH else c) s"

definition formatted :: "string \<Rightarrow> unit va_arg list \<Rightarrow> (int \<times> string option) option" where
  "formatted format args =
     map_option (\<lambda>(r, al). (r_status r, r_body r)) (mnet_jsonf (\<lambda>spec d. []) (Some (dq format)) args [])"

lemma test_jsonf_strings:
  "formatted ''{#a#:#%.40s#}'' [A_str (Some (dq ''x#,#admin#:true,#y#:#''))] =
     Some (200, Some (dq ''{#a#:#x$#,$#admin$#:true,$#y$#:$##}''))"
  "formatted ''{#a#:#%.3s#}'' [A_str (Some ''abcdef'')] = Some (200, Some (dq ''{#a#:#abc#}''))"
  "formatted ''[#%.1s#]'' [A_str (Some [CHR 0xC3, CHR 0xA9])] = Some (200, Some (dq ''[##]''))"
  "formatted ''[#%.0s#]'' [A_str (Some ''abc'')] = Some (200, Some (dq ''[##]''))"
  "formatted ''{#a#:#%s#}'' [A_str None] = Some (200, Some (dq ''{#a#:#(null)#}''))"
  "formatted ''{#id#:#%s#}'' [A_str (Some ''42'')] = Some (200, Some (dq ''{#id#:#42#}''))"
  "formatted ''{#p#:#100%%#}'' [] = Some (200, Some (dq ''{#p#:#100%#}''))"
  by code_simp+

lemma test_jsonf_rejected:
  "\<forall>(f, args)\<in>set [(''{#a#:#%5s#}'', [A_str (Some ''x'')]), (''{#a#:#%-8s#}'', [A_str (Some ''x'')]),
      (''{#a#:#%ls#}'', [A_str (Some ''x'')]), (''{#a#:%'', []), (''{#a#:%5'', []), (''{#a#:%.'', []), (''%*d'', [A_int 5, A_int 1]),
      (''%n'', []), (''%p'', []), (''%a'', [])]. map_option fst (formatted f args) = Some 500"
  by code_simp

lemma test_jsonf_numbers:
  "formatted ''{#n#:%d}'' [A_int (- 42)] = Some (200, Some (dq ''{#n#:-42}''))"
  "formatted ''{#n#:%5d}'' [A_int 42] = Some (200, Some (dq ''{#n#:   42}''))"
  "formatted ''{#n#:%05d}'' [A_int 42] = Some (200, Some (dq ''{#n#:00042}''))"
  "formatted ''{#n#:%zu}'' [A_long 123] = Some (200, Some (dq ''{#n#:123}''))"
  "formatted ''{#n#:%u}'' [A_int 7] = Some (200, Some (dq ''{#n#:7}''))"
  "formatted ''{#n#:%x}'' [A_int 255] = Some (200, Some (dq ''{#n#:ff}''))"
  "formatted ''{#n#:%hhd}'' [A_int 300] = Some (200, Some (dq ''{#n#:44}''))"
  by code_simp+

lemma test_jsonf_chars:
  "formatted ''{#c#:#%c#}'' [A_int 122] = Some (200, Some (dq ''{#c#:#z#}''))"
  "formatted ''{#c#:#%c#}'' [A_int 34] = Some (200, Some (dq ''{#c#:#$##}''))"
  "formatted ''{#c#:#%c#}'' [A_int 0] = Some (200, Some (dq ''{#c#:#$u0000#}''))"
  by code_simp+

lemma test_jsonf_mixed:
  "formatted ''{#a#:#%s#,#n#:%d,#b#:#%.2s#}'' [A_str (Some (dq ''q#'')), A_int 9, A_str (Some ''wxyz'')] =
     Some (200, Some (dq ''{#a#:#q$##,#n#:9,#b#:#wx#}''))"
  by code_simp

end
